(* ===== verification/Prelude.thy ===== *)
theory Prelude
  imports Main "HOL-Library.Word"
begin

text \<open>
  Shared vocabulary of the development: the C integer types of
  \<^verbatim>\<open>student-distrib/lib/types.h\<close> as machine words, static arrays, counting loops, the
  byte-addressed memory seen by kernel code, and the log of port accesses
  (\<^verbatim>\<open>inb\<close>/\<^verbatim>\<open>outb\<close> of \<^verbatim>\<open>student-distrib/lib/lib.h\<close>).  The component theories import
  this one and rest on its loop rules (collection \<open>loop_simps\<close>) and word facts.
\<close>

unbundle bit_operations_syntax

named_theorems loop_simps \<open>closed forms of the counting loops of the C code\<close>

section \<open>Machine integers and static arrays\<close>

type_synonym u8 = "8 word"
type_synonym u16 = "16 word"
type_synonym u32 = "32 word"

lemma unat_of_nat_u32: "n < 2 ^ 32 \<Longrightarrow> unat (of_nat n :: u32) = n"
  by (simp add: unat_of_nat)

lemma uint_of_int_u32: "0 \<le> i \<Longrightarrow> i < 2 ^ 32 \<Longrightarrow> uint (of_int i :: u32) = i"
  by (simp add: uint_word_of_int)

lemma of_int_eq_u32:
  "0 \<le> i \<Longrightarrow> i < 2 ^ 32 \<Longrightarrow> 0 \<le> j \<Longrightarrow> j < 2 ^ 32 \<Longrightarrow> (of_int i :: u32) = of_int j \<longleftrightarrow> i = j"
  by (metis uint_of_int_u32)

text \<open>The numbers below 16, by their remainder modulo 4.\<close>

lemma below_16:
  "n < 16 \<Longrightarrow> n \<in> {0, 4, 8, 12} \<union> {1, 5, 9, 13} \<union> {2, 6, 10, 14} \<union> {3, 7, 11, 15 :: nat}"
  by (simp only: Un_iff insert_iff empty_iff) arith

text \<open>An unsigned counter below its bound does not wrap when it is incremented.\<close>

lemma unat_counter:
  assumes "(i :: u32) < n"
  shows "unat (i + 1) = Suc (unat i)" and "unat n - unat (i + 1) < unat n - unat i"
proof -
  have "unat i < unat n" using assms by (simp add: word_less_nat_alt)
  moreover have "unat n < 2 ^ 32" using unsigned_less [of n, where 'a = nat] by simp
  ultimately show 1: "unat (i + 1) = Suc (unat i)" by (simp add: unat_word_ariths)
  show "unat n - unat (i + 1) < unat n - unat i"
    using \<open>unat i < unat n\<close> by (simp add: 1)
qed

text \<open>
  A static C array is a function from offsets: offsets inside the declared length are the
  elements, offsets outside it stand for the memory next to the array, so an
  out-of-bounds access of the source is visible as an access outside the length.
\<close>

type_synonym 'a arr = "int \<Rightarrow> 'a"

text \<open>\<open>in_bounds n a b\<close>: an operation that turned \<open>a\<close> into \<open>b\<close> wrote only to the
  first \<open>n\<close> elements.\<close>

definition in_bounds :: "int \<Rightarrow> 'a arr \<Rightarrow> 'a arr \<Rightarrow> bool" where
  "in_bounds n a b \<longleftrightarrow> (\<forall>k. k < 0 \<or> n \<le> k \<longrightarrow> b k = a k)"

lemma in_bounds_refl [simp, intro]: "in_bounds n a a"
  by (simp add: in_bounds_def)

lemma in_bounds_trans: "in_bounds n a b \<Longrightarrow> in_bounds n b c \<Longrightarrow> in_bounds n a c"
  by (simp add: in_bounds_def)

lemma in_bounds_upd: "in_bounds n a b \<Longrightarrow> 0 \<le> i \<Longrightarrow> i < n \<Longrightarrow> in_bounds n a (b(i := v))"
  by (auto simp: in_bounds_def)

lemma find_SomeD: "find P xs = Some x \<Longrightarrow> x \<in> set xs \<and> P x"
  by (induction xs) (auto split: if_splits)

lemma find_unique:
  assumes "x \<in> set xs" "P x" "\<forall>y \<in> set xs. P y \<longrightarrow> y = x"
  shows "find P xs = Some x"
proof (cases "find P xs")
  case None
  then show ?thesis using assms(1,2) unfolding find_None_iff by blast
next
  case (Some y)
  then obtain i where "i < length xs" "P (xs ! i)" "y = xs ! i"
    unfolding find_Some_iff by blast
  then have "y \<in> set xs" "P y" by simp_all
  then show ?thesis using Some assms(3) by blast
qed

section \<open>Counting loops\<close>

text \<open>\<^verbatim>\<open>for (i = lo; i < hi; i++) s = f(i, s);\<close>\<close>

definition for_range :: "int \<Rightarrow> int \<Rightarrow> (int \<Rightarrow> 's \<Rightarrow> 's) \<Rightarrow> 's \<Rightarrow> 's" where
  "for_range lo hi f s = fold f [lo..hi - 1] s"

lemma for_range_empty [simp]: "hi \<le> lo \<Longrightarrow> for_range lo hi f s = s"
  by (simp add: for_range_def)

lemma for_range_step: "lo < hi \<Longrightarrow> for_range lo hi f s = for_range (lo + 1) hi f (f lo s)"
  by (simp add: for_range_def upto_rec1)

lemma for_range_unfold:
  "for_range lo hi f s = (if lo < hi then for_range (lo + 1) hi f (f lo s) else s)"
  by (simp add: for_range_step)

lemma for_range_last: "lo \<le> hi \<Longrightarrow> for_range lo (hi + 1) f s = f hi (for_range lo hi f s)"
  by (simp add: for_range_def upto_rec2)

text \<open>The loop rule: an invariant indexed by the counter.\<close>

lemma for_range_invariant [consumes 1, case_names init step]:
  assumes "lo \<le> hi"
    and "P lo s"
    and "\<And>i t. lo \<le> i \<Longrightarrow> i < hi \<Longrightarrow> P i t \<Longrightarrow> P (i + 1) (f i t)"
  shows "P hi (for_range lo hi f s)"
  using assms(1,3)
proof (induction hi rule: int_ge_induct)
  case base
  then show ?case using assms(2) by simp
next
  case (step hi)
  have "P hi (for_range lo hi f s)"
    using step by simp
  then show ?case
    using step by (simp add: for_range_last)
qed

lemma for_range_preserves:
  assumes "P s" and "\<And>i t. lo \<le> i \<Longrightarrow> i < hi \<Longrightarrow> P t \<Longrightarrow> P (f i t)"
  shows "P (for_range lo hi f s)"
proof (cases "lo \<le> hi")
  case True
  then show ?thesis
    by (rule for_range_invariant [where P = "\<lambda>_. P"]) (use assms in auto)
next
  case False
  then show ?thesis using assms by simp
qed

lemma for_range_cong:
  assumes "lo = lo'" "hi = hi'" "s = s'"
    and "\<And>i t. lo' \<le> i \<Longrightarrow> i < hi' \<Longrightarrow> f i t = g i t"
  shows "for_range lo hi f s = for_range lo' hi' g s'"
  unfolding for_range_def using assms by (intro fold_cong) auto

lemma for_range_fill [loop_simps]:
  "for_range lo hi (\<lambda>i a. a(i := v i)) a = (\<lambda>k. if lo \<le> k \<and> k < hi then v k else a k)"
proof (cases "lo \<le> hi")
  case True
  then show ?thesis
  proof (induction hi rule: int_ge_induct)
    case (step hi)
    then show ?case by (auto simp: for_range_last fun_eq_iff)
  qed (auto simp: fun_eq_iff)
qed (auto simp: fun_eq_iff)

text \<open>Moving a block of elements down: each cell is written after it has been read.\<close>

lemma for_range_move_down [loop_simps]:
  assumes "0 < d"
  shows "for_range lo hi (\<lambda>i a. a(i := a (i + d))) a
    = (\<lambda>k. if lo \<le> k \<and> k < hi then a (k + d) else a k)"
proof (cases "lo \<le> hi")
  case True
  then show ?thesis
  proof (induction hi rule: int_ge_induct)
    case (step hi)
    then show ?case using assms by (auto simp: for_range_last fun_eq_iff)
  qed (auto simp: fun_eq_iff)
qed (auto simp: fun_eq_iff)

text \<open>The same for a stretch that starts at \<open>b\<close>, with a function applied on the way, and for
  rows of \<open>w\<close> elements.\<close>

lemma for_range_fill_from [loop_simps]:
  "for_range lo hi (\<lambda>i a. a(b + i := v i)) a = (\<lambda>k. if b + lo \<le> k \<and> k < b + hi then v (k - b) else a k)"
proof (cases "lo \<le> hi")
  case True
  then show ?thesis
  proof (induction hi rule: int_ge_induct)
    case (step hi)
    then show ?case by (auto simp: for_range_last fun_eq_iff)
  qed (auto simp: fun_eq_iff)
qed (auto simp: fun_eq_iff)

lemma for_range_map_down [loop_simps]:
  assumes "0 < d"
  shows "for_range lo hi (\<lambda>i a. a(b + i := g (a (b + i + d)))) a
    = (\<lambda>k. if b + lo \<le> k \<and> k < b + hi then g (a (k + d)) else a k)"
proof (cases "lo \<le> hi")
  case True
  then show ?thesis
  proof (induction hi rule: int_ge_induct)
    case (step hi)
    then show ?case using assms by (auto simp: for_range_last fun_eq_iff)
  qed (auto simp: fun_eq_iff)
qed (auto simp: fun_eq_iff)

lemma for_range_map_rows [loop_simps]:
  assumes "0 < w"
  shows "for_range 0 n (\<lambda>y. for_range 0 w (\<lambda>x a. a(y * w + x := g (a ((y + 1) * w + x))))) a
    = (\<lambda>k. if 0 \<le> k \<and> k < n * w then g (a (k + w)) else a k)"
proof (cases "0 \<le> n")
  case True
  have row: "for_range 0 w (\<lambda>x a. a(y * w + x := g (a ((y + 1) * w + x)))) a
      = (\<lambda>k. if y * w \<le> k \<and> k < y * w + w then g (a (k + w)) else a k)" for y a
    using for_range_map_down [OF assms, of 0 w "y * w" g a] by (simp add: algebra_simps)
  from True show ?thesis
  proof (induction n rule: int_ge_induct)
    case (step n)
    have "0 \<le> n * w" "(n + 1) * w = n * w + w" using step(1) assms by (simp_all add: distrib_right)
    then show ?case
      using assms unfolding row for_range_last [OF step(1)] step(2) [unfolded row] by (auto simp: fun_eq_iff)
  qed (auto simp: fun_eq_iff)
next
  case False
  then have "n * w \<le> 0" using assms by (simp add: mult_le_0_iff)
  with False show ?thesis by (auto simp: fun_eq_iff)
qed

text \<open>Loops over two-byte character cells.\<close>

lemma for_range_fill_pairs [loop_simps]:
  "for_range lo hi (\<lambda>i a. a(2 * i := x, 2 * i + 1 := y)) a
    = (\<lambda>k. if 2 * lo \<le> k \<and> k < 2 * hi then if even k then x else y else a k)"
proof (cases "lo \<le> hi")
  case True
  then show ?thesis
  proof (induction hi rule: int_ge_induct)
    case (step hi)
    have "k = 2 * hi \<or> k = 2 * hi + 1" if "2 * hi \<le> k" "k < 2 * (hi + 1)" for k
      using that by presburger
    with step show ?case by (fastforce simp: for_range_last fun_eq_iff)
  qed (auto simp: fun_eq_iff)
qed (auto simp: fun_eq_iff)

lemma for_range_move_pairs [loop_simps]:
  assumes "0 < d"
  shows "for_range lo hi (\<lambda>i a. a(2 * i := a (2 * i + 2 * d), 2 * i + 1 := a (2 * i + 1 + 2 * d))) a
    = (\<lambda>k. if 2 * lo \<le> k \<and> k < 2 * hi then a (k + 2 * d) else a k)"
proof (cases "lo \<le> hi")
  case True
  then show ?thesis
  proof (induction hi rule: int_ge_induct)
    case (step hi)
    have "k = 2 * hi \<or> k = 2 * hi + 1" if "2 * hi \<le> k" "k < 2 * (hi + 1)" for k
      using that by presburger
    with step assms show ?case by (fastforce simp: for_range_last fun_eq_iff)
  qed (auto simp: fun_eq_iff)
qed (auto simp: fun_eq_iff)

text \<open>A loop seen through one component of its state.\<close>

lemma for_range_hom:
  assumes "\<And>i t. lo \<le> i \<Longrightarrow> i < hi \<Longrightarrow> g (f i t) = h i (g t)"
  shows "g (for_range lo hi f s) = for_range lo hi h (g s)"
proof (cases "lo \<le> hi")
  case True
  then show ?thesis
    using assms
  proof (induction hi rule: int_ge_induct)
    case (step hi)
    then show ?case by (simp add: for_range_last)
  qed simp
qed simp

lemma for_range_frame: "(\<And>i t. g (f i t) = g t) \<Longrightarrow> g (for_range lo hi f s) = g s"
  by (rule for_range_preserves [where P = "\<lambda>t. g t = g s"]) simp_all

lemma for_range_last_write:
  assumes "lo < hi" "\<And>i t. g (f i t) = v"
  shows "g (for_range lo hi f s) = v"
proof -
  have "for_range lo (hi - 1 + 1) f s = f (hi - 1) (for_range lo (hi - 1) f s)"
    by (rule for_range_last) (use assms in simp)
  then show ?thesis using assms(2) by simp
qed

lemma in_bounds_for_range:
  assumes "\<And>i b. lo \<le> i \<Longrightarrow> i < hi \<Longrightarrow> in_bounds n a b \<Longrightarrow> in_bounds n a (f i b)"
  shows "in_bounds n a (for_range lo hi f a)"
  by (rule for_range_preserves [where P = "in_bounds n a"]) (use assms in auto)

section \<open>Memory and ports\<close>

text \<open>
  The bytes of the address space the processor currently uses.  Reading and writing a
  32-bit object is little-endian.
\<close>

type_synonym mem = "u32 \<Rightarrow> u8"

definition get32 :: "mem \<Rightarrow> u32 \<Rightarrow> u32" where
  "get32 m a = ucast (m a) OR push_bit 8 (ucast (m (a + 1)))
     OR push_bit 16 (ucast (m (a + 2))) OR push_bit 24 (ucast (m (a + 3)))"

lemma get32_cong:
  "m a = m' a \<Longrightarrow> m (a + 1) = m' (a + 1) \<Longrightarrow> m (a + 2) = m' (a + 2) \<Longrightarrow> m (a + 3) = m' (a + 3)
   \<Longrightarrow> get32 m a = get32 m' a"
  by (simp add: get32_def)

text \<open>Accesses to the processor's I/O ports, oldest first.\<close>

datatype io_event = Out u16 u8 | In u16

type_synonym io = "io_event list"

text \<open>The devices behind the ports: what a read of a port returns after a history of
  accesses.\<close>

type_synonym device = "io \<Rightarrow> u16 \<Rightarrow> u8"

definition outb :: "u8 \<Rightarrow> u16 \<Rightarrow> io \<Rightarrow> io" where
  "outb data port log = log @ [Out port data]"

definition inb :: "device \<Rightarrow> u16 \<Rightarrow> io \<Rightarrow> u8 \<times> io" where
  "inb dev port log = (dev log port, log @ [In port])"

section \<open>Slot allocators\<close>

text \<open>
  The contract shared by the two first-fit allocators of the kernel: process identifiers
  (\<^verbatim>\<open>tasks.c\<close>) and file descriptors (\<^verbatim>\<open>pcb.c\<close>).  Slots are numbered
  \<open>lo\<close> up to \<open>hi - 1\<close>, \<open>-1\<close> reports exhaustion.
\<close>

locale slot_allocator =
  fixes alloc :: "'s \<Rightarrow> int \<times> 's"
    and release :: "int \<Rightarrow> 's \<Rightarrow> 's"
    and live :: "'s \<Rightarrow> int set"
    and lo hi :: int
  assumes range: "0 \<le> lo" "lo \<le> hi"
    and alloc_full: "{lo..<hi} \<subseteq> live s \<Longrightarrow> alloc s = (-1, s)"
    and alloc_first: "j \<in> {lo..<hi} \<Longrightarrow> j \<notin> live s \<Longrightarrow> {lo..<j} \<subseteq> live s \<Longrightarrow>
      fst (alloc s) = j \<and> live (snd (alloc s)) = insert j (live s)"
    and release_live: "j \<in> {lo..<hi} \<Longrightarrow> live (release j s) = live s - {j}"
begin

lemma first_free:
  assumes "\<not> {lo..<hi} \<subseteq> live s"
  obtains j where "j \<in> {lo..<hi}" "j \<notin> live s" "{lo..<j} \<subseteq> live s"
proof -
  define P where "P n \<longleftrightarrow> lo + int n < hi \<and> lo + int n \<notin> live s" for n
  from assms obtain k where "k \<in> {lo..<hi}" "k \<notin> live s" by blast
  then have "P (nat (k - lo))" by (simp add: P_def)
  then have "P (LEAST n. P n)" by (rule LeastI)
  moreover have "{lo..<lo + int (LEAST n. P n)} \<subseteq> live s"
  proof
    fix i assume i: "i \<in> {lo..<lo + int (LEAST n. P n)}"
    then have "nat (i - lo) < (LEAST n. P n)" by auto
    then have "\<not> P (nat (i - lo))" by (rule not_less_Least)
    then show "i \<in> live s" using i calculation by (auto simp: P_def)
  qed
  ultimately show thesis by (intro that [of "lo + int (LEAST n. P n)"]) (auto simp: P_def)
qed

lemma alloc_cases:
  obtains (full) "{lo..<hi} \<subseteq> live s" "alloc s = (-1, s)"
  | (slot) j s' where "alloc s = (j, s')" "j \<in> {lo..<hi}" "j \<notin> live s" "{lo..<j} \<subseteq> live s"
      "live s' = insert j (live s)"
proof (cases "{lo..<hi} \<subseteq> live s")
  case True
  then show ?thesis using alloc_full full by blast
next
  case False
  then obtain j where j: "j \<in> {lo..<hi}" "j \<notin> live s" "{lo..<j} \<subseteq> live s"
    by (rule first_free)
  then show ?thesis
    using alloc_first [OF j] slot [of j "snd (alloc s)"] by (cases "alloc s") auto
qed

lemma alloc_fails_iff: "fst (alloc s) = -1 \<longleftrightarrow> {lo..<hi} \<subseteq> live s"
  using range by (cases s rule: alloc_cases) auto

lemma alloc_fresh:
  assumes "fst (alloc s) \<noteq> -1"
  shows "fst (alloc s) \<in> {lo..<hi} - live s"
    and "live (snd (alloc s)) = insert (fst (alloc s)) (live s)"
    and "{lo..<fst (alloc s)} \<subseteq> live s"
  using assms by (cases s rule: alloc_cases; simp)+

text \<open>Giving a slot back undoes its allocation, and the next allocation finds it again.\<close>

lemma release_undoes_alloc:
  assumes "fst (alloc s) \<noteq> -1"
  shows "live (release (fst (alloc s)) (snd (alloc s))) = live s"
  using alloc_fresh [OF assms] by (auto simp: release_live)

lemma realloc_same_slot:
  assumes "fst (alloc s) \<noteq> -1"
  shows "fst (alloc (release (fst (alloc s)) (snd (alloc s)))) = fst (alloc s)"
  using alloc_fresh [OF assms] release_undoes_alloc [OF assms]
    alloc_first [of "fst (alloc s)" "release (fst (alloc s)) (snd (alloc s))"] by auto

text \<open>Successive allocations: the slots they return.\<close>

primrec alloc_n :: "nat \<Rightarrow> 's \<Rightarrow> int list \<times> 's" where
  "alloc_n 0 s = ([], s)"
| "alloc_n (Suc n) s = (let (js, s') = alloc_n n s; (j, s'') = alloc s' in (js @ [j], s''))"

lemma alloc_n_empty:
  assumes "live s \<inter> {lo..<hi} = {}" "int n \<le> hi - lo"
  shows "fst (alloc_n n s) = [lo..lo + int n - 1]
    \<and> live (snd (alloc_n n s)) = live s \<union> {lo..<lo + int n}"
  using assms(2)
proof (induction n)
  case (Suc n)
  let ?t = "snd (alloc_n n s)"
  have IH: "fst (alloc_n n s) = [lo..lo + int n - 1]"
    "live ?t = live s \<union> {lo..<lo + int n}"
    using Suc by auto
  have "fst (alloc ?t) = lo + int n \<and> live (snd (alloc ?t)) = insert (lo + int n) (live ?t)"
    by (rule alloc_first) (use Suc.prems assms(1) IH in auto)
  then show ?case
    using IH Suc.prems
    by (auto simp: split_def Let_def upto_rec2 [of lo "lo + int n"])
qed auto

lemma alloc_n_exhausts:
  assumes "live s \<inter> {lo..<hi} = {}"
  shows "fst (alloc (snd (alloc_n (nat (hi - lo)) s))) = -1"
  using alloc_n_empty [OF assms, of "nat (hi - lo)"] range by (auto simp: alloc_fails_iff)

end

end
