(* ===== verification/Tasks.thy ===== *)
theory Tasks
  imports Prelude
begin

text \<open>
  Process identifiers: \<^verbatim>\<open>student-distrib/kernel/tasks.c\<close>.  The static array
  \<^verbatim>\<open>pid_usage\<close> holds one byte per identifier.  \<open>tasks_pid_new\<close> takes the lowest free
  identifier from 1 on, \<open>tasks_pid_free\<close> gives one back.  The theory interprets
  \<open>slot_allocator\<close> on them.
\<close>

abbreviation MAX_PID :: int where "MAX_PID \<equiv> 16"
abbreviation FREE :: u8 where "FREE \<equiv> 0"
abbreviation IN_USE :: u8 where "IN_USE \<equiv> 1"

section \<open>Operations\<close>

definition init_tasks :: "u8 arr \<Rightarrow> u8 arr" where
  "init_tasks pid_usage = for_range 1 MAX_PID (\<lambda>i a. a(i := FREE)) pid_usage"

text \<open>The search loop of \<^verbatim>\<open>tasks_pid_new\<close>, from \<open>i\<close> on.\<close>

function tasks_pid_new_loop :: "int \<Rightarrow> u8 arr \<Rightarrow> int \<times> u8 arr" where
  "tasks_pid_new_loop i pid_usage =
     (if i < MAX_PID then
        if pid_usage i = FREE then (i, pid_usage(i := IN_USE))
        else tasks_pid_new_loop (i + 1) pid_usage
      else (-1, pid_usage))"
  by pat_completeness auto
termination
  by (relation "measure (\<lambda>(i, _). nat (MAX_PID - i))") auto

declare tasks_pid_new_loop.simps [simp del]

definition tasks_pid_new :: "u8 arr \<Rightarrow> int \<times> u8 arr" where
  "tasks_pid_new pid_usage = tasks_pid_new_loop 1 pid_usage"

definition tasks_pid_free :: "int \<Rightarrow> u8 arr \<Rightarrow> u8 arr" where
  "tasks_pid_free pid pid_usage = pid_usage(pid := FREE)"

section \<open>The allocator contract\<close>

text \<open>The identifiers in use.\<close>

definition live_pids :: "u8 arr \<Rightarrow> int set" where
  "live_pids pid_usage = {i. 1 \<le> i \<and> i < MAX_PID \<and> pid_usage i \<noteq> FREE}"

lemma tasks_pid_new_loop_full:
  "\<forall>j. i \<le> j \<and> j < MAX_PID \<longrightarrow> a j \<noteq> FREE \<Longrightarrow> tasks_pid_new_loop i a = (-1, a)"
  by (induction i a rule: tasks_pid_new_loop.induct)
    (simp add: tasks_pid_new_loop.simps [of _ "a" for a])

lemma tasks_pid_new_loop_first:
  assumes "i \<le> j" "j < MAX_PID" "a j = FREE" "\<forall>k. i \<le> k \<and> k < j \<longrightarrow> a k \<noteq> FREE"
  shows "tasks_pid_new_loop i a = (j, a(j := IN_USE))"
  using assms
proof (induction i a rule: tasks_pid_new_loop.induct)
  case (1 i a)
  show ?case
  proof (cases "i = j")
    case True
    with 1 show ?thesis by (subst tasks_pid_new_loop.simps) simp
  next
    case False
    with 1 show ?thesis by (simp add: tasks_pid_new_loop.simps [of i a])
  qed
qed

interpretation pids: slot_allocator tasks_pid_new tasks_pid_free live_pids 1 MAX_PID
proof
  fix s :: "u8 arr"
  assume "{1..<MAX_PID} \<subseteq> live_pids s"
  then show "tasks_pid_new s = (-1, s)"
    by (auto simp: tasks_pid_new_def live_pids_def intro!: tasks_pid_new_loop_full)
next
  fix j and s :: "u8 arr"
  assume "j \<in> {1..<MAX_PID}" "j \<notin> live_pids s" "{1..<j} \<subseteq> live_pids s"
  then have "tasks_pid_new s = (j, s(j := IN_USE))"
    by (auto simp: tasks_pid_new_def live_pids_def subset_iff intro!: tasks_pid_new_loop_first)
  then show "fst (tasks_pid_new s) = j \<and> live_pids (snd (tasks_pid_new s)) = insert j (live_pids s)"
    using \<open>j \<in> {1..<MAX_PID}\<close> by (auto simp: live_pids_def)
qed (auto simp: tasks_pid_free_def live_pids_def)

lemma live_pids_init [simp]: "live_pids (init_tasks a) = {}"
  by (auto simp: init_tasks_def live_pids_def loop_simps)

lemma tasks_pid_new_frame: "in_bounds MAX_PID a (snd (tasks_pid_new a))"
proof -
  have "1 \<le> i \<Longrightarrow> in_bounds MAX_PID a (snd (tasks_pid_new_loop i a))" for i
  proof (induction i a rule: tasks_pid_new_loop.induct)
    case (1 i a)
    then show ?case
      by (subst tasks_pid_new_loop.simps) (auto intro!: in_bounds_upd)
  qed
  then show ?thesis by (simp add: tasks_pid_new_def)
qed

section \<open>Properties\<close>

text \<open>After \<open>init_tasks\<close> the allocator hands out the identifiers 1, 2, ..., 15 in this
  order and then reports exhaustion with -1.  In every state an allocation either fails,
  exactly when all fifteen identifiers are in use, or returns the lowest identifier that is
  not in use and marks only that one; freeing it restores the set of identifiers in use,
  and the next allocation returns it again.\<close>

theorem pid_allocation:
  "fst (pids.alloc_n 15 (init_tasks a)) = [1..15]
   \<and> fst (tasks_pid_new (snd (pids.alloc_n 15 (init_tasks a)))) = -1
   \<and> (fst (tasks_pid_new s) = -1 \<longleftrightarrow> {1..<MAX_PID} \<subseteq> live_pids s)
   \<and> (fst (tasks_pid_new s) \<noteq> -1 \<longrightarrow>
        fst (tasks_pid_new s) \<in> {1..<MAX_PID} - live_pids s
      \<and> {1..<fst (tasks_pid_new s)} \<subseteq> live_pids s
      \<and> live_pids (snd (tasks_pid_new s)) = insert (fst (tasks_pid_new s)) (live_pids s)
      \<and> live_pids (tasks_pid_free (fst (tasks_pid_new s)) (snd (tasks_pid_new s))) = live_pids s
      \<and> fst (tasks_pid_new (tasks_pid_free (fst (tasks_pid_new s)) (snd (tasks_pid_new s))))
          = fst (tasks_pid_new s))"
  using pids.alloc_n_empty [of "init_tasks a" 15] pids.alloc_n_exhausts [of "init_tasks a"]
    pids.alloc_fails_iff [of s] pids.alloc_fresh [of s] pids.release_undoes_alloc [of s]
    pids.realloc_same_slot [of s]
  by simp

theorem pid_allocation_witness:
  "fst (tasks_pid_new (\<lambda>_. FREE)) \<noteq> -1
   \<and> fst (tasks_pid_new (tasks_pid_free (fst (tasks_pid_new (\<lambda>_. FREE))) (snd (tasks_pid_new (\<lambda>_. FREE)))))
      = fst (tasks_pid_new (\<lambda>_. FREE))"
proof -
  have "fst (tasks_pid_new (\<lambda>_. FREE)) \<noteq> -1"
    by (simp add: tasks_pid_new_def tasks_pid_new_loop.simps)
  then show ?thesis using pid_allocation [of undefined "\<lambda>_. FREE"] by blast
qed

end
