(* ===== verification/Lib_Mem.thy ===== *)
theory Lib_Mem
  imports Prelude
begin

text \<open>
  The block operations of \<^verbatim>\<open>student-distrib/lib/lib.c\<close> (\<^verbatim>\<open>memset\<close>, \<^verbatim>\<open>memset_word\<close>,
  \<^verbatim>\<open>memset_dword\<close>, \<^verbatim>\<open>memcpy\<close>, \<^verbatim>\<open>memmove\<close>).  They are inline assembly: each labelled
  piece of it is one function over the registers it uses, addresses and counters are
  32-bit words and wrap as the processor's do.  The lemmas compare them with reference
  definitions that say which byte every address holds afterwards.
\<close>

section \<open>String instructions\<close>

definition put16 :: "mem \<Rightarrow> u32 \<Rightarrow> u16 \<Rightarrow> mem" where
  "put16 m a v = m(a := ucast v, a + 1 := ucast (drop_bit 8 v))"

definition put32 :: "mem \<Rightarrow> u32 \<Rightarrow> u32 \<Rightarrow> mem" where
  "put32 m a v = m(a := ucast v, a + 1 := ucast (drop_bit 8 v),
     a + 2 := ucast (drop_bit 16 v), a + 3 := ucast (drop_bit 24 v))"

text \<open>\<^verbatim>\<open>rep stosl\<close>, \<^verbatim>\<open>rep stosw\<close> and \<^verbatim>\<open>rep movsl\<close> with the direction flag clear.\<close>

function rep_stosl :: "mem \<Rightarrow> u32 \<Rightarrow> u32 \<Rightarrow> u32 \<Rightarrow> mem \<times> u32" where
  "rep_stosl m edi ecx eax =
     (if ecx = 0 then (m, edi) else rep_stosl (put32 m edi eax) (edi + 4) (ecx - 1) eax)"
  by pat_completeness auto
termination
  by (relation "measure (\<lambda>(m, edi, ecx, eax). unat ecx)") (auto simp: measure_unat)

function rep_stosw :: "mem \<Rightarrow> u32 \<Rightarrow> u32 \<Rightarrow> u16 \<Rightarrow> mem \<times> u32" where
  "rep_stosw m edi ecx ax =
     (if ecx = 0 then (m, edi) else rep_stosw (put16 m edi ax) (edi + 2) (ecx - 1) ax)"
  by pat_completeness auto
termination
  by (relation "measure (\<lambda>(m, edi, ecx, ax). unat ecx)") (auto simp: measure_unat)

function rep_movsl :: "mem \<Rightarrow> u32 \<Rightarrow> u32 \<Rightarrow> u32 \<Rightarrow> mem \<times> u32 \<times> u32" where
  "rep_movsl m edi esi ecx =
     (if ecx = 0 then (m, edi, esi)
      else rep_movsl (put32 m edi (get32 m esi)) (edi + 4) (esi + 4) (ecx - 1))"
  by pat_completeness auto
termination
  by (relation "measure (\<lambda>(m, edi, esi, ecx). unat ecx)") (auto simp: measure_unat)

text \<open>\<^verbatim>\<open>rep movsb\<close>; a set direction flag makes it run downwards.\<close>

function rep_movsb :: "bool \<Rightarrow> mem \<Rightarrow> u32 \<Rightarrow> u32 \<Rightarrow> u32 \<Rightarrow> mem" where
  "rep_movsb df m edi esi ecx =
     (if ecx = 0 then m
      else let m' = m(edi := m esi) in
        if df then rep_movsb df m' (edi - 1) (esi - 1) (ecx - 1)
        else rep_movsb df m' (edi + 1) (esi + 1) (ecx - 1))"
  by pat_completeness auto
termination
  by (relation "measure (\<lambda>(df, m, edi, esi, ecx). unat ecx)") (auto simp: measure_unat)

declare rep_stosl.simps [simp del] rep_stosw.simps [simp del]
  rep_movsl.simps [simp del] rep_movsb.simps [simp del]

section \<open>The C functions\<close>

text \<open>\<^verbatim>\<open>.memset_bottom\<close>, \<^verbatim>\<open>.memset_aligned\<close> and \<^verbatim>\<open>.memset_top\<close>.\<close>

function memset_bottom :: "mem \<Rightarrow> u32 \<Rightarrow> u32 \<Rightarrow> u8 \<Rightarrow> mem" where
  "memset_bottom m edi edx al =
     (if edx = 0 then m else memset_bottom (m(edi := al)) (edi + 1) (edx - 1) al)"
  by pat_completeness auto
termination
  by (relation "measure (\<lambda>(m, edi, edx, al). unat edx)") (auto simp: measure_unat)

definition memset_aligned :: "mem \<Rightarrow> u32 \<Rightarrow> u32 \<Rightarrow> u32 \<Rightarrow> mem" where
  "memset_aligned m edi ecx eax =
     (let edx = ecx AND 3; (m', edi') = rep_stosl m edi (drop_bit 2 ecx) eax
      in memset_bottom m' edi' edx (ucast eax))"

function memset_top :: "mem \<Rightarrow> u32 \<Rightarrow> u32 \<Rightarrow> u32 \<Rightarrow> mem" where
  "memset_top m edi ecx eax =
     (if ecx = 0 then m
      else if edi AND 3 = 0 then memset_aligned m edi ecx eax
      else memset_top (m(edi := ucast eax)) (edi + 1) (ecx - 1) eax)"
  by pat_completeness auto
termination
  by (relation "measure (\<lambda>(m, edi, ecx, eax). unat ecx)") (auto simp: measure_unat)

declare memset_bottom.simps [simp del] memset_top.simps [simp del]

definition memset :: "mem \<Rightarrow> u32 \<Rightarrow> u32 \<Rightarrow> u32 \<Rightarrow> mem" where
  "memset m s c n =
     (let c = c AND 0xFF
      in memset_top m s n (push_bit 24 c OR push_bit 16 c OR push_bit 8 c OR c))"

definition memset_word :: "mem \<Rightarrow> u32 \<Rightarrow> u32 \<Rightarrow> u32 \<Rightarrow> mem" where
  "memset_word m s c n = fst (rep_stosw m s n (ucast c))"

definition memset_dword :: "mem \<Rightarrow> u32 \<Rightarrow> u32 \<Rightarrow> u32 \<Rightarrow> mem" where
  "memset_dword m s c n = fst (rep_stosl m s n c)"

text \<open>\<^verbatim>\<open>.memcpy_bottom\<close>, \<^verbatim>\<open>.memcpy_aligned\<close> and \<^verbatim>\<open>.memcpy_top\<close>.\<close>

function memcpy_bottom :: "mem \<Rightarrow> u32 \<Rightarrow> u32 \<Rightarrow> u32 \<Rightarrow> mem" where
  "memcpy_bottom m edi esi edx =
     (if edx = 0 then m
      else memcpy_bottom (m(edi := m esi)) (edi + 1) (esi + 1) (edx - 1))"
  by pat_completeness auto
termination
  by (relation "measure (\<lambda>(m, edi, esi, edx). unat edx)") (auto simp: measure_unat)

definition memcpy_aligned :: "mem \<Rightarrow> u32 \<Rightarrow> u32 \<Rightarrow> u32 \<Rightarrow> mem" where
  "memcpy_aligned m edi esi ecx =
     (let edx = ecx AND 3; (m', edi', esi') = rep_movsl m edi esi (drop_bit 2 ecx)
      in memcpy_bottom m' edi' esi' edx)"

function memcpy_top :: "mem \<Rightarrow> u32 \<Rightarrow> u32 \<Rightarrow> u32 \<Rightarrow> mem" where
  "memcpy_top m edi esi ecx =
     (if ecx = 0 then m
      else if edi AND 3 = 0 then memcpy_aligned m edi esi ecx
      else memcpy_top (m(edi := m esi)) (edi + 1) (esi + 1) (ecx - 1))"
  by pat_completeness auto
termination
  by (relation "measure (\<lambda>(m, edi, esi, ecx). unat ecx)") (auto simp: measure_unat)

declare memcpy_bottom.simps [simp del] memcpy_top.simps [simp del]

definition memcpy :: "mem \<Rightarrow> u32 \<Rightarrow> u32 \<Rightarrow> u32 \<Rightarrow> mem" where
  "memcpy m dest src n = memcpy_top m dest src n"

text \<open>\<^verbatim>\<open>memmove\<close> also returns the direction flag it leaves behind.\<close>

definition memmove :: "mem \<Rightarrow> u32 \<Rightarrow> u32 \<Rightarrow> u32 \<Rightarrow> mem \<times> bool" where
  "memmove m dest src n =
     (if dest \<le> src then (rep_movsb False m dest src n, False)
      else (rep_movsb True m (dest + n - 1) (src + n - 1) n, True))"

section \<open>Reference definitions\<close>

text \<open>The address \<open>a\<close> lies in the block of \<open>n\<close> bytes at \<open>s\<close> when \<open>a - s < n\<close>.\<close>

definition fill :: "mem \<Rightarrow> u32 \<Rightarrow> u8 \<Rightarrow> nat \<Rightarrow> mem" where
  "fill m s v n = (\<lambda>a. if unat (a - s) < n then v else m a)"

definition copied :: "mem \<Rightarrow> u32 \<Rightarrow> u32 \<Rightarrow> nat \<Rightarrow> mem" where
  "copied m dest src n = (\<lambda>a. if unat (a - dest) < n then m (src + (a - dest)) else m a)"

lemma fill_0 [simp]: "fill m s v 0 = m"
  by (simp add: fill_def)

lemma copied_0 [simp]: "copied m d s 0 = m"
  by (simp add: copied_def)

lemma unat_pred: "x \<noteq> 0 \<Longrightarrow> unat (x - 1 :: u32) = unat x - 1"
  by (simp add: unat_minus_one)

lemma unat_Suc_pred: "x \<noteq> 0 \<Longrightarrow> unat (x :: u32) = Suc (unat (x - 1))"
  using unat_pred [of x] unat_eq_zero [of x] by simp

lemma fill_Suc: "fill m s v (Suc n) = fill (m(s := v)) (s + 1) v n"
proof
  fix a
  show "fill m s v (Suc n) a = fill (m(s := v)) (s + 1) v n a"
  proof (cases "a = s")
    case False
    then have "unat (a - (s + 1)) = unat (a - s) - 1" "a - s \<noteq> 0"
      using unat_pred [of "a - s"] by (simp_all add: diff_diff_eq)
    moreover have "unat (a - s) \<noteq> 0" using False by (simp add: unat_eq_0)
    ultimately show ?thesis using False by (auto simp: fill_def)
  qed (simp add: fill_def)
qed

text \<open>One byte of a forward copy.  It is safe unless the destination starts inside the
  block that is still to be read.\<close>

lemma copied_Suc:
  assumes "d = s \<or> Suc n \<le> unat (d - s)"
  shows "copied m d s (Suc n) = copied (m(d := m s)) (d + 1) (s + 1) n"
proof
  fix a
  show "copied m d s (Suc n) a = copied (m(d := m s)) (d + 1) (s + 1) n a"
  proof (cases "a = d")
    case True
    have "unat (d - (d + 1)) = 2 ^ 32 - 1"
      by (simp add: unsigned_minus_1_eq_mask mask_eq_exp_minus_1 flip: diff_diff_eq)
    moreover have "n < 2 ^ 32 - 1 \<or> d = s"
      using assms unsigned_less [of "d - s", where 'a = nat] by auto
    ultimately show ?thesis using True by (auto simp: copied_def)
  next
    case False
    then have x: "unat (a - (d + 1)) = unat (a - d) - 1" "unat (a - d) \<noteq> 0"
      using unat_pred [of "a - d"] by (simp_all add: diff_diff_eq unat_eq_0)
    have "unat (a - d) < Suc n \<Longrightarrow> s + (a - d) \<noteq> d"
    proof
      assume "unat (a - d) < Suc n" "s + (a - d) = d"
      moreover from this have "a - d = d - s" by (metis add_diff_cancel_left')
      ultimately show False using assms False by auto
    qed
    then show ?thesis using False x by (auto simp: copied_def algebra_simps)
  qed
qed

lemma fill_add: "fill m s v (k + n) = fill (fill m s v k) (s + of_nat k) v n"
proof (induction k arbitrary: m s)
  case (Suc k)
  show ?case
    using Suc.IH [of "m(s := v)" "s + 1"]
    by (simp add: fill_Suc add.assoc del: fun_upd_apply)
qed simp

lemma copied_add:
  assumes "d = s \<or> k + n \<le> unat (d - s)"
  shows "copied m d s (k + n) = copied (copied m d s k) (d + of_nat k) (s + of_nat k) n"
  using assms
proof (induction k arbitrary: m d s)
  case (Suc k)
  then have h: "d = s \<or> Suc (k + n) \<le> unat (d - s)" "d = s \<or> Suc k \<le> unat (d - s)"
    by auto
  show ?case
    using Suc.IH [of "d + 1" "s + 1" "m(d := m s)"] h
    by (simp add: copied_Suc add.assoc del: fun_upd_apply) (metis Suc_leD)
qed simp

section \<open>Correctness\<close>

lemma unat_drop_and: "4 * unat (drop_bit 2 (n :: u32)) + unat (n AND 3) = unat n"
proof -
  have "n AND 3 = take_bit 2 n"
    by (simp add: take_bit_eq_mask mask_eq_exp_minus_1)
  then have "unat (n AND 3) = unat n mod 4"
    by (simp add: take_bit_eq_mod unat_mod)
  moreover have "unat (drop_bit 2 n) = unat n div 4"
    by (simp add: drop_bit_eq_div unat_div)
  ultimately show ?thesis by simp
qed

lemma of_nat_drop: "word_of_nat (4 * unat n) = (4 * n :: u32)"
  by simp

lemma put32_fill:
  assumes "eax = push_bit 24 (ucast v) OR push_bit 16 (ucast v) OR push_bit 8 (ucast v) OR ucast v"
  shows "put32 m a eax = fill m a v 4" and "(ucast eax :: u8) = v"
proof -
  have b: "(ucast eax :: u8) = v" "(ucast (drop_bit 8 eax) :: u8) = v"
    "(ucast (drop_bit 16 eax) :: u8) = v" "(ucast (drop_bit 24 eax) :: u8) = v"
    unfolding assms
    by (rule bit_eqI; auto simp: bit_simps dest: bit_imp_le_length)+
  then show "put32 m a eax = fill m a v 4"
    by (simp add: put32_def fill_Suc numeral_eq_Suc add.assoc)
  show "(ucast eax :: u8) = v" by (rule b)
qed

lemma rep_stosl_fill:
  assumes "eax = push_bit 24 (ucast v) OR push_bit 16 (ucast v) OR push_bit 8 (ucast v) OR ucast v"
  shows "rep_stosl m edi ecx eax = (fill m edi v (4 * unat ecx), edi + 4 * ecx)"
  using assms
proof (induction m edi ecx eax rule: rep_stosl.induct)
  case (1 m edi ecx eax)
  show ?case
  proof (cases "ecx = 0")
    case False
    then have "4 * unat ecx = 4 + 4 * unat (ecx - 1)"
      by (simp add: unat_Suc_pred)
    then have "fill m edi v (4 * unat ecx) = fill (fill m edi v 4) (edi + 4) v (4 * unat (ecx - 1))"
      by (simp add: fill_add)
    with 1 False show ?thesis
      by (subst rep_stosl.simps) (simp add: put32_fill(1) algebra_simps)
  qed (simp add: rep_stosl.simps)
qed

lemma memset_bottom_fill: "memset_bottom m edi edx al = fill m edi al (unat edx)"
proof (induction m edi edx al rule: memset_bottom.induct)
  case (1 m edi edx al)
  show ?case
  proof (cases "edx = 0")
    case False
    then have "unat edx = Suc (unat (edx - 1))" by (rule unat_Suc_pred)
    with 1 False show ?thesis
      by (subst memset_bottom.simps) (simp add: fill_Suc del: fun_upd_apply)
  qed (simp add: memset_bottom.simps)
qed

lemma memset_top_fill:
  assumes "eax = push_bit 24 (ucast v) OR push_bit 16 (ucast v) OR push_bit 8 (ucast v) OR ucast v"
  shows "memset_top m edi ecx eax = fill m edi v (unat ecx)"
  using assms
proof (induction m edi ecx eax rule: memset_top.induct)
  case (1 m edi ecx eax)
  show ?case
  proof (cases "ecx \<noteq> 0 \<and> edi AND 3 = 0")
    case True
    have "fill m edi v (unat ecx)
      = fill (fill m edi v (4 * unat (drop_bit 2 ecx))) (edi + 4 * drop_bit 2 ecx) v (unat (ecx AND 3))"
      unfolding unat_drop_and [of ecx, symmetric] fill_add of_nat_drop ..
    with True 1 show ?thesis
      by (subst memset_top.simps)
        (simp add: memset_aligned_def rep_stosl_fill memset_bottom_fill put32_fill(2))
  next
    case False
    have "ecx \<noteq> 0 \<Longrightarrow> unat ecx = Suc (unat (ecx - 1))" by (rule unat_Suc_pred)
    with 1 False show ?thesis
      by (subst memset_top.simps) (auto simp: fill_Suc put32_fill(2) simp del: fun_upd_apply)
  qed
qed

lemma memset_fill: "memset m s c n = fill m s (ucast c) (unat n)"
proof -
  have "c AND 0xFF = take_bit 8 c"
    by (simp add: take_bit_eq_mask mask_eq_exp_minus_1)
  also have "\<dots> = ucast (ucast c :: u8)"
    by (rule bit_eqI) (auto simp: bit_simps)
  finally show ?thesis
    by (simp add: memset_def memset_top_fill [where v = "ucast c"])
qed

lemma memset_dword_fill:
  "memset_dword m s (push_bit 24 (ucast v) OR push_bit 16 (ucast v) OR push_bit 8 (ucast v) OR ucast v) n
    = fill m s v (4 * unat n)"
  by (simp add: memset_dword_def rep_stosl_fill)

text \<open>Copying four bytes at once is copying them one after the other.\<close>

lemma put32_get32:
  "put32 m d (get32 m s) = m(d := m s, d + 1 := m (s + 1), d + 2 := m (s + 2), d + 3 := m (s + 3))"
proof -
  have "(ucast (get32 m s) :: u8) = m s" "(ucast (drop_bit 8 (get32 m s)) :: u8) = m (s + 1)"
    "(ucast (drop_bit 16 (get32 m s)) :: u8) = m (s + 2)"
    "(ucast (drop_bit 24 (get32 m s)) :: u8) = m (s + 3)"
    unfolding get32_def by (rule bit_eqI; auto simp: bit_simps dest: bit_imp_le_length)+
  then show ?thesis by (simp add: put32_def)
qed

lemma unat_less_4_iff: "unat (x :: u32) < 4 \<longleftrightarrow> x = 0 \<or> x = 1 \<or> x = 2 \<or> x = 3"
proof
  assume "unat x < 4"
  then have "unat x = 0 \<or> unat x = 1 \<or> unat x = 2 \<or> unat x = 3" by auto
  moreover have "x = word_of_nat (unat x)" by simp
  ultimately show "x = 0 \<or> x = 1 \<or> x = 2 \<or> x = 3" by (elim disjE) simp_all
qed auto

lemma copied_4: "put32 m d (get32 m s) = copied m d s 4"
proof
  fix a
  have "a = d + (a - d)" by simp
  then show "put32 m d (get32 m s) a = copied m d s 4 a"
    unfolding put32_get32 copied_def unat_less_4_iff
    by (auto simp: add.commute [of d] diff_eq_eq)
qed

lemma rep_movsl_copied:
  assumes "edi = esi \<or> 4 * unat ecx \<le> unat (edi - esi)"
  shows "rep_movsl m edi esi ecx = (copied m edi esi (4 * unat ecx), edi + 4 * ecx, esi + 4 * ecx)"
  using assms
proof (induction m edi esi ecx rule: rep_movsl.induct)
  case (1 m edi esi ecx)
  show ?case
  proof (cases "ecx = 0")
    case False
    then have n: "4 * unat ecx = 4 + 4 * unat (ecx - 1)"
      by (simp add: unat_Suc_pred)
    then have "copied m edi esi (4 * unat ecx)
      = copied (copied m edi esi 4) (edi + 4) (esi + 4) (4 * unat (ecx - 1))"
      using copied_add [of edi esi 4 "4 * unat (ecx - 1)" m] 1(2) by simp
    then show ?thesis
      using 1 False n by (subst rep_movsl.simps) (auto simp: copied_4 algebra_simps)
  qed (simp add: rep_movsl.simps)
qed

lemma memcpy_bottom_copied:
  assumes "edi = esi \<or> unat edx \<le> unat (edi - esi)"
  shows "memcpy_bottom m edi esi edx = copied m edi esi (unat edx)"
  using assms
proof (induction m edi esi edx rule: memcpy_bottom.induct)
  case (1 m edi esi edx)
  show ?case
  proof (cases "edx = 0")
    case False
    then have "unat edx = Suc (unat (edx - 1))" by (rule unat_Suc_pred)
    with 1 False show ?thesis
      by (subst memcpy_bottom.simps) (auto simp: copied_Suc simp del: fun_upd_apply)
  qed (simp add: memcpy_bottom.simps)
qed

lemma memcpy_top_copied:
  assumes "edi = esi \<or> unat ecx \<le> unat (edi - esi)"
  shows "memcpy_top m edi esi ecx = copied m edi esi (unat ecx)"
  using assms
proof (induction m edi esi ecx rule: memcpy_top.induct)
  case (1 m edi esi ecx)
  show ?case
  proof (cases "ecx \<noteq> 0 \<and> edi AND 3 = 0")
    case True
    let ?k = "4 * unat (drop_bit 2 ecx)" and ?r = "unat (ecx AND 3)"
    have split: "unat ecx = ?k + ?r" by (rule unat_drop_and [symmetric])
    have "copied m edi esi (unat ecx)
      = copied (copied m edi esi ?k) (edi + 4 * drop_bit 2 ecx) (esi + 4 * drop_bit 2 ecx) ?r"
      unfolding split using 1(2) split
      by (subst copied_add) (simp_all add: of_nat_drop)
    moreover have "edi = esi \<or> ?k \<le> unat (edi - esi)" "edi = esi \<or> ?r \<le> unat (edi - esi)"
      using 1(2) split by auto
    ultimately show ?thesis
      using True
      by (subst memcpy_top.simps)
        (simp add: memcpy_aligned_def rep_movsl_copied memcpy_bottom_copied)
  next
    case False
    have "ecx \<noteq> 0 \<Longrightarrow> unat ecx = Suc (unat (ecx - 1))" by (rule unat_Suc_pred)
    with 1 False show ?thesis
      by (subst memcpy_top.simps) (auto simp: copied_Suc simp del: fun_upd_apply)
  qed
qed

lemma memcpy_copied:
  "dest = src \<or> unat n \<le> unat (dest - src) \<Longrightarrow> memcpy m dest src n = copied m dest src (unat n)"
  by (simp add: memcpy_def memcpy_top_copied)

lemma rep_movsb_forward:
  assumes "edi = esi \<or> unat ecx \<le> unat (edi - esi)"
  shows "rep_movsb False m edi esi ecx = copied m edi esi (unat ecx)"
  using assms
proof (induction False m edi esi ecx rule: rep_movsb.induct)
  case (1 m edi esi ecx)
  show ?case
  proof (cases "ecx = 0")
    case False
    then have "unat ecx = Suc (unat (ecx - 1))" by (rule unat_Suc_pred)
    with 1 False show ?thesis
      by (subst rep_movsb.simps) (auto simp: copied_Suc Let_def simp del: fun_upd_apply)
  qed (simp add: rep_movsb.simps)
qed

text \<open>A downward copy of a block to a higher address.\<close>

lemma copied_backward:
  assumes "unat s < unat d" "unat d + Suc k \<le> 2 ^ 32"
  shows "copied m d s (Suc k) = copied (m(d + of_nat k := m (s + of_nat k))) d s k"
proof
  fix a
  have k: "unat (of_nat k :: u32) = k" using assms by (simp add: unat_of_nat_u32)
  show "copied m d s (Suc k) a = copied (m(d + of_nat k := m (s + of_nat k))) d s k a"
  proof (cases "a - d = of_nat k")
    case True
    then show ?thesis using k by (auto simp: copied_def diff_eq_eq add.commute)
  next
    case False
    then have "a \<noteq> d + of_nat k" by auto
    moreover from False have "unat (a - d) \<noteq> k" by auto
    moreover have "s + (a - d) \<noteq> d + of_nat k" if "unat (a - d) < k"
    proof -
      have "unat (s + (a - d)) = unat s + unat (a - d)" "unat (d + of_nat k) = unat d + k"
        using that assms k by (subst unat_add_lem [THEN iffD1]; simp)+
      then have "unat (s + (a - d)) < unat (d + of_nat k)" using that assms by linarith
      then show ?thesis by (metis less_irrefl)
    qed
    ultimately show ?thesis by (auto simp: copied_def less_Suc_eq)
  qed
qed

lemma rep_movsb_backward:
  assumes "unat s < unat d" "unat d + k \<le> 2 ^ 32"
  shows "rep_movsb True m (d + of_nat k - 1) (s + of_nat k - 1) (of_nat k) = copied m d s k"
  using assms(2)
proof (induction k arbitrary: m)
  case (Suc k)
  have "unat (of_nat (Suc k) :: u32) = Suc k"
    using Suc.prems assms(1) by (simp add: unat_of_nat_u32 del: of_nat_Suc)
  then have "(of_nat (Suc k) :: u32) \<noteq> 0" by (metis nat.distinct(1) unat_0)
  then show ?case
    using Suc.IH [of "m(d + of_nat k := m (s + of_nat k))"] Suc.prems
      copied_backward [OF assms(1) Suc.prems, of m]
    by (subst rep_movsb.simps) (simp add: Let_def del: fun_upd_apply)
qed (simp add: rep_movsb.simps)

lemma memmove_copied:
  assumes "unat dest + unat n \<le> 2 ^ 32" "unat src + unat n \<le> 2 ^ 32"
  shows "memmove m dest src n = (copied m dest src (unat n), src < dest)"
proof (cases "dest \<le> src")
  case True
  have "dest = src \<or> unat n \<le> unat (dest - src)"
    using True assms by (auto simp: unat_sub_if' word_le_nat_alt word_unat_eq_iff)
  then show ?thesis using True by (simp add: memmove_def rep_movsb_forward)
next
  case False
  then show ?thesis
    using rep_movsb_backward [of src dest "unat n" m] assms
    by (simp add: memmove_def word_less_nat_alt word_le_nat_alt)
qed

section \<open>Blocks as byte lists\<close>

definition load :: "mem \<Rightarrow> u32 \<Rightarrow> nat \<Rightarrow> u8 list" where
  "load m s n = map (\<lambda>i. m (s + of_nat i)) [0..<n]"

definition store :: "mem \<Rightarrow> u32 \<Rightarrow> u8 list \<Rightarrow> mem" where
  "store m s bs = (\<lambda>a. if unat (a - s) < length bs then bs ! unat (a - s) else m a)"

lemma length_load [simp]: "length (load m s n) = n"
  by (simp add: load_def)

lemma nth_load [simp]: "i < n \<Longrightarrow> load m s n ! i = m (s + of_nat i)"
  by (simp add: load_def)

lemma store_Nil [simp]: "store m s [] = m"
  by (simp add: store_def)

lemma store_at: "i < length bs \<Longrightarrow> length bs \<le> 2 ^ 32 \<Longrightarrow> store m s bs (s + of_nat i) = bs ! i"
  by (simp add: store_def unat_of_nat_u32)

lemma load_store: "length bs \<le> 2 ^ 32 \<Longrightarrow> load (store m s bs) s (length bs) = bs"
  by (rule nth_equalityI) (simp_all add: store_at)

lemma store_snoc:
  assumes "length bs < 2 ^ 32"
  shows "store m s (bs @ [b]) = (store m s bs)(s + of_nat (length bs) := b)"
proof
  fix a
  show "store m s (bs @ [b]) a = ((store m s bs)(s + of_nat (length bs) := b)) a"
  proof (cases "unat (a - s) = length bs")
    case True
    have "a - s = of_nat (length bs)" unfolding True [symmetric] by simp
    then have "a = s + of_nat (length bs)" by (simp add: diff_eq_eq add.commute)
    with True show ?thesis by (simp add: store_def)
  next
    case False
    then have "a \<noteq> s + of_nat (length bs)"
      using assms by (auto simp: unat_of_nat_u32)
    with False show ?thesis by (auto simp: store_def nth_append)
  qed
qed

lemma copied_eq_store: "copied m d s n = store m d (load m s n)"
  by (auto simp: copied_def store_def fun_eq_iff)

lemma fill_eq_store: "fill m s v n = store m s (replicate n v)"
  by (auto simp: fill_def store_def fun_eq_iff)

section \<open>Properties\<close>

text \<open>C25: The hand-written assembly of \<open>memset\<close> (byte prologue up to alignment, double-word
  body, byte epilogue) fills exactly the \<open>n\<close> bytes from \<open>s\<close> on with the low byte of \<open>c\<close>,
  for every address, length and alignment, wrap-around of the address included.\<close>

theorem memset_correct:
  "memset m s c n a = (if unat (a - s) < unat n then ucast c else m a)"
  by (simp add: memset_fill fill_def)

text \<open>C26: \<open>memcpy\<close> and \<open>memmove\<close> copy.  \<open>memcpy\<close> copies the \<open>n\<close> bytes at \<open>src\<close> to \<open>dest\<close>
  and changes nothing else whenever the destination does not start inside the source;
  \<open>memmove\<close> does so for every overlap of blocks inside the address space, and returns with
  the processor's direction flag set exactly when it copied backwards.\<close>

theorem memcpy_memmove_correct:
  assumes "unat dest + unat n \<le> 2 ^ 32" "unat src + unat n \<le> 2 ^ 32"
  shows "(dest = src \<or> unat n \<le> unat (dest - src) \<longrightarrow>
      memcpy m dest src n = store m dest (load m src (unat n)))
    \<and> memmove m dest src n = (store m dest (load m src (unat n)), src < dest)
    \<and> load (fst (memmove m dest src n)) dest (unat n) = load m src (unat n)"
  using assms memcpy_copied [of dest src n m] memmove_copied [OF assms, of m]
    load_store [of "load m src (unat n)" m dest] by (simp add: copied_eq_store)

theorem memcpy_memmove_correct_witness:
  "memmove (\<lambda>a. ucast a) 0x102 0x100 8
    = (store (\<lambda>a. ucast a) 0x102 (load (\<lambda>a. ucast a) 0x100 8), True)"
  using memcpy_memmove_correct [of "0x102" 8 "0x100" "\<lambda>a. ucast a"] by simp

end
