(* ===== verification/Lib_Str.thy ===== *)
theory Lib_Str
  imports Lib_Mem
begin

text \<open>
  The string functions of \<^verbatim>\<open>student-distrib/lib/lib.c\<close>: \<^verbatim>\<open>strlen\<close>, \<^verbatim>\<open>strrev\<close>,
  \<^verbatim>\<open>itoa\<close>, \<^verbatim>\<open>strncmp\<close>, \<^verbatim>\<open>strcpy\<close> and \<^verbatim>\<open>strncpy\<close>.  A string is a pointer into
  memory; a loop that only ends at a terminating zero byte returns \<^verbatim>\<open>None\<close> where there is
  none.  \<open>cstr m s bs\<close> says that the bytes \<open>bs\<close> followed by a zero byte are stored at
  \<open>s\<close>; on such strings the functions are shown to return and to do what their list
  counterparts do.
\<close>

section \<open>Operations\<close>

partial_function (option) strlen_loop :: "mem \<Rightarrow> u32 \<Rightarrow> u32 \<Rightarrow> u32 option" where
  "strlen_loop m s len = (if m (s + len) \<noteq> 0 then strlen_loop m s (len + 1) else Some len)"

definition strlen :: "mem \<Rightarrow> u32 \<Rightarrow> u32 option" where
  "strlen m s = strlen_loop m s 0"

text \<open>Swap \<^verbatim>\<open>s[beg]\<close> and \<^verbatim>\<open>s[end]\<close> and move both inwards.\<close>

function strrev_loop :: "mem \<Rightarrow> u32 \<Rightarrow> int \<Rightarrow> int \<Rightarrow> mem" where
  "strrev_loop m s beg end' =
     (if beg < end' then
        let tmp = m (s + of_int end');
            m' = m(s + of_int end' := m (s + of_int beg));
            m'' = m'(s + of_int beg := tmp)
        in strrev_loop m'' s (beg + 1) (end' - 1)
      else m)"
  by pat_completeness auto
termination
  by (relation "measure (\<lambda>(m, s, beg, end'). nat (end' - beg))") auto

declare strrev_loop.simps [simp del]

definition strrev :: "mem \<Rightarrow> u32 \<Rightarrow> mem option" where
  "strrev m s = map_option (\<lambda>len. strrev_loop m s 0 (sint (len - 1))) (strlen m s)"

text \<open>\<^verbatim>\<open>static int8_t lookup[] = "0123456789ABCDEFGHIJKLMNOPQRSTUVWXYZ"\<close>\<close>

definition lookup :: "u8 list" where
  "lookup = map of_char ''0123456789ABCDEFGHIJKLMNOPQRSTUVWXYZ'' @ [0]"

text \<open>
  The digit loop of \<^verbatim>\<open>itoa\<close>.  A zero radix divides by zero, a radix beyond the table reads
  outside it; both are \<^verbatim>\<open>None\<close>, as is the endless loop of radix 1.
\<close>

partial_function (option) itoa_loop :: "mem \<Rightarrow> u32 \<Rightarrow> u32 \<Rightarrow> u32 \<Rightarrow> (mem \<times> u32) option" where
  "itoa_loop m newbuf newval radix =
     (if newval > 0 then
        if radix = 0 \<or> length lookup \<le> unat (newval mod radix) then None
        else itoa_loop (m(newbuf := lookup ! unat (newval mod radix))) (newbuf + 1)
               (newval div radix) radix
      else Some (m, newbuf))"

definition itoa :: "mem \<Rightarrow> u32 \<Rightarrow> u32 \<Rightarrow> u32 \<Rightarrow> mem option" where
  "itoa m value buf radix =
     (if value = 0 then Some (m(buf := of_char CHR ''0'', buf + 1 := 0))
      else case itoa_loop m buf value radix of
             None \<Rightarrow> None
           | Some (m', newbuf) \<Rightarrow> strrev (m'(newbuf := 0)) buf)"

function strncmp_loop :: "mem \<Rightarrow> u32 \<Rightarrow> u32 \<Rightarrow> u32 \<Rightarrow> u32 \<Rightarrow> int" where
  "strncmp_loop m s1 s2 n i =
     (if i < n then
        if m (s1 + i) \<noteq> m (s2 + i) \<or> m (s1 + i) = 0 then sint (m (s1 + i)) - sint (m (s2 + i))
        else strncmp_loop m s1 s2 n (i + 1)
      else 0)"
  by pat_completeness auto
termination
  by (relation "measure (\<lambda>(m, s1, s2, n, i). unat n - unat i)")
    (auto intro: unat_counter)

declare strncmp_loop.simps [simp del]

definition strncmp :: "mem \<Rightarrow> u32 \<Rightarrow> u32 \<Rightarrow> u32 \<Rightarrow> int" where
  "strncmp m s1 s2 n = strncmp_loop m s1 s2 n 0"

partial_function (option) strcpy_loop :: "mem \<Rightarrow> u32 \<Rightarrow> u32 \<Rightarrow> u32 \<Rightarrow> mem option" where
  "strcpy_loop m dest src i =
     (if m (src + i) \<noteq> 0 then strcpy_loop (m(dest + i := m (src + i))) dest src (i + 1)
      else Some (m(dest + i := 0)))"

definition strcpy :: "mem \<Rightarrow> u32 \<Rightarrow> u32 \<Rightarrow> mem option" where
  "strcpy m dest src = strcpy_loop m dest src 0"

text \<open>The two loops of \<^verbatim>\<open>strncpy\<close>: copy, then pad with zero bytes.\<close>

function strncpy_copy :: "mem \<Rightarrow> u32 \<Rightarrow> u32 \<Rightarrow> u32 \<Rightarrow> u32 \<Rightarrow> mem \<times> u32" where
  "strncpy_copy m dest src n i =
     (if m (src + i) \<noteq> 0 \<and> i < n
      then strncpy_copy (m(dest + i := m (src + i))) dest src n (i + 1)
      else (m, i))"
  by pat_completeness auto
termination
  by (relation "measure (\<lambda>(m, dest, src, n, i). unat n - unat i)")
    (auto intro: unat_counter)

function strncpy_pad :: "mem \<Rightarrow> u32 \<Rightarrow> u32 \<Rightarrow> u32 \<Rightarrow> mem" where
  "strncpy_pad m dest n i =
     (if i < n then strncpy_pad (m(dest + i := 0)) dest n (i + 1) else m)"
  by pat_completeness auto
termination
  by (relation "measure (\<lambda>(m, dest, n, i). unat n - unat i)")
    (auto intro: unat_counter)

declare strncpy_copy.simps [simp del] strncpy_pad.simps [simp del]

definition strncpy :: "mem \<Rightarrow> u32 \<Rightarrow> u32 \<Rightarrow> u32 \<Rightarrow> mem" where
  "strncpy m dest src n = (let (m', i) = strncpy_copy m dest src n 0 in strncpy_pad m' dest n i)"

section \<open>Zero-terminated strings\<close>

definition cstr :: "mem \<Rightarrow> u32 \<Rightarrow> u8 list \<Rightarrow> bool" where
  "cstr m s bs \<longleftrightarrow> load m s (length bs) = bs \<and> m (s + of_nat (length bs)) = 0
     \<and> 0 \<notin> set bs \<and> length bs < 2 ^ 32"

lemma cstr_nth: "cstr m s bs \<Longrightarrow> i < length bs \<Longrightarrow> m (s + of_nat i) = bs ! i"
  unfolding cstr_def by (metis nth_load)

lemma cstr_nth_nonzero: "cstr m s bs \<Longrightarrow> i < length bs \<Longrightarrow> m (s + of_nat i) \<noteq> 0"
  by (metis cstr_def cstr_nth nth_mem)

lemma cstr_end: "cstr m s bs \<Longrightarrow> m (s + of_nat (length bs)) = 0"
  by (simp add: cstr_def)

lemma cstr_length: "cstr m s bs \<Longrightarrow> length bs < 2 ^ 32"
  by (simp add: cstr_def)

lemma cstr_unique:
  assumes "cstr m s xs" "cstr m s ys"
  shows "xs = ys"
proof -
  have "length xs = length ys"
    using cstr_end [OF assms(1)] cstr_end [OF assms(2)]
      cstr_nth_nonzero [OF assms(1), of "length ys"] cstr_nth_nonzero [OF assms(2), of "length xs"]
    by (cases "length xs" "length ys" rule: linorder_cases) auto
  then show ?thesis using cstr_nth [OF assms(1)] cstr_nth [OF assms(2)]
    by (auto intro!: nth_equalityI)
qed

lemma strlen_loop_cstr:
  assumes "cstr m s bs" "k \<le> length bs"
  shows "strlen_loop m s (of_nat k) = Some (of_nat (length bs))"
  using assms(2)
proof (induction rule: inc_induct)
  case base
  then show ?case using cstr_end [OF assms(1)] by (simp add: strlen_loop.simps)
next
  case (step k)
  then show ?case
    using cstr_nth_nonzero [OF assms(1), of k]
    by (subst strlen_loop.simps) (simp add: add.commute)
qed

lemma strlen_cstr: "cstr m s bs \<Longrightarrow> strlen m s = Some (of_nat (length bs))"
  using strlen_loop_cstr [of m s bs 0] by (simp add: strlen_def)

section \<open>Comparison\<close>

lemma sint_eq_iff: "sint a = sint b \<longleftrightarrow> a = (b :: u8)"
  by (auto intro: signed_word_eqI)

lemma take_eq_step:
  assumes "take i xs = take i ys" "i < length xs" "i < length ys" "xs ! i = ys ! i"
  shows "take (Suc i) xs = take (Suc i) ys"
  using assms by (simp add: take_Suc_conv_app_nth)

lemma strncmp_loop_zero_iff:
  assumes xs: "cstr m s1 xs" and ys: "cstr m s2 ys"
    and "i \<le> length xs" "i \<le> length ys" "take i xs = take i ys" "i \<le> unat n"
  shows "strncmp_loop m s1 s2 n (of_nat i) = 0 \<longleftrightarrow> take (unat n) xs = take (unat n) ys"
  using assms(3-)
proof (induction "unat n - i" arbitrary: i)
  case 0
  then have "i = unat n" by simp
  with 0 show ?case by (simp add: strncmp_loop.simps)
next
  case (Suc k)
  then have i: "i < unat n" by simp
  moreover have "unat n < 2 ^ 32" using unsigned_less [of n, where 'a = nat] by simp
  ultimately have lt: "(of_nat i :: u32) < n" by (simp add: word_less_nat_alt unat_of_nat_u32)
  have suc: "(of_nat i :: u32) + 1 = of_nat (Suc i)" by simp
  have takes: "take (unat n) zs = take i zs @ take (unat n - i) (drop i zs)" for zs :: "u8 list"
    using i by (metis add_diff_inverse_nat not_less_iff_gr_or_eq take_add)
  show ?case
  proof (cases "i < length xs \<and> i < length ys \<and> xs ! i = ys ! i")
    case True
    have "strncmp_loop m s1 s2 n (of_nat i) = strncmp_loop m s1 s2 n (of_nat (Suc i))"
      using True lt cstr_nth [OF xs, of i] cstr_nth [OF ys, of i] cstr_nth_nonzero [OF ys, of i]
      by (subst strncmp_loop.simps) (simp add: suc del: of_nat_Suc)
    moreover have "strncmp_loop m s1 s2 n (of_nat (Suc i)) = 0
      \<longleftrightarrow> take (unat n) xs = take (unat n) ys"
      by (rule Suc.hyps(1)) (use Suc True i take_eq_step [of i xs ys] in auto)
    ultimately show ?thesis by simp
  next
    case False
    have stop: "m (s1 + of_nat i) \<noteq> m (s2 + of_nat i) \<or> m (s1 + of_nat i) = 0"
      using False Suc.prems cstr_nth [OF xs, of i] cstr_nth [OF ys, of i] cstr_end [OF xs]
        cstr_end [OF ys] cstr_nth_nonzero [OF xs, of i] cstr_nth_nonzero [OF ys, of i]
      by (metis le_neq_implies_less)
    then have "strncmp_loop m s1 s2 n (of_nat i) = 0 \<longleftrightarrow> m (s1 + of_nat i) = m (s2 + of_nat i)"
      using lt by (subst strncmp_loop.simps) (simp add: sint_eq_iff)
    also have "\<dots> \<longleftrightarrow> i = length xs \<and> i = length ys"
      using False Suc.prems cstr_nth [OF xs, of i] cstr_nth [OF ys, of i] cstr_end [OF xs]
        cstr_end [OF ys] cstr_nth_nonzero [OF xs, of i] cstr_nth_nonzero [OF ys, of i]
      by (metis le_neq_implies_less)
    also have "\<dots> \<longleftrightarrow> take (unat n) xs = take (unat n) ys"
    proof
      assume "take (unat n) xs = take (unat n) ys"
      then have "min (length xs) (unat n) = min (length ys) (unat n)" by (metis length_take)
      moreover have "i < length xs \<Longrightarrow> i < length ys \<Longrightarrow> xs ! i = ys ! i"
        using \<open>take (unat n) xs = take (unat n) ys\<close> i by (metis nth_take)
      ultimately show "i = length xs \<and> i = length ys"
        using False Suc.prems i by (force simp: min_def split: if_splits)
    next
      assume "i = length xs \<and> i = length ys"
      then show "take (unat n) xs = take (unat n) ys" using Suc.prems by simp
    qed
    finally show ?thesis .
  qed
qed

lemma strncmp_zero_iff:
  "cstr m s1 xs \<Longrightarrow> cstr m s2 ys \<Longrightarrow>
    strncmp m s1 s2 n = 0 \<longleftrightarrow> take (unat n) xs = take (unat n) ys"
  using strncmp_loop_zero_iff [of m s1 xs s2 ys 0 n] by (simp add: strncmp_def)

section \<open>Copying strings\<close>

lemma copied_snoc:
  assumes "k < 2 ^ 32"
  shows "copied m d s (Suc k) = (copied m d s k)(d + of_nat k := m (s + of_nat k))"
proof -
  have "load m s (Suc k) = load m s k @ [m (s + of_nat k)]" by (simp add: load_def)
  then show ?thesis
    using assms by (simp add: copied_eq_store store_snoc del: fun_upd_apply)
qed

text \<open>A forward copy has not yet overwritten what it reads next.\<close>

lemma copied_source:
  assumes "d = s \<or> k < unat (d - s)" "k < 2 ^ 32"
  shows "copied m d s k (s + of_nat k) = m (s + of_nat k)"
proof -
  have "unat (s + of_nat k - d) < k \<Longrightarrow> d = s"
  proof (rule ccontr)
    let ?x = "s + of_nat k - d"
    assume x: "unat ?x < k" and "d \<noteq> s"
    have "d - s = of_nat k - ?x" by simp
    then have "unat (d - s) = unat (of_nat k - ?x)" by simp
    also have "\<dots> = k - unat ?x"
      using x assms(2) by (subst unat_sub) (simp_all add: word_le_nat_alt unat_of_nat_u32)
    finally show False using assms(1) \<open>d \<noteq> s\<close> by simp
  qed
  then show ?thesis by (auto simp: copied_def)
qed

lemma strcpy_loop_cstr:
  assumes bs: "cstr m src bs" and safe: "dest = src \<or> length bs < unat (dest - src)"
    and "k \<le> length bs"
  shows "strcpy_loop (copied m dest src k) dest src (of_nat k)
    = Some (copied m dest src (Suc (length bs)))"
  using assms(3)
proof (induction rule: inc_induct)
  case base
  show ?case
    using copied_source [OF safe, of m] copied_snoc [of "length bs" m dest src] cstr_end [OF bs]
      cstr_length [OF bs]
    by (simp add: strcpy_loop.simps del: fun_upd_apply)
next
  case (step k)
  have "copied m dest src k (src + of_nat k) = m (src + of_nat k)"
    using step safe cstr_length [OF bs] by (intro copied_source) auto
  then show ?case
    using step cstr_nth_nonzero [OF bs, of k] cstr_length [OF bs]
      copied_snoc [of k m dest src, symmetric]
    by (subst strcpy_loop.simps) (simp add: add.commute del: fun_upd_apply)
qed

lemma strcpy_cstr:
  assumes "cstr m src bs" "dest = src \<or> length bs < unat (dest - src)"
  shows "strcpy m dest src = Some (store m dest (bs @ [0]))"
proof -
  have "load m src (Suc (length bs)) = bs @ [0]"
    using assms(1) by (simp add: load_def cstr_def)
  then show ?thesis
    using strcpy_loop_cstr [OF assms, of 0]
    by (simp add: strcpy_def copied_eq_store [of _ _ _ "Suc _"])
qed

lemma cstr_store: "0 \<notin> set bs \<Longrightarrow> length bs < 2 ^ 32 \<Longrightarrow> cstr (store m s (bs @ [0])) s bs"
  by (auto simp: cstr_def store_at nth_append intro!: nth_equalityI)

section \<open>Reversal\<close>

text \<open>The bytes \<open>beg\<close> to \<open>end\<close> of the block at \<open>s\<close> mirrored.\<close>

definition mirrored :: "mem \<Rightarrow> u32 \<Rightarrow> int \<Rightarrow> int \<Rightarrow> mem" where
  "mirrored m s b e = (\<lambda>a. let x = uint (a - s) in
     if b \<le> x \<and> x \<le> e then m (s + of_int (b + e - x)) else m a)"

lemma strrev_loop_mirrored:
  assumes "0 \<le> b" "e < 2 ^ 32"
  shows "strrev_loop m s b e = mirrored m s b e"
  using assms
proof (induction m s b e rule: strrev_loop.induct)
  case (1 m s b e)
  show ?case
  proof (cases "b < e")
    case True
    let ?m = "m(s + of_int e := m (s + of_int b), s + of_int b := m (s + of_int e))"
    have "strrev_loop m s b e = mirrored ?m s (b + 1) (e - 1)"
      using 1 True by (subst strrev_loop.simps) (simp add: Let_def del: fun_upd_apply)
    also have "\<dots> = mirrored m s b e"
    proof
      fix a
      define x where "x = uint (a - s)"
      have a: "a = s + of_int x" and x: "0 \<le> x" "x < 2 ^ 32"
        using unsigned_less [of "a - s", where 'a = int] by (simp_all add: x_def)
      have ux: "uint (a - s) = x" by (simp add: x_def)
      have upd: "?m (s + of_int y) = (if y = b then m (s + of_int e)
          else if y = e then m (s + of_int b) else m (s + of_int y))"
        if "0 \<le> y" "y < 2 ^ 32" for y
        using that 1(2,3) True by (simp add: of_int_eq_u32)
      have "?m (s + of_int (b + e - x)) = m (s + of_int (b + e - x))" if "b < x" "x < e"
        using that True 1(2,3) x by (subst upd) auto
      then show "mirrored ?m s (b + 1) (e - 1) a = mirrored m s b e a"
        using True 1(2,3) x upd [of x] unfolding mirrored_def Let_def ux
        by (auto simp: a simp del: fun_upd_apply of_int_diff of_int_add)
    qed
    finally show ?thesis .
  next
    case False
    have "s + of_int (b + e - uint (a - s)) = a" if "b \<le> uint (a - s)" "uint (a - s) \<le> e" for a
    proof -
      have "b + e - uint (a - s) = uint (a - s)" using False that by linarith
      then show ?thesis by simp
    qed
    then have "mirrored m s b e = m"
      by (simp add: mirrored_def Let_def fun_eq_iff del: of_int_diff of_int_add)
    with False show ?thesis by (simp add: strrev_loop.simps)
  qed
qed

lemma strrev_cstr:
  assumes "cstr m s bs" "length bs < 2 ^ 31"
  shows "strrev m s = Some (store m s (rev bs))"
proof -
  let ?n = "int (length bs)"
  have len: "sint (of_nat (length bs) - 1 :: u32) = ?n - 1"
  proof -
    have "of_nat (length bs) - 1 = (of_int (?n - 1) :: u32)" by simp
    moreover have "sint (of_int (?n - 1) :: u32) = ?n - 1"
      using assms(2) by (subst signed_of_int, subst signed_take_bit_int_eq_self) auto
    ultimately show ?thesis by simp
  qed
  have "mirrored m s 0 (?n - 1) = store m s (rev bs)"
  proof
    fix a
    let ?x = "unat (a - s)"
    have ux: "uint (a - s) = int ?x" by simp
    have "m (s + of_int (0 + (?n - 1) - int ?x)) = rev bs ! ?x" if "?x < length bs"
    proof -
      have "0 + (?n - 1) - int ?x = int (length bs - Suc ?x)" using that by simp
      then have "m (s + of_int (0 + (?n - 1) - int ?x)) = m (s + of_nat (length bs - Suc ?x))"
        by (metis of_int_of_nat_eq)
      also have "\<dots> = rev bs ! ?x"
        using that cstr_nth [OF assms(1), of "length bs - Suc ?x"] by (simp add: rev_nth)
      finally show ?thesis .
    qed
    moreover have "0 \<le> int ?x \<and> int ?x \<le> ?n - 1 \<longleftrightarrow> ?x < length bs" by linarith
    ultimately show "mirrored m s 0 (?n - 1) a = store m s (rev bs) a"
      unfolding mirrored_def store_def Let_def ux by (simp only: length_rev split: if_split) simp
  qed
  then show ?thesis
    using assms by (simp add: strrev_def strlen_cstr len strrev_loop_mirrored)
qed

section \<open>Numbers\<close>

text \<open>The digits of a number, least significant first, and its printed form.\<close>

fun radix_lsb :: "nat \<Rightarrow> nat \<Rightarrow> nat list" where
  "radix_lsb r n = (if r < 2 \<or> n = 0 then [] else n mod r # radix_lsb r (n div r))"

declare radix_lsb.simps [simp del]

definition digits :: "nat \<Rightarrow> nat \<Rightarrow> nat list" where
  "digits r n = (if n = 0 then [0] else rev (radix_lsb r n))"

definition ascii_digits :: "nat \<Rightarrow> nat \<Rightarrow> u8 list" where
  "ascii_digits r n = map (\<lambda>d. lookup ! d) (digits r n)"

definition number_of_digits :: "nat \<Rightarrow> nat list \<Rightarrow> nat" where
  "number_of_digits r ds = foldl (\<lambda>v d. v * r + d) 0 ds"

lemma number_of_digits_lsb: "2 \<le> r \<Longrightarrow> number_of_digits r (rev (radix_lsb r n)) = n"
proof (induction r n rule: radix_lsb.induct)
  case (1 r n)
  then show ?case by (subst radix_lsb.simps) (auto simp: number_of_digits_def)
qed

lemma number_of_digits: "2 \<le> r \<Longrightarrow> number_of_digits r (digits r n) = n"
  by (simp add: digits_def number_of_digits_lsb) (simp add: number_of_digits_def)

lemma radix_lsb_less: "2 \<le> r \<Longrightarrow> d \<in> set (radix_lsb r n) \<Longrightarrow> d < r"
proof (induction r n rule: radix_lsb.induct)
  case (1 r n)
  then show ?case by (subst (asm) (2) radix_lsb.simps) (auto split: if_splits)
qed

lemma length_radix_lsb: "2 \<le> r \<Longrightarrow> n < 2 ^ k \<Longrightarrow> length (radix_lsb r n) \<le> k"
proof (induction k arbitrary: n)
  case (Suc k)
  have "n div r \<le> n div 2" using Suc.prems by (simp add: div_le_mono2)
  then have "n div r < 2 ^ k" using Suc.prems by (auto simp: less_mult_imp_div_less)
  with Suc show ?case by (subst radix_lsb.simps) auto
qed (simp add: radix_lsb.simps)

lemma length_radix_lsb_power: "2 \<le> r \<Longrightarrow> n < r ^ k \<Longrightarrow> length (radix_lsb r n) \<le> k"
proof (induction k arbitrary: n)
  case (Suc k)
  have "n div r < r ^ k" using Suc.prems by (auto simp: less_mult_imp_div_less mult.commute)
  with Suc show ?case by (subst radix_lsb.simps) auto
qed (simp add: radix_lsb.simps)

lemma lookup_nonzero: "d < 36 \<Longrightarrow> lookup ! d \<noteq> 0"
proof -
  have "\<forall>d \<in> set [0..<36]. lookup ! d \<noteq> 0" by code_simp
  then show "d < 36 \<Longrightarrow> lookup ! d \<noteq> 0" by simp
qed

lemma store_Cons:
  assumes "length bs < 2 ^ 32 - 1"
  shows "store m s (b # bs) = store (m(s := b)) (s + 1) bs"
proof
  fix a
  show "store m s (b # bs) a = store (m(s := b)) (s + 1) bs a"
  proof (cases "a = s")
    case True
    have "unat (s - (s + 1)) = 2 ^ 32 - 1"
      by (simp add: unsigned_minus_1_eq_mask mask_eq_exp_minus_1 flip: diff_diff_eq)
    with True assms show ?thesis by (simp add: store_def)
  next
    case False
    then have "unat (a - s) = Suc (unat (a - (s + 1)))"
      using unat_Suc_pred [of "a - s"] by (simp add: diff_diff_eq)
    with False show ?thesis by (simp add: store_def)
  qed
qed

lemma store_overwrite:
  "length xs = length ys \<Longrightarrow> store (store m s (ys @ zs)) s xs = store m s (xs @ zs)"
  by (auto simp: store_def fun_eq_iff nth_append)

lemma ascii_digits_nonzero:
  assumes "2 \<le> r" "r \<le> 36"
  shows "0 \<notin> set (ascii_digits r n)"
proof -
  have "d < 36" if "d \<in> set (digits r n)" for d
    using that radix_lsb_less [OF assms(1), of d n] assms by (cases "n = 0") (auto simp: digits_def)
  then have "lookup ! d \<noteq> 0" if "d \<in> set (digits r n)" for d
    using that by (intro lookup_nonzero)
  then show ?thesis by (force simp: ascii_digits_def)
qed

lemma length_ascii_digits:
  "2 \<le> r \<Longrightarrow> n < r ^ k \<Longrightarrow> 0 < k \<Longrightarrow> length (ascii_digits r n) \<le> k"
  using length_radix_lsb_power [of r n k] by (auto simp: ascii_digits_def digits_def)

lemma length_ascii_digits_u32: "2 \<le> r \<Longrightarrow> length (ascii_digits r (unat (v :: u32))) \<le> 32"
proof -
  assume r: "2 \<le> r"
  have "unat v < 2 ^ 32" using unsigned_less [of v, where 'a = nat] by simp
  also have "\<dots> \<le> r ^ 32" using r by (rule power_mono) simp
  finally show ?thesis using r by (intro length_ascii_digits) simp_all
qed

lemma itoa_loop_digits:
  assumes "2 \<le> unat r" "unat r \<le> 36"
  shows "itoa_loop m buf v r
    = Some (store m buf (map (\<lambda>d. lookup ! d) (radix_lsb (unat r) (unat v))),
        buf + of_nat (length (radix_lsb (unat r) (unat v))))"
proof (induction "unat v" arbitrary: m buf v rule: less_induct)
  case less
  show ?case
  proof (cases "v = 0")
    case False
    then have v: "0 < unat v" by (simp add: unat_gt_0)
    have "unat (v mod r) < 36" "length lookup = 37"
      using assms by (simp_all add: unat_mod lookup_def order_less_le_trans [OF mod_less_divisor])
    moreover have "unat (v div r) < unat v"
      using v assms by (simp add: unat_div)
    moreover have "length (radix_lsb (unat r) (unat (v div r))) < 2 ^ 32 - 1"
      using length_radix_lsb [of "unat r" "unat (v div r)" 32] assms
        unsigned_less [of "v div r", where 'a = nat] by simp
    moreover have "radix_lsb (unat r) (unat v)
      = unat (v mod r) # radix_lsb (unat r) (unat (v div r))"
      using v assms by (subst radix_lsb.simps) (simp add: unat_div unat_mod)
    moreover have "r \<noteq> 0" using assms by auto
    ultimately show ?thesis
      using False assms less [of "v div r"]
      by (subst itoa_loop.simps)
        (auto simp: store_Cons word_neq_0_conv algebra_simps simp del: fun_upd_apply)
  qed (simp add: itoa_loop.simps radix_lsb.simps)
qed

lemma itoa_digits:
  assumes "2 \<le> unat r" "unat r \<le> 36"
  shows "itoa m v buf r = Some (store m buf (ascii_digits (unat r) (unat v) @ [0]))"
proof (cases "v = 0")
  case True
  have "lookup ! 0 = of_char CHR ''0''" by (simp add: lookup_def)
  then have "store m buf (ascii_digits (unat r) 0 @ [0]) = m(buf := of_char CHR ''0'', buf + 1 := 0)"
    using store_snoc [of "[of_char CHR ''0'']" m buf 0] store_snoc [of "[]" m buf "of_char CHR ''0''"]
    by (simp add: ascii_digits_def digits_def del: fun_upd_apply)
  with True show ?thesis by (simp add: itoa_def)
next
  case False
  let ?ds = "map (\<lambda>d. lookup ! d) (radix_lsb (unat r) (unat v))"
  have len: "length ?ds \<le> 32"
    using length_radix_lsb [of "unat r" "unat v" 32] assms unsigned_less [of v, where 'a = nat] by simp
  have "0 \<notin> set ?ds"
    using radix_lsb_less [OF assms(1), of _ "unat v"] lookup_nonzero assms(2) by fastforce
  then have "cstr (store m buf (?ds @ [0])) buf ?ds"
    using len by (intro cstr_store) auto
  then have "strrev (store m buf (?ds @ [0])) buf = Some (store m buf (rev ?ds @ [0]))"
    using len by (simp add: strrev_cstr store_overwrite)
  moreover have "(store m buf ?ds)(buf + of_nat (length ?ds) := 0) = store m buf (?ds @ [0])"
    using len by (subst store_snoc) auto
  moreover have "ascii_digits (unat r) (unat v) = rev ?ds"
    using False by (simp add: ascii_digits_def digits_def unat_0_iff rev_map)
  ultimately show ?thesis
    using False by (simp add: itoa_def itoa_loop_digits [OF assms] del: fun_upd_apply)
qed

section \<open>Bounded copy\<close>

lemma strncpy_copy_cstr:
  assumes bs: "cstr m src bs" and safe: "dest = src \<or> unat n \<le> unat (dest - src)"
    and "k \<le> min (length bs) (unat n)"
  shows "strncpy_copy (copied m dest src k) dest src n (of_nat k)
    = (copied m dest src (min (length bs) (unat n)), of_nat (min (length bs) (unat n)))"
  using assms(3)
proof (induction rule: inc_induct)
  case base
  have n: "unat n < 2 ^ 32" using unsigned_less [of n, where 'a = nat] by simp
  show ?case
  proof (cases "length bs < unat n")
    case True
    then have "copied m dest src (length bs) (src + of_nat (length bs)) = 0"
      using safe cstr_length [OF bs] cstr_end [OF bs] by (subst copied_source) auto
    with True show ?thesis by (subst strncpy_copy.simps) (simp add: min_def)
  next
    case False
    then show ?thesis by (subst strncpy_copy.simps) (simp add: min_def)
  qed
next
  case (step k)
  have n: "unat n < 2 ^ 32" using unsigned_less [of n, where 'a = nat] by simp
  have "copied m dest src k (src + of_nat k) = m (src + of_nat k)"
    using step safe n by (intro copied_source) auto
  moreover have "(of_nat k :: u32) < n"
    using step n by (simp add: word_less_nat_alt unat_of_nat_u32)
  ultimately show ?case
    using step cstr_nth_nonzero [OF bs, of k] n copied_snoc [of k m dest src, symmetric]
    by (subst strncpy_copy.simps) (simp add: add.commute del: fun_upd_apply)
qed

lemma strncpy_pad_store:
  assumes "length xs \<le> unat n"
  shows "strncpy_pad (store m dest xs) dest n (of_nat (length xs))
    = store m dest (xs @ replicate (unat n - length xs) 0)"
  using assms
proof (induction "unat n - length xs" arbitrary: xs)
  case 0
  then have n: "length xs = unat n" by simp
  then have "(of_nat (length xs) :: u32) = n" by simp
  with n show ?case by (simp add: strncpy_pad.simps)
next
  case (Suc k)
  have n: "unat n < 2 ^ 32" using unsigned_less [of n, where 'a = nat] by simp
  have "(of_nat (length xs) :: u32) < n"
    using Suc n by (simp add: word_less_nat_alt unat_of_nat_u32)
  then have "strncpy_pad (store m dest xs) dest n (of_nat (length xs))
    = strncpy_pad (store m dest (xs @ [0])) dest n (of_nat (length (xs @ [0])))"
    using Suc n by (subst strncpy_pad.simps) (simp add: store_snoc add.commute del: fun_upd_apply)
  also have "\<dots> = store m dest ((xs @ [0]) @ replicate (unat n - length (xs @ [0])) 0)"
    by (rule Suc.hyps(1)) (use Suc in auto)
  also have "(xs @ [0]) @ replicate (unat n - length (xs @ [0])) 0 = xs @ replicate (unat n - length xs) 0"
  proof -
    have "unat n - length xs = Suc (unat n - Suc (length xs))" using Suc.hyps(2) by simp
    then show ?thesis by simp
  qed
  finally show ?case .
qed

lemma strncpy_cstr:
  assumes "cstr m src bs" "dest = src \<or> unat n \<le> unat (dest - src)"
  shows "strncpy m dest src n = store m dest (take (unat n) bs @ replicate (unat n - length bs) 0)"
proof -
  let ?k = "min (length bs) (unat n)"
  have "load m src ?k = take (unat n) bs"
    using cstr_nth [OF assms(1)] by (auto intro!: nth_equalityI)
  then show ?thesis
    using strncpy_copy_cstr [OF assms, of 0] strncpy_pad_store [of "load m src ?k" n m dest]
    by (simp add: strncpy_def copied_eq_store [of m dest src ?k] del: load_def)
      (simp add: min_def split: if_splits)
qed

section \<open>Properties\<close>



text \<open>The string functions agree with lists.  On a NUL-terminated string \<open>strlen\<close> returns
  its length, \<open>strrev\<close> reverses it in place, \<open>strcpy\<close> copies it with its terminator,
  \<open>strncpy\<close> copies at most \<open>n\<close> bytes and pads with NUL, and \<open>strncmp\<close> returns 0 exactly when
  the first \<open>n\<close> characters of two strings agree.\<close>

theorem string_functions_correct:
  assumes "cstr m src xs" "cstr m s2 ys" "length xs < 2 ^ 31"
    and "length xs < unat (dest - src)" "unat n \<le> unat (dest - src)"
  shows "strlen m src = Some (of_nat (length xs))
    \<and> strrev m src = Some (store m src (rev xs))
    \<and> strcpy m dest src = Some (store m dest (xs @ [0]))
    \<and> strncpy m dest src n = store m dest (take (unat n) xs @ replicate (unat n - length xs) 0)
    \<and> (strncmp m src s2 n = 0 \<longleftrightarrow> take (unat n) xs = take (unat n) ys)"
  using strlen_cstr [OF assms(1)] strrev_cstr [OF assms(1,3)] strcpy_cstr [OF assms(1)]
    strncpy_cstr [OF assms(1)] strncmp_zero_iff [OF assms(1,2)] assms(4,5) by simp

theorem string_functions_correct_witness:
  "strcpy (store (\<lambda>_. 0) 0x100 [0x61, 0x62, 0]) 0x200 0x100
    = Some (store (store (\<lambda>_. 0) 0x100 [0x61, 0x62, 0]) 0x200 [0x61, 0x62, 0])"
proof -
  have "cstr (store (\<lambda>_. 0) 0x100 ([0x61, 0x62] @ [0])) 0x100 [0x61, 0x62]"
    by (rule cstr_store) simp_all
  then show ?thesis
    using string_functions_correct [of _ "0x100" "[0x61, 0x62]" "0x100" "[0x61, 0x62]" "0x200" 4] by simp
qed

end
