(* ===== verification/Screen.thy ===== *)
theory Screen
  imports Prelude
begin

text \<open>
  What a text screen promises, independently of how its cells are stored: an abstract
  screen of 25 rows and 80 columns with a cursor, the effect of typing a character on it,
  and the locale \<open>text_screen\<close> of concrete screens that implement it.  The boot console
  (theory \<open>Console\<close>) and the virtual terminals (theory \<open>Termios\<close>) are its two
  interpretations.
\<close>

abbreviation NUM_COLS :: int where "NUM_COLS \<equiv> 80"
abbreviation NUM_ROWS :: int where "NUM_ROWS \<equiv> 25"
abbreviation ATTRIB :: u8 where "ATTRIB \<equiv> 0x7"
abbreviation NEWLINE :: u8 where "NEWLINE \<equiv> 0x0A"
abbreviation RETURN :: u8 where "RETURN \<equiv> 0x0D"
abbreviation SPACE :: u8 where "SPACE \<equiv> 0x20"

section \<open>The abstract screen\<close>

record ascreen =
  at_col :: int
  at_row :: int
  cells :: "int \<Rightarrow> int \<Rightarrow> u8"

definition on_screen :: "int \<Rightarrow> int \<Rightarrow> bool" where
  "on_screen r c \<longleftrightarrow> 0 \<le> r \<and> r < NUM_ROWS \<and> 0 \<le> c \<and> c < NUM_COLS"

text \<open>The grid a concrete cell function shows; positions off the screen are blank.\<close>

definition grid :: "(int \<Rightarrow> int \<Rightarrow> u8) \<Rightarrow> int \<Rightarrow> int \<Rightarrow> u8" where
  "grid f r c = (if on_screen r c then f r c else SPACE)"

definition scroll :: "(int \<Rightarrow> int \<Rightarrow> u8) \<Rightarrow> int \<Rightarrow> int \<Rightarrow> u8" where
  "scroll g r c = (if on_screen r c \<and> r < NUM_ROWS - 1 then g (r + 1) c else SPACE)"

definition newline :: "ascreen \<Rightarrow> ascreen" where
  "newline s = (if at_row s < NUM_ROWS - 1 then s\<lparr>at_col := 0, at_row := at_row s + 1\<rparr>
     else s\<lparr>at_col := 0, cells := scroll (cells s)\<rparr>)"

definition type_char :: "u8 \<Rightarrow> ascreen \<Rightarrow> ascreen" where
  "type_char c s =
     (let s' = s\<lparr>cells := (cells s)(at_row s := (cells s (at_row s))(at_col s := c))\<rparr>
      in if at_col s < NUM_COLS - 1 then s'\<lparr>at_col := at_col s + 1\<rparr> else newline s')"

definition show_char :: "u8 \<Rightarrow> ascreen \<Rightarrow> ascreen" where
  "show_char c s = (if c = NEWLINE then newline s else type_char c s)"

definition cursor_on_screen :: "ascreen \<Rightarrow> bool" where
  "cursor_on_screen s \<longleftrightarrow> on_screen (at_row s) (at_col s)"

lemma cursor_on_screen_show [simp]:
  "cursor_on_screen s \<Longrightarrow> cursor_on_screen (show_char c s)"
  by (auto simp: cursor_on_screen_def on_screen_def show_char_def newline_def type_char_def Let_def)

text \<open>A text that fits in the rest of the row appears there and nowhere else.\<close>

lemma type_line:
  assumes "at_col s + int (length bs) < NUM_COLS" "NEWLINE \<notin> set bs"
  shows "fold show_char bs s = s\<lparr>at_col := at_col s + int (length bs),
    cells := (\<lambda>r c. if r = at_row s \<and> at_col s \<le> c \<and> c < at_col s + int (length bs)
       then bs ! nat (c - at_col s) else cells s r c)\<rparr>"
  using assms
proof (induction bs arbitrary: s)
  case Nil
  have "(\<lambda>r c. if r = at_row s \<and> at_col s \<le> c \<and> c < at_col s + int (length [])
      then [] ! nat (c - at_col s) else cells s r c) = cells s"
    by (intro ext) auto
  then show ?case by simp
next
  case (Cons b bs)
  let ?s = "s\<lparr>cells := (cells s)(at_row s := (cells s (at_row s))(at_col s := b)), at_col := at_col s + 1\<rparr>"
  have "show_char b s = ?s"
    using Cons.prems by (simp add: show_char_def type_char_def)
  then have "fold show_char (b # bs) s = fold show_char bs ?s" by simp
  also have "\<dots> = ?s\<lparr>at_col := at_col ?s + int (length bs),
    cells := (\<lambda>r c. if r = at_row ?s \<and> at_col ?s \<le> c \<and> c < at_col ?s + int (length bs)
       then bs ! nat (c - at_col ?s) else cells ?s r c)\<rparr>"
    by (rule Cons.IH) (use Cons.prems in auto)
  also have "(\<lambda>r c. if r = at_row ?s \<and> at_col ?s \<le> c \<and> c < at_col ?s + int (length bs)
       then bs ! nat (c - at_col ?s) else cells ?s r c)
    = (\<lambda>r c. if r = at_row s \<and> at_col s \<le> c \<and> c < at_col s + int (length (b # bs))
       then (b # bs) ! nat (c - at_col s) else cells s r c)"
  proof (intro ext)
    fix r c
    have "nat (c - at_col s) = Suc (nat (c - (at_col s + 1)))" if "at_col s + 1 \<le> c"
      using that by simp
    then show "(if r = at_row ?s \<and> at_col ?s \<le> c \<and> c < at_col ?s + int (length bs)
         then bs ! nat (c - at_col ?s) else cells ?s r c)
      = (if r = at_row s \<and> at_col s \<le> c \<and> c < at_col s + int (length (b # bs))
         then (b # bs) ! nat (c - at_col s) else cells s r c)"
      by (cases "c = at_col s") auto
  qed
  finally show ?case by (simp add: algebra_simps)
qed

text \<open>A text that fits below the cursor without scrolling and without reaching the end of a
  row leaves the rows above alone.\<close>

fun fits :: "int \<Rightarrow> int \<Rightarrow> u8 list \<Rightarrow> bool" where
  "fits r c [] = True"
| "fits r c (b # bs) = (if b = NEWLINE then r < NUM_ROWS - 1 \<and> fits (r + 1) 0 bs
     else c < NUM_COLS - 1 \<and> fits r (c + 1) bs)"

lemma fits_rows:
  "fits (at_row s) (at_col s) bs \<Longrightarrow> k < at_row s \<Longrightarrow> cells (fold show_char bs s) k = cells s k"
proof (induction bs arbitrary: s)
  case (Cons b bs)
  show ?case
  proof (cases "b = NEWLINE")
    case True
    then show ?thesis using Cons.IH [of "newline s"] Cons.prems by (simp add: show_char_def newline_def)
  next
    case False
    then show ?thesis
      using Cons.IH [of "show_char b s"] Cons.prems by (simp add: show_char_def type_char_def Let_def)
  qed
qed simp

lemma fits_line [simp]: "NEWLINE \<notin> set xs \<Longrightarrow> c + int (length xs) < NUM_COLS \<Longrightarrow> fits r c (xs @ ys) = fits r (c + int (length xs)) ys"
proof (induction xs arbitrary: c)
  case (Cons x xs)
  then show ?case using Cons.IH [of "c + 1"] by (simp add: add.assoc)
qed simp

text \<open>Cells are stored row by row.\<close>

lemma row_major_eq_iff:
  assumes "0 \<le> c" "c < NUM_COLS" "0 \<le> c'" "c' < NUM_COLS"
  shows "NUM_COLS * r + c = NUM_COLS * r' + c' \<longleftrightarrow> r = r' \<and> c = c'"
proof
  assume eq: "NUM_COLS * r + c = NUM_COLS * r' + c'"
  have "(NUM_COLS * r + c) mod NUM_COLS = c" "(NUM_COLS * r' + c') mod NUM_COLS = c'"
    using assms by simp_all
  with eq show "r = r' \<and> c = c'" by simp
qed simp

section \<open>Implementations\<close>

locale text_screen =
  fixes put :: "u8 \<Rightarrow> 's \<Rightarrow> 's"
    and abs :: "'s \<Rightarrow> ascreen"
    and ok :: "'s \<Rightarrow> bool"
    and plain :: "u8 \<Rightarrow> bool"
  assumes ok_cursor: "ok s \<Longrightarrow> cursor_on_screen (abs s)"
    and put_ok: "ok s \<Longrightarrow> plain c \<Longrightarrow> ok (put c s)"
    and put_abs: "ok s \<Longrightarrow> plain c \<Longrightarrow> abs (put c s) = show_char c (abs s)"
begin

lemma puts_refines:
  assumes "ok s" "\<forall>b\<in>set bs. plain b"
  shows "ok (fold put bs s)" and "abs (fold put bs s) = fold show_char bs (abs s)"
  using assms by (induction bs arbitrary: s) (simp_all add: put_ok put_abs)

lemma puts_cursor:
  assumes "ok s" "\<forall>b\<in>set bs. plain b"
  shows "cursor_on_screen (fold show_char bs (abs s))"
  using puts_refines [OF assms] ok_cursor by metis

text \<open>The text of a line can be read back from the cells it was printed to.\<close>

lemma line_readback:
  assumes "ok s" "\<forall>b\<in>set bs. plain b" "NEWLINE \<notin> set bs"
    and "at_col (abs s) + int (length bs) < NUM_COLS"
  shows "map (\<lambda>i. cells (abs (fold put bs s)) (at_row (abs s)) (at_col (abs s) + int i)) [0..<length bs] = bs"
proof -
  have "cells (abs (fold put bs s)) (at_row (abs s)) (at_col (abs s) + int i) = bs ! i"
    if "i < length bs" for i
    using that by (simp add: puts_refines(2) [OF assms(1,2)] type_line [OF assms(4,3)])
  then show ?thesis by (intro nth_equalityI) simp_all
qed

end

end
