(* ===== verification/Console.thy ===== *)
theory Console
  imports Lib_Str Screen "HOL-Library.Signed_Division"
begin

text \<open>
  The boot console of \<^verbatim>\<open>student-distrib/lib/lib.c\<close>: \<open>clear\<close>, \<open>vertical_scroll\<close>,
  \<open>putc\<close>, \<open>update_cursor\<close>, \<open>puts\<close>, \<open>printf\<close> and \<open>test_interrupts\<close>.  The state is
  the pair of static cursor variables, the bytes of video memory from \<^verbatim>\<open>video_mem\<close> on (two
  per character cell) and the port log.  The lemmas show that output stays inside video
  memory, describe the effect of a character on the grid of cells, and reduce
  \<open>printf\<close> to the characters a pure rendering function produces.
\<close>

abbreviation (input) chr :: "char \<Rightarrow> u8" where "chr c \<equiv> of_char c"

record console =
  screen_x :: int
  screen_y :: int
  video_mem :: "u8 arr"
  ports :: io

section \<open>Operations\<close>

definition clear :: "console \<Rightarrow> console" where
  "clear = for_range 0 (NUM_ROWS * NUM_COLS) (\<lambda>i s.
     s\<lparr>video_mem := (video_mem s)(2 * i := SPACE, 2 * i + 1 := ATTRIB),
       screen_x := 0, screen_y := 0\<rparr>)"

definition vertical_scroll :: "console \<Rightarrow> console" where
  "vertical_scroll s =
     for_range (NUM_ROWS * NUM_COLS - NUM_COLS) (NUM_ROWS * NUM_COLS) (\<lambda>i s.
       s\<lparr>video_mem := (video_mem s)(2 * i := SPACE, 2 * i + 1 := ATTRIB)\<rparr>)
     (for_range 0 (NUM_ROWS * NUM_COLS - NUM_COLS) (\<lambda>i s.
       let v = video_mem s;
           v' = v(2 * i := v (2 * i + NUM_COLS * 2));
           v'' = v'(2 * i + 1 := v' (2 * i + 1 + NUM_COLS * 2))
       in s\<lparr>video_mem := v'', screen_x := 0, screen_y := NUM_ROWS - 1\<rparr>) s)"

definition update_cursor :: "int \<Rightarrow> int \<Rightarrow> console \<Rightarrow> console" where
  "update_cursor row col s =
     (let position = (of_int (row * 80 + col) :: u16)
      in s\<lparr>ports :=
           outb (ucast (drop_bit 8 position AND 0xFF)) 0x3D5
          (outb 0x0E 0x3D4
          (outb (ucast (position AND 0xFF)) 0x3D5
          (outb 0x0F 0x3D4 (ports s))))\<rparr>)"

definition putc :: "u8 \<Rightarrow> console \<Rightarrow> console" where
  "putc c s =
     (let s1 =
        (if c = NEWLINE \<or> c = RETURN then s\<lparr>screen_y := screen_y s + 1, screen_x := 0\<rparr>
         else
           let cell = 2 * (NUM_COLS * screen_y s + screen_x s);
               s = s\<lparr>video_mem := (video_mem s)(cell := c, cell + 1 := ATTRIB)\<rparr>;
               s = s\<lparr>screen_x := screen_x s + 1\<rparr>;
               s = (if screen_x s = NUM_COLS then s\<lparr>screen_y := screen_y s + 1\<rparr> else s);
               s = s\<lparr>screen_x := screen_x s smod NUM_COLS\<rparr>
           in if screen_y s \<noteq> NUM_ROWS
              then s\<lparr>screen_y := screen_y s + screen_x s sdiv NUM_COLS\<rparr>
              else vertical_scroll s);
          s2 = (if screen_y s1 = NUM_ROWS then vertical_scroll s1 else s1)
      in update_cursor (screen_y s2) (screen_x s2) s2)"

partial_function (option) puts_loop :: "mem \<Rightarrow> u32 \<Rightarrow> u32 \<Rightarrow> console \<Rightarrow> (u32 \<times> console) option" where
  "puts_loop m s index con =
     (if m (s + index) \<noteq> 0 then puts_loop m s (index + 1) (putc (m (s + index)) con)
      else Some (index, con))"

definition puts :: "mem \<Rightarrow> u32 \<Rightarrow> console \<Rightarrow> (u32 \<times> console) option" where
  "puts m s con = puts_loop m s 0 con"

text \<open>
  The inner switch of \<open>printf\<close>.  \<open>m\<close> is the memory the format string and the \<^verbatim>\<open>%s\<close>
  arguments live in, \<open>esp\<close> the stack words from the first variable argument on, \<open>k\<close> the
  number of arguments consumed, \<open>stack\<close> the uninitialised contents of the local
  \<^verbatim>\<open>conv_buf\<close>, which starts at address 0 of its own memory.  The result is the
  format pointer at the end of the switch, the argument count and the console.
\<close>

partial_function (option) format_char_switch ::
    "mem \<Rightarrow> (nat \<Rightarrow> u32) \<Rightarrow> mem \<Rightarrow> u32 \<Rightarrow> bool \<Rightarrow> nat \<Rightarrow> console \<Rightarrow> (u32 \<times> nat \<times> console) option" where
  "format_char_switch m esp stack buf alternate k con =
     (if m buf = chr CHR ''%'' then Some (buf, k, putc (chr CHR ''%'') con)
      else if m buf = chr CHR ''#'' then format_char_switch m esp stack (buf + 1) True k con
      else if m buf = chr CHR ''x'' then
        if \<not> alternate then
          (case itoa stack (esp k) 0 16 of None \<Rightarrow> None | Some conv_buf \<Rightarrow>
           (case puts conv_buf 0 con of None \<Rightarrow> None | Some (_, con') \<Rightarrow> Some (buf, k + 1, con')))
        else
          (case itoa stack (esp k) 8 16 of None \<Rightarrow> None | Some conv_buf \<Rightarrow>
           (case strlen conv_buf 8 of None \<Rightarrow> None | Some starting_index \<Rightarrow>
            let conv_buf' = for_range (sint starting_index) 8
                  (\<lambda>i b. b(of_int i := chr CHR ''0'')) conv_buf
            in (case puts conv_buf' starting_index con of None \<Rightarrow> None
                | Some (_, con') \<Rightarrow> Some (buf, k + 1, con'))))
      else if m buf = chr CHR ''u'' then
        (case itoa stack (esp k) 0 10 of None \<Rightarrow> None | Some conv_buf \<Rightarrow>
         (case puts conv_buf 0 con of None \<Rightarrow> None | Some (_, con') \<Rightarrow> Some (buf, k + 1, con')))
      else if m buf = chr CHR ''d'' then
        (case (if sint (esp k) < 0 then itoa (stack(0 := chr CHR ''-'')) (- esp k) 1 10
               else itoa stack (esp k) 0 10) of None \<Rightarrow> None | Some conv_buf \<Rightarrow>
         (case puts conv_buf 0 con of None \<Rightarrow> None | Some (_, con') \<Rightarrow> Some (buf, k + 1, con')))
      else if m buf = chr CHR ''c'' then Some (buf, k + 1, putc (ucast (esp k)) con)
      else if m buf = chr CHR ''s'' then
        (case puts m (esp k) con of None \<Rightarrow> None | Some (_, con') \<Rightarrow> Some (buf, k + 1, con'))
      else Some (buf, k, con))"

partial_function (option) printf_loop ::
    "mem \<Rightarrow> (nat \<Rightarrow> u32) \<Rightarrow> mem \<Rightarrow> u32 \<Rightarrow> nat \<Rightarrow> console \<Rightarrow> (u32 \<times> console) option" where
  "printf_loop m esp stack buf k con =
     (if m buf \<noteq> 0 then
        if m buf = chr CHR ''%'' then
          (case format_char_switch m esp stack (buf + 1) False k con of None \<Rightarrow> None
           | Some (buf', k', con') \<Rightarrow> printf_loop m esp stack (buf' + 1) k' con')
        else printf_loop m esp stack (buf + 1) k (putc (m buf) con)
      else Some (buf, con))"

definition printf :: "mem \<Rightarrow> (nat \<Rightarrow> u32) \<Rightarrow> mem \<Rightarrow> u32 \<Rightarrow> console \<Rightarrow> (u32 \<times> console) option" where
  "printf m esp stack format con =
     map_option (\<lambda>(buf, con'). (buf - format, con')) (printf_loop m esp stack format 0 con)"

text \<open>\<open>printf\<close> of a string literal without conversions (see \<open>printf_literal\<close>).\<close>

definition printf_lit :: "string \<Rightarrow> console \<Rightarrow> console" where
  "printf_lit s con = fold putc (map of_char s) con"

definition test_interrupts :: "console \<Rightarrow> console" where
  "test_interrupts = for_range 0 (NUM_ROWS * NUM_COLS) (\<lambda>i s.
     s\<lparr>video_mem := (video_mem s)(2 * i := video_mem s (2 * i) + 1)\<rparr>)"

section \<open>The grid of cells\<close>

lemma clear_video: "video_mem (clear s)
    = (\<lambda>k. if 0 \<le> k \<and> k < 4000 then if even k then SPACE else ATTRIB else video_mem s k)"
  unfolding clear_def
  by (subst for_range_hom [where g = video_mem and h = "\<lambda>i a. a(2 * i := SPACE, 2 * i + 1 := ATTRIB)"])
    (simp_all add: for_range_fill_pairs)

lemma clear_frame [simp]:
  "screen_x (clear s) = 0" "screen_y (clear s) = 0" "ports (clear s) = ports s"
  unfolding clear_def
  by (simp_all add: for_range_last_write for_range_frame [where g = ports])

lemma vertical_scroll_video: "video_mem (vertical_scroll s)
    = (\<lambda>k. if 0 \<le> k \<and> k < 3840 then video_mem s (k + 160)
           else if 3840 \<le> k \<and> k < 4000 then if even k then SPACE else ATTRIB
           else video_mem s k)"
proof -
  have "video_mem (vertical_scroll s) = for_range 1920 2000 (\<lambda>i a. a(2 * i := SPACE, 2 * i + 1 := ATTRIB))
    (for_range 0 1920 (\<lambda>i a. a(2 * i := a (2 * i + 2 * 80), 2 * i + 1 := a (2 * i + 1 + 2 * 80))) (video_mem s))"
    unfolding vertical_scroll_def
    by (subst for_range_hom [where g = video_mem and h = "\<lambda>i a. a(2 * i := SPACE, 2 * i + 1 := ATTRIB)"],
        simp, subst for_range_hom [where g = video_mem
          and h = "\<lambda>i a. a(2 * i := a (2 * i + 2 * 80), 2 * i + 1 := a (2 * i + 1 + 2 * 80))"])
      (simp_all add: Let_def)
  then show ?thesis
    by (simp only: for_range_move_pairs [OF zero_less_numeral] for_range_fill_pairs)
      (auto simp: fun_eq_iff)
qed

lemma vertical_scroll_cursor [simp]:
  "screen_x (vertical_scroll s) = 0" "screen_y (vertical_scroll s) = NUM_ROWS - 1"
  "ports (vertical_scroll s) = ports s"
  unfolding vertical_scroll_def
  by (simp_all add: for_range_frame [where g = screen_x] for_range_frame [where g = screen_y]
      for_range_frame [where g = ports] for_range_last_write Let_def)

definition cell_off :: "int \<Rightarrow> int \<Rightarrow> int" where
  "cell_off r c = 2 * (NUM_COLS * r + c)"

definition cell_char :: "console \<Rightarrow> int \<Rightarrow> int \<Rightarrow> u8" where
  "cell_char s r c = video_mem s (cell_off r c)"

definition console_screen :: "console \<Rightarrow> ascreen" where
  "console_screen s = \<lparr>at_col = screen_x s, at_row = screen_y s, cells = grid (cell_char s)\<rparr>"

definition console_ok :: "console \<Rightarrow> bool" where
  "console_ok s \<longleftrightarrow> on_screen (screen_y s) (screen_x s)"

text \<open>\<open>putc\<close> by cases: \<open>con_newline\<close> is the line feed with its scroll.\<close>

definition con_newline :: "console \<Rightarrow> console" where
  "con_newline s = (if screen_y s < NUM_ROWS - 1 then s\<lparr>screen_y := screen_y s + 1, screen_x := 0\<rparr>
     else vertical_scroll s)"

definition con_write :: "u8 \<Rightarrow> console \<Rightarrow> console" where
  "con_write c s = (let k = cell_off (screen_y s) (screen_x s)
     in s\<lparr>video_mem := (video_mem s)(k := c, k + 1 := ATTRIB)\<rparr>)"

lemma vertical_scroll_cong:
  "video_mem s = video_mem t \<Longrightarrow> ports s = ports t \<Longrightarrow> vertical_scroll s = vertical_scroll t"
  by (intro console.equality) (simp_all add: vertical_scroll_video fun_eq_iff)

lemma console_okD:
  "console_ok s \<Longrightarrow> 0 \<le> screen_x s \<and> screen_x s < 80 \<and> 0 \<le> screen_y s \<and> screen_y s < 25"
  by (simp add: console_ok_def on_screen_def)

lemma smod_sdiv_col:
  "0 \<le> x \<Longrightarrow> x smod NUM_COLS = x mod NUM_COLS" "0 \<le> x \<Longrightarrow> x sdiv NUM_COLS = x div NUM_COLS"
  by (cases "x = 0"; simp add: signed_modulo_int_def signed_divide_int_def)+

lemma xy_commute [simp]:
  "screen_y_update f (screen_x_update g s) = screen_x_update g (screen_y_update f s)"
  by simp

lemma con_write_xy [simp]:
  "screen_x (con_write c s) = screen_x s" "screen_y (con_write c s) = screen_y s"
  by (simp_all add: con_write_def Let_def)

lemma putc_cases:
  assumes "console_ok s"
  shows "putc c s = (let t = (if c = NEWLINE \<or> c = RETURN then con_newline s
      else if screen_x s < NUM_COLS - 1 then (con_write c s)\<lparr>screen_x := screen_x s + 1\<rparr>
      else con_newline (con_write c s))
    in update_cursor (screen_y t) (screen_x t) t)"
proof -
  note ok = console_okD [OF assms]
  consider "c = NEWLINE \<or> c = RETURN" "screen_y s < 24" | "c = NEWLINE \<or> c = RETURN" "screen_y s = 24"
    | "\<not> (c = NEWLINE \<or> c = RETURN)" "screen_x s < 79"
    | "\<not> (c = NEWLINE \<or> c = RETURN)" "screen_x s = 79" "screen_y s < 24"
    | "\<not> (c = NEWLINE \<or> c = RETURN)" "screen_x s = 79" "screen_y s = 24"
    using ok by linarith
  then show ?thesis
  proof cases
    case 2
    then have "putc c s = update_cursor 24 0 (vertical_scroll (s\<lparr>screen_y := 25, screen_x := 0\<rparr>))"
      by (simp add: putc_def)
    then show ?thesis
      using 2 vertical_scroll_cong [of "s\<lparr>screen_y := 25, screen_x := 0\<rparr>" s]
      by (simp add: con_newline_def)
  next
    case 5
    let ?s = "con_write c s"
    have "putc c s = update_cursor 24 0 (vertical_scroll (?s\<lparr>screen_y := 25, screen_x := 0\<rparr>))"
      using 5 by (simp add: putc_def con_write_def cell_off_def smod_sdiv_col)
    then show ?thesis
      using 5 vertical_scroll_cong [of "?s\<lparr>screen_y := 25, screen_x := 0\<rparr>" ?s]
      by (simp add: con_newline_def)
  qed (use ok in \<open>simp_all add: putc_def con_newline_def con_write_def cell_off_def Let_def smod_sdiv_col\<close>)
qed

lemma update_cursor_frame [simp]:
  "screen_x (update_cursor r c s) = screen_x s" "screen_y (update_cursor r c s) = screen_y s"
  "video_mem (update_cursor r c s) = video_mem s"
  by (simp_all add: update_cursor_def Let_def)

lemma cell_off_attrib: "cell_off r c \<noteq> cell_off r' c' + 1"
proof
  assume "cell_off r c = cell_off r' c' + 1"
  then have "even (cell_off r' c' + 1)" by (metis cell_off_def dvd_triv_left)
  then show False by (simp add: cell_off_def)
qed

lemma cell_off_eq_iff:
  "on_screen r c \<Longrightarrow> on_screen r' c' \<Longrightarrow> cell_off r c = cell_off r' c' \<longleftrightarrow> r = r' \<and> c = c'"
  using row_major_eq_iff [of c c' r r'] by (auto simp: on_screen_def cell_off_def)

lemma cell_off_bounds: "on_screen r c \<Longrightarrow> 0 \<le> cell_off r c \<and> cell_off r c + 1 < 4000"
  unfolding on_screen_def cell_off_def by simp

lemma con_newline_screen:
  assumes "console_ok s"
  shows "console_screen (con_newline s) = newline (console_screen s)" and "console_ok (con_newline s)"
proof -
  have "grid (cell_char (vertical_scroll s)) = scroll (grid (cell_char s))"
  proof (intro ext)
    fix r c
    show "grid (cell_char (vertical_scroll s)) r c = scroll (grid (cell_char s)) r c"
      by (simp add: grid_def scroll_def cell_char_def cell_off_def vertical_scroll_video on_screen_def)
        (auto simp: distrib_left add_ac)
  qed
  then show "console_screen (con_newline s) = newline (console_screen s)"
    using console_okD [OF assms]
    by (auto simp: console_screen_def con_newline_def newline_def cell_char_def [abs_def])
  show "console_ok (con_newline s)"
    using console_okD [OF assms] by (auto simp: con_newline_def console_ok_def on_screen_def)
qed

lemma con_write_grid:
  assumes "console_ok s"
  shows "grid (cell_char (con_write c s)) = (grid (cell_char s))
     (screen_y s := (grid (cell_char s) (screen_y s))(screen_x s := c))"
proof (intro ext)
  fix r k
  show "grid (cell_char (con_write c s)) r k = ((grid (cell_char s))
     (screen_y s := (grid (cell_char s) (screen_y s))(screen_x s := c))) r k"
  proof (cases "on_screen r k")
    case True
    then show ?thesis
      using assms cell_off_eq_iff [OF True, of "screen_y s" "screen_x s"]
      by (auto simp: grid_def cell_char_def con_write_def Let_def cell_off_attrib console_ok_def)
  next
    case False
    then show ?thesis
      using assms by (auto simp: grid_def console_ok_def)
  qed
qed

lemma con_write_ok: "console_ok s \<Longrightarrow> console_ok (con_write c s)"
  by (simp add: console_ok_def)

lemma con_write_screen:
  "console_ok s \<Longrightarrow> console_screen (con_write c s) = console_screen s
     \<lparr>cells := (grid (cell_char s)) (screen_y s := (grid (cell_char s) (screen_y s))(screen_x s := c))\<rparr>"
  unfolding console_screen_def con_write_grid by simp

interpretation con: text_screen putc console_screen console_ok "\<lambda>c. c \<noteq> RETURN"
proof
  fix s assume "console_ok s"
  then show "cursor_on_screen (console_screen s)"
    by (simp add: cursor_on_screen_def console_screen_def console_ok_def)
next
  fix s c assume ok: "console_ok s" and c: "c \<noteq> RETURN"
  note facts = putc_cases [OF ok] con_newline_screen [OF ok] con_write_screen [OF ok]
    con_newline_screen [OF con_write_ok [OF ok]]
  have screen: "console_screen (update_cursor r k t) = console_screen t" for r k t
    by (simp add: console_screen_def cell_char_def [abs_def])
  have advance: "console_screen (t\<lparr>screen_x := k\<rparr>) = console_screen t\<lparr>at_col := k\<rparr>" for t k
    by (simp add: console_screen_def cell_char_def [abs_def])
  have sel: "at_col (console_screen t) = screen_x t" "at_row (console_screen t) = screen_y t"
    "cells (console_screen t) = grid (cell_char t)" for t
    by (simp_all add: console_screen_def)
  show "console_screen (putc c s) = show_char c (console_screen s)"
    using c by (simp add: facts screen advance sel show_char_def type_char_def Let_def)
  show "console_ok (putc c s)"
    using console_okD [OF ok] con_newline_screen(2) [OF ok] con_newline_screen(2) [OF con_write_ok [OF ok]]
    by (simp add: putc_cases [OF ok] Let_def console_ok_def on_screen_def)
qed

lemma putc_in_bounds:
  assumes "console_ok s"
  shows "in_bounds 4000 (video_mem s) (video_mem (putc c s))"
proof -
  have scroll: "in_bounds 4000 v (video_mem (vertical_scroll t))" if "in_bounds 4000 v (video_mem t)" for v t
    using that by (auto simp: vertical_scroll_video in_bounds_def)
  have newline: "in_bounds 4000 v (video_mem (con_newline t))" if "in_bounds 4000 v (video_mem t)" for v t
    using that scroll by (simp add: con_newline_def)
  have "in_bounds 4000 (video_mem s) (video_mem (con_write c s))"
    using cell_off_bounds [of "screen_y s" "screen_x s"] assms
    by (auto simp: con_write_def Let_def console_ok_def intro!: in_bounds_upd)
  then show ?thesis
    using newline by (simp add: putc_cases [OF assms] Let_def)
qed

section \<open>Strings\<close>

lemma puts_loop_cstr:
  assumes bs: "cstr m s bs" and "k \<le> length bs"
  shows "puts_loop m s (of_nat k) con = Some (of_nat (length bs), fold putc (drop k bs) con)"
  using assms(2)
proof (induction "length bs - k" arbitrary: k con)
  case 0
  then show ?case
    using cstr_end [OF bs] by (subst puts_loop.simps) simp
next
  case (Suc d)
  then have k: "k < length bs" by simp
  have "puts_loop m s (of_nat (Suc k)) (putc (m (s + of_nat k)) con)
    = Some (of_nat (length bs), fold putc (drop (Suc k) bs) (putc (m (s + of_nat k)) con))"
    by (rule Suc.hyps) (use Suc.hyps(2) k in auto)
  then show ?case
    using k cstr_nth_nonzero [OF bs k] cstr_nth [OF bs k]
    by (subst puts_loop.simps) (simp add: Cons_nth_drop_Suc [symmetric] add.commute)
qed

lemma puts_cstr: "cstr m s bs \<Longrightarrow> puts m s con = Some (of_nat (length bs), fold putc bs con)"
  using puts_loop_cstr [of m s bs 0 con] by (simp add: puts_def)

section \<open>Formatted output\<close>

text \<open>
  The characters a format string stands for: \<open>S\<close> gives the strings behind the pointer
  arguments, \<open>esp\<close> the argument words.  A format that ends inside a conversion has no
  rendering.
\<close>

definition pad8 :: "u8 list \<Rightarrow> u8 list" where
  "pad8 ds = replicate (8 - length ds) (chr CHR ''0'') @ ds"

definition signed_digits :: "u32 \<Rightarrow> u8 list" where
  "signed_digits v = (if sint v < 0 then chr CHR ''-'' # ascii_digits 10 (nat (- sint v))
     else ascii_digits 10 (nat (sint v)))"

fun render :: "(u32 \<Rightarrow> u8 list option) \<Rightarrow> (nat \<Rightarrow> u32) \<Rightarrow> nat \<Rightarrow> u8 list \<Rightarrow> u8 list option"
  and render_conv :: "(u32 \<Rightarrow> u8 list option) \<Rightarrow> (nat \<Rightarrow> u32) \<Rightarrow> bool \<Rightarrow> nat \<Rightarrow> u8 list \<Rightarrow> u8 list option" where
  "render S esp k [] = Some []"
| "render S esp k (c # cs) =
     (if c = chr CHR ''%'' then render_conv S esp False k cs
      else map_option ((#) c) (render S esp k cs))"
| "render_conv S esp alt k [] = None"
| "render_conv S esp alt k (c # cs) =
     (if c = chr CHR ''%'' then map_option ((#) c) (render S esp k cs)
      else if c = chr CHR ''#'' then render_conv S esp True k cs
      else if c = chr CHR ''x'' then
        map_option ((@) (if alt then pad8 (ascii_digits 16 (unat (esp k))) else ascii_digits 16 (unat (esp k))))
          (render S esp (k + 1) cs)
      else if c = chr CHR ''u'' then
        map_option ((@) (ascii_digits 10 (unat (esp k)))) (render S esp (k + 1) cs)
      else if c = chr CHR ''d'' then
        map_option ((@) (signed_digits (esp k))) (render S esp (k + 1) cs)
      else if c = chr CHR ''c'' then map_option ((#) (ucast (esp k))) (render S esp (k + 1) cs)
      else if c = chr CHR ''s'' then
        (case S (esp k) of None \<Rightarrow> None | Some bs \<Rightarrow> map_option ((@) bs) (render S esp (k + 1) cs))
      else render S esp k cs)"

lemma cstr_Cons:
  assumes "cstr m s (b # bs)"
  shows "m s = b" "b \<noteq> 0" "cstr m (s + 1) bs"
  using assms cstr_nth [OF assms, of 0] cstr_nth [OF assms, of "Suc _"]
  by (auto simp: cstr_def add_ac intro!: nth_equalityI)

lemma digits_no_control:
  assumes "2 \<le> r" "r \<le> 36"
  shows "NEWLINE \<notin> set (ascii_digits r n)" "RETURN \<notin> set (ascii_digits r n)"
proof -
  have d: "d < 36" if "d \<in> set (digits r n)" for d
    using that radix_lsb_less [OF assms(1), of d n] assms by (cases "n = 0") (auto simp: digits_def)
  have "lookup ! d \<in> set (take 36 lookup)" if "d < 36" for d
  proof -
    have "length (take 36 lookup) = 36" by (simp add: lookup_def)
    then show ?thesis using that nth_mem [of d "take 36 lookup"] by simp
  qed
  moreover have "NEWLINE \<notin> set (take 36 lookup)" "RETURN \<notin> set (take 36 lookup)" by (simp_all add: lookup_def)
  ultimately have "lookup ! d \<noteq> NEWLINE \<and> lookup ! d \<noteq> RETURN" if "d < 36" for d
    using that by metis
  with d show "NEWLINE \<notin> set (ascii_digits r n)" "RETURN \<notin> set (ascii_digits r n)"
    by (force simp: ascii_digits_def)+
qed

lemma cstr_digits:
  assumes "2 \<le> r" "r \<le> 36"
  shows "cstr (store m s (ascii_digits r (unat (v :: u32)) @ [0])) s (ascii_digits r (unat v))"
  using assms ascii_digits_nonzero length_ascii_digits_u32 [of r v] by (intro cstr_store) auto

lemma unat_sint:
  "0 \<le> sint (v :: u32) \<Longrightarrow> unat v = nat (sint v)" "sint v < 0 \<Longrightarrow> unat (- v) = nat (- sint v)"
proof -
  have b: "- (2 ^ 31) \<le> sint v" "sint v < 2 ^ 31"
    using sint_greater_eq [of v] sint_less [of v] by simp_all
  show "0 \<le> sint v \<Longrightarrow> unat v = nat (sint v)"
    using uint_of_int_u32 [of "sint v"] b by (simp add: unat_eq_nat_uint)
  show "sint v < 0 \<Longrightarrow> unat (- v) = nat (- sint v)"
    using uint_of_int_u32 [of "- sint v"] b by (simp add: unat_eq_nat_uint)
qed

lemma padded_cstr:
  assumes "length ds \<le> 8" "0 \<notin> set ds"
  shows "cstr (for_range (int (length ds)) 8 (\<lambda>i b. b(of_int i := chr CHR ''0''))
     (store m 8 (ds @ [0]))) (of_nat (length ds)) (pad8 ds)"
proof -
  let ?b = "store m 8 (ds @ [0])"
  let ?f = "for_range (int (length ds)) 8 (\<lambda>i b. b(of_int i := chr CHR ''0'')) ?b"
  have fill: "for_range (int (length ds)) n (\<lambda>i b. b(of_int i := v)) b (of_nat k)
    = (if length ds \<le> k \<and> int k < n then v else b (of_nat k :: u32))"
    if "k \<le> 16" "int (length ds) \<le> n" "n \<le> 8" for k n b v
    using that(2,3)
  proof (induction n rule: int_ge_induct)
    case (step n)
    have "(of_nat k :: u32) = of_int n \<longleftrightarrow> int k = n"
      using of_int_eq_u32 [of "int k" n] that step by simp
    with step show ?case by (auto simp: for_range_last)
  qed auto
  have b: "?b (of_nat (8 + k)) = (ds @ [0]) ! k" if "k \<le> length ds" for k
    using store_at [of k "ds @ [0]" m 8] that assms by simp
  have len: "length (pad8 ds) = 8" using assms by (simp add: pad8_def)
  have "?f (of_nat (length ds + k)) = pad8 ds ! k" if "k < 8" for k
  proof (cases "k < 8 - length ds")
    case True
    then have "length ds + k < 8" by simp
    then show ?thesis
      using True fill [of "length ds + k" 8 "chr CHR ''0''" ?b] assms
      by (simp add: pad8_def nth_append del: of_nat_add)
  next
    case False
    then obtain j where j: "length ds + k = 8 + j" "j < length ds"
      using \<open>k < 8\<close> assms by (intro that [of "length ds + k - 8"]) auto
    then show ?thesis
      using fill [of "8 + j" 8 "chr CHR ''0''" ?b] b [of j] assms False
      by (simp add: pad8_def nth_append add.commute del: of_nat_add)
  qed
  moreover have "?f (of_nat (length ds + 8)) = 0"
    using assms fill [of "length ds + 8" 8 "chr CHR ''0''" ?b] b [of "length ds"]
    by (simp add: add.commute del: of_nat_add)
  moreover have "0 \<notin> set (pad8 ds)" using assms by (simp add: pad8_def)
  ultimately show ?thesis
    using len by (auto simp: cstr_def intro!: nth_equalityI)
qed

lemma print_digits:
  assumes "2 \<le> unat r" "unat r \<le> 36"
  shows "\<exists>b. itoa stack v 0 r = Some b
    \<and> puts b 0 con = Some (of_nat (length (ascii_digits (unat r) (unat v))), fold putc (ascii_digits (unat r) (unat v)) con)"
  using itoa_digits [OF assms, of stack v 0] puts_cstr [OF cstr_digits [OF assms]] by blast

lemma print_padded:
  "\<exists>b. itoa stack v 8 16 = Some b \<and> (\<exists>i. strlen b 8 = Some i
    \<and> (\<exists>n. puts (for_range (sint i) 8 (\<lambda>i b. b(of_int i := chr CHR ''0'')) b) i con
        = Some (n, fold putc (pad8 (ascii_digits 16 (unat v))) con)))"
proof -
  let ?ds = "ascii_digits 16 (unat v)"
  have "unat v < 16 ^ 8" using unsigned_less [of v, where 'a = nat] by simp
  then have len: "length ?ds \<le> 8" by (intro length_ascii_digits) simp_all
  have i: "sint (of_nat (length ?ds) :: u32) = int (length ?ds)"
    using len by (simp add: signed_of_nat signed_take_bit_int_eq_self)
  have "itoa stack v 8 16 = Some (store stack 8 (?ds @ [0]))"
    using itoa_digits [of 16 stack v 8] by simp
  moreover have "strlen (store stack 8 (?ds @ [0])) 8 = Some (of_nat (length ?ds))"
    using strlen_cstr [OF cstr_digits [of 16 stack 8 v]] by simp
  ultimately show ?thesis
    using puts_cstr [OF padded_cstr [OF len, of stack]] ascii_digits_nonzero [of 16 "unat v"]
    by (simp add: i)
qed

lemma print_signed:
  "\<exists>b. (if sint v < 0 then itoa (stack(0 := chr CHR ''-'')) (- v) 1 10 else itoa stack v 0 10) = Some b
    \<and> (\<exists>n. puts b 0 con = Some (n, fold putc (signed_digits v) con))"
proof (cases "sint v < 0")
  case True
  let ?ds = "ascii_digits 10 (unat (- v))"
  have len: "length ?ds \<le> 32" by (rule length_ascii_digits_u32) simp
  have "itoa (stack(0 := chr CHR ''-'')) (- v) 1 10 = Some (store (stack(0 := chr CHR ''-'')) 1 (?ds @ [0]))"
    using itoa_digits [of 10 "stack(0 := chr CHR ''-'')" "- v" 1] by simp
  also have "store (stack(0 := chr CHR ''-'')) 1 (?ds @ [0]) = store stack 0 (signed_digits v @ [0])"
    using store_Cons [of "?ds @ [0]" stack 0 "chr CHR ''-''"] len True unat_sint(2) [OF True]
    by (simp add: signed_digits_def)
  finally have itoa: "itoa (stack(0 := chr CHR ''-'')) (- v) 1 10 = Some (store stack 0 (signed_digits v @ [0]))" .
  have "cstr (store stack 0 (signed_digits v @ [0])) 0 (signed_digits v)"
    using len ascii_digits_nonzero [of 10 "unat (- v)"] True unat_sint(2) [OF True]
    by (intro cstr_store) (auto simp: signed_digits_def)
  then show ?thesis using itoa True puts_cstr by auto
next
  case False
  then show ?thesis
    using print_digits [of 10 stack v con] unat_sint(1) [of v] by (auto simp: signed_digits_def)
qed


definition strings_in :: "mem \<Rightarrow> (u32 \<Rightarrow> u8 list option) \<Rightarrow> bool" where
  "strings_in m S \<longleftrightarrow> (\<forall>p bs. S p = Some bs \<longrightarrow> cstr m p bs)"

lemma printf_render_aux:
  "strings_in m S \<Longrightarrow> cstr m buf bs \<Longrightarrow> render S esp k bs = Some out \<Longrightarrow>
      printf_loop m esp stack buf k con = Some (buf + of_nat (length bs), fold putc out con)"
  "strings_in m S \<Longrightarrow> cstr m buf bs \<Longrightarrow> render_conv S esp alt k bs = Some out \<Longrightarrow>
      \<exists>buf' k' con'. format_char_switch m esp stack buf alt k con = Some (buf', k', con')
        \<and> printf_loop m esp stack (buf' + 1) k' con' = Some (buf + of_nat (length bs), fold putc out con)"
proof (induction S esp k bs and S esp alt k bs arbitrary: con buf out and con buf out
    rule: render_render_conv.induct)
  case (1 S esp k)
  then show ?case using cstr_end [of m buf "[]"] by (subst printf_loop.simps) simp
next
  case (2 S esp k c cs)
  note str = cstr_Cons [OF "2.prems"(2)]
  show ?case
  proof (cases "c = chr CHR ''%''")
    case True
    have "render_conv S esp False k cs = Some out" using 2 True by simp
    from "2.IH"(1) [OF True "2.prems"(1) str(3) this, of con]
    show ?thesis using True str by (subst printf_loop.simps) (auto simp: add.assoc)
  next
    case False
    then obtain out' where out: "render S esp k cs = Some out'" "out = c # out'"
      using "2.prems" by auto
    show ?thesis
      using False str "2.IH"(2) [OF False "2.prems"(1) str(3) out(1)] out
      by (subst printf_loop.simps) (simp add: add_ac)
  qed
next
  case (4 S esp alt k c cs)
  note str = cstr_Cons [OF "4.prems"(2)]
  have m: "m buf = c" "strings_in m S" "cstr m (buf + 1) cs" using str "4.prems" by simp_all
  consider "c = chr CHR ''%''" | "c = chr CHR ''#''" | "c = chr CHR ''x''" "alt" | "c = chr CHR ''x''" "\<not> alt"
    | "c = chr CHR ''u''" | "c = chr CHR ''d''" | "c = chr CHR ''c''" | "c = chr CHR ''s''"
    | "c \<notin> chr ` set ''%#xudcs''"
    by fastforce
  then show ?case
  proof cases
    case 1
    then show ?thesis
      using m "4.prems"(3) "4.IH"(1) by (subst format_char_switch.simps) (auto simp: add.assoc)
  next
    case 2
    then show ?thesis
      using m "4.prems"(3) "4.IH"(2) [where buf = "buf + 1" and out = out and con = con]
      by (subst format_char_switch.simps) (simp add: add_ac)
  next
    case 3
    then show ?thesis
      using m "4.prems"(3) "4.IH"(3) print_padded [of stack "esp k" con]
      by (subst format_char_switch.simps) (auto simp: add.assoc)
  next
    case 4
    then show ?thesis
      using m "4.prems"(3) "4.IH"(3) print_digits [of 16 stack "esp k" con]
      by (subst format_char_switch.simps) (auto simp: add.assoc)
  next
    case 5
    then show ?thesis
      using m "4.prems"(3) "4.IH"(4) print_digits [of 10 stack "esp k" con]
      by (subst format_char_switch.simps) (auto simp: add.assoc)
  next
    case 6
    then show ?thesis
      using m "4.prems"(3) "4.IH"(5) print_signed [of "esp k" stack con]
      by (subst format_char_switch.simps) (auto simp: add.assoc)
  next
    case 7
    then show ?thesis
      using m "4.prems"(3) "4.IH"(6)
      by (subst format_char_switch.simps) (auto simp: add.assoc)
  next
    case 8
    then show ?thesis
      using m "4.prems"(3) "4.IH"(7) puts_cstr
      by (subst format_char_switch.simps) (fastforce simp: add.assoc strings_in_def split: option.splits)
  next
    case 9
    then show ?thesis
      using m "4.prems"(3) "4.IH"(8)
      by (subst format_char_switch.simps) (auto simp: add.assoc)
  qed
qed simp_all

lemma printf_render:
  assumes "strings_in m S" "cstr m format bs" "render S esp 0 bs = Some out"
  shows "printf m esp stack format con = Some (of_nat (length bs), fold putc out con)"
  using printf_render_aux(1) [OF assms, of stack con] by (simp add: printf_def)

lemma render_plain: "chr CHR ''%'' \<notin> set bs \<Longrightarrow> render S esp k bs = Some bs"
  by (induction bs) auto

lemma printf_literal:
  assumes "cstr m format (map of_char s)" "chr CHR ''%'' \<notin> set (map of_char s :: u8 list)"
  shows "printf m esp stack format con = Some (of_nat (length s), printf_lit s con)"
  using printf_render [of m "\<lambda>_. None" format "map of_char s"] assms render_plain
  by (simp add: strings_in_def printf_lit_def)

text \<open>A call of \<open>printf\<close> with a literal format and the argument words \<open>xs\<close>, where \<open>S\<close> gives the
  strings behind the pointers among them (see \<open>printf_format\<close>).\<close>

definition printf_args :: "(u32 \<Rightarrow> u8 list option) \<Rightarrow> string \<Rightarrow> u32 list \<Rightarrow> console \<Rightarrow> console" where
  "printf_args S format xs con =
     (case render S (\<lambda>k. if k < length xs then xs ! k else 0) 0 (map of_char format) of
        Some out \<Rightarrow> fold putc out con | None \<Rightarrow> con)"

abbreviation printf_fmt :: "string \<Rightarrow> u32 list \<Rightarrow> console \<Rightarrow> console" where
  "printf_fmt \<equiv> printf_args (\<lambda>_. None)"

lemma printf_format:
  assumes "strings_in m S" "cstr m format (map of_char f)"
    and "render S (\<lambda>k. if k < length xs then xs ! k else 0) 0 (map of_char f) = Some out"
  shows "printf m (\<lambda>k. if k < length xs then xs ! k else 0) stack format con
    = Some (of_nat (length f), printf_args S f xs con)"
  using printf_render [of m S format "map of_char f"] assms by (simp add: printf_args_def)

lemma fold_putc_in_bounds:
  assumes "console_ok s" "RETURN \<notin> set bs"
  shows "in_bounds 4000 (video_mem s) (video_mem (fold putc bs s))"
  using assms
proof (induction bs arbitrary: s)
  case (Cons b bs)
  have "in_bounds 4000 (video_mem (putc b s)) (video_mem (fold putc bs (putc b s)))"
    using Cons con.put_ok [of s b] by auto
  then show ?case
    using putc_in_bounds [OF Cons.prems(1), of b] in_bounds_trans by auto
qed simp

section \<open>Properties\<close>

text \<open>C29: The boot console implements the abstract text screen.  From a state whose cursor is
  on the screen, printing any characters other than a carriage return with \<open>putc\<close> has on
  the grid of cells exactly the effect of the abstract screen (wrap at column 80, scroll at
  row 25), keeps the cursor on the screen, and writes no byte outside the 4000 bytes of
  video memory.\<close>

theorem console_refines_screen:
  assumes "console_ok s" "RETURN \<notin> set bs"
  shows "console_screen (fold putc bs s) = fold show_char bs (console_screen s)
    \<and> console_ok (fold putc bs s)
    \<and> in_bounds 4000 (video_mem s) (video_mem (fold putc bs s))"
  using assms con.puts_refines [of s bs] fold_putc_in_bounds [of s bs] by auto

theorem console_refines_screen_witness:
  "console_screen (fold putc [0x41, NEWLINE] (clear \<lparr>screen_x = 7, screen_y = 3, video_mem = (\<lambda>_. 0), ports = []\<rparr>))
    = fold show_char [0x41, NEWLINE] (console_screen (clear \<lparr>screen_x = 7, screen_y = 3, video_mem = (\<lambda>_. 0), ports = []\<rparr>))"
  by (rule console_refines_screen [THEN conjunct1]) (simp_all add: console_ok_def on_screen_def)

text \<open>C28: \<open>printf\<close> prints what its format says.  For a format string whose rendering is
  defined (every \<open>%\<close> is followed by a conversion character, every \<open>%s\<close> argument is a
  NUL-terminated string) it terminates, prints exactly the rendered characters, and returns
  the length of the format string; \<open>%d\<close> is right for every 32-bit value, including the
  smallest.\<close>

theorem printf_prints_rendering:
  assumes "strings_in m S" "cstr m format bs" "render S esp 0 bs = Some out"
  shows "printf m esp stack format con = Some (of_nat (length bs), fold putc out con)"
  using assms by (rule printf_render)

theorem printf_prints_rendering_witness:
  "printf (store (\<lambda>_. 0) 0x1000 (map of_char ''%d%%'' @ [0])) (\<lambda>_. - 5) (\<lambda>_. 0) 0x1000
      \<lparr>screen_x = 0, screen_y = 0, video_mem = (\<lambda>_. 0), ports = []\<rparr>
    = Some (4, fold putc (map of_char ''-5%'') \<lparr>screen_x = 0, screen_y = 0, video_mem = (\<lambda>_. 0), ports = []\<rparr>)"
proof -
  have "cstr (store (\<lambda>_. 0) 0x1000 (map of_char ''%d%%'' @ [0])) 0x1000 (map of_char ''%d%%'')"
    by (rule cstr_store) simp_all
  moreover have "render (\<lambda>_. None) (\<lambda>_. - 5) 0 (map of_char ''%d%%'') = Some (map of_char ''-5%'')"
    by code_simp
  ultimately show ?thesis
    using printf_prints_rendering [where S = "\<lambda>_. None" and format = "0x1000"
        and bs = "map of_char ''%d%%''" and esp = "\<lambda>_. - 5"]
    by (simp add: strings_in_def)
qed

end
