(* ===== verification/Scheduling.thy ===== *)
theory Scheduling
  imports Tasks Console
begin

text \<open>
  The run queue of \<^verbatim>\<open>student-distrib/kernel/scheduling.c\<close>: the array \<^verbatim>\<open>sched\<close> of
  runnable flags, its three writers and the two searches that \<^verbatim>\<open>scheduler_tick\<close>
  performs before it switches context (the switch itself is in the theory \<open>Kernel\<close>).
  The lemmas show that the search returns the next runnable process in cyclic order and
  that it is fair.
\<close>

section \<open>Operations on the run queue\<close>

text \<open>The loop bound of the source is inclusive.\<close>

definition clear_sched :: "u8 arr \<Rightarrow> u8 arr" where
  "clear_sched sched = for_range 0 (MAX_PID + 1) (\<lambda>i a. a(i := 0)) sched"

definition scheduling_init :: "u8 arr \<Rightarrow> console \<Rightarrow> u8 arr \<times> console" where
  "scheduling_init sched con = (clear_sched sched, printf_lit (''Enabled Scheduling'' @ [CHR 0x0A]) con)"

definition schedule_task :: "int \<Rightarrow> u8 arr \<Rightarrow> u8 arr" where
  "schedule_task pid sched = sched(pid := 1)"

definition unschedule_task :: "int \<Rightarrow> u8 arr \<Rightarrow> u8 arr" where
  "unschedule_task pid sched = sched(pid := 0)"

text \<open>The first loop of \<^verbatim>\<open>scheduler_tick\<close>: is any process runnable?\<close>

function any_scheduled_loop :: "int \<Rightarrow> u8 arr \<Rightarrow> bool" where
  "any_scheduled_loop i sched =
     (if i < MAX_PID then
        if sched i = 1 then True else any_scheduled_loop (i + 1) sched
      else False)"
  by pat_completeness auto
termination
  by (relation "measure (\<lambda>(i, _). nat (MAX_PID - i))") auto

declare any_scheduled_loop.simps [simp del]

definition any_scheduled :: "u8 arr \<Rightarrow> bool" where
  "any_scheduled sched = any_scheduled_loop 0 sched"

text \<open>
  The second loop: start after the current process and look upward, modulo
  \<^verbatim>\<open>MAX_PID\<close>.  \<open>next_pid\<close> is uninitialised before the first iteration.
\<close>

partial_function (option) next_pid_loop :: "int \<Rightarrow> int \<Rightarrow> u8 arr \<Rightarrow> int \<Rightarrow> int option" where
  "next_pid_loop i pid sched next_pid =
     (if i \<noteq> pid then
        if sched i = 1 then Some i
        else next_pid_loop ((i + 1) mod MAX_PID) pid sched pid
      else Some next_pid)"

definition find_next_pid :: "int \<Rightarrow> u8 arr \<Rightarrow> int \<Rightarrow> int option" where
  "find_next_pid pid sched next_pid = next_pid_loop ((pid + 1) mod MAX_PID) pid sched next_pid"

section \<open>Reference definition and correctness of the search\<close>

definition runnable :: "u8 arr \<Rightarrow> int set" where
  "runnable sched = {i. 0 \<le> i \<and> i < MAX_PID \<and> sched i = 1}"

text \<open>The next runnable process in cyclic order after \<open>pid\<close>, \<open>pid\<close> itself last.\<close>

definition next_runnable :: "int \<Rightarrow> u8 arr \<Rightarrow> int" where
  "next_runnable pid sched =
     (case find (\<lambda>k. sched ((pid + k) mod MAX_PID) = 1) [1..MAX_PID - 1] of
        Some k \<Rightarrow> (pid + k) mod MAX_PID | None \<Rightarrow> pid)"

lemma any_scheduled_loop_iff:
  "any_scheduled_loop i sched \<longleftrightarrow> (\<exists>j. i \<le> j \<and> j < MAX_PID \<and> sched j = 1)"
proof (induction i sched rule: any_scheduled_loop.induct)
  case (1 i sched)
  show ?case
  proof (cases "i < MAX_PID \<and> sched i \<noteq> 1")
    case True
    then have "any_scheduled_loop i sched = any_scheduled_loop (i + 1) sched"
      by (subst any_scheduled_loop.simps) simp
    also have "\<dots> \<longleftrightarrow> (\<exists>j. i + 1 \<le> j \<and> j < MAX_PID \<and> sched j = 1)"
      using 1 True by simp
    also have "\<dots> \<longleftrightarrow> (\<exists>j. i \<le> j \<and> j < MAX_PID \<and> sched j = 1)"
      using True by (metis add1_zle_eq order_le_less zless_add1_eq)
    finally show ?thesis .
  next
    case False
    then show ?thesis by (subst any_scheduled_loop.simps) auto
  qed
qed

lemma any_scheduled_iff: "any_scheduled sched \<longleftrightarrow> runnable sched \<noteq> {}"
  by (auto simp: any_scheduled_def any_scheduled_loop_iff runnable_def)

text \<open>Positions are counted from the current process.\<close>

lemma cyc_neq: "0 \<le> pid \<Longrightarrow> pid < MAX_PID \<Longrightarrow> 0 < k \<Longrightarrow> k < MAX_PID \<Longrightarrow> (pid + k) mod MAX_PID \<noteq> (pid::int)"
  by presburger

lemma next_pid_loop_from:
  assumes "0 \<le> pid" "pid < MAX_PID" "1 \<le> k" "k \<le> MAX_PID"
    and "k = MAX_PID \<longrightarrow> n = pid"
  shows "next_pid_loop ((pid + k) mod MAX_PID) pid sched n
    = Some (case find (\<lambda>k. sched ((pid + k) mod MAX_PID) = 1) [k..MAX_PID - 1] of
              Some k \<Rightarrow> (pid + k) mod MAX_PID | None \<Rightarrow> pid)"
  using assms
proof (induction "nat (MAX_PID - k)" arbitrary: k n)
  case 0
  then have "k = MAX_PID" by simp
  with 0 show ?case by (simp add: next_pid_loop.simps)
next
  case (Suc m)
  then have k: "k < MAX_PID" by simp
  then have neq: "(pid + k) mod MAX_PID \<noteq> pid"
    using cyc_neq [of pid k] Suc.prems by simp
  have step: "((pid + k) mod MAX_PID + 1) mod MAX_PID = (pid + (k + 1)) mod MAX_PID"
    by presburger
  have IH: "next_pid_loop ((pid + (k + 1)) mod MAX_PID) pid sched pid
    = Some (case find (\<lambda>k. sched ((pid + k) mod MAX_PID) = 1) [k + 1..MAX_PID - 1] of
              Some k \<Rightarrow> (pid + k) mod MAX_PID | None \<Rightarrow> pid)"
    by (rule Suc.hyps) (use Suc.hyps(2) Suc.prems k in auto)
  show ?case
    using neq k by (subst next_pid_loop.simps) (simp add: step IH upto_rec1)
qed

lemma find_next_pid_eq:
  assumes "0 \<le> pid" "pid < MAX_PID"
  shows "find_next_pid pid sched junk = Some (next_runnable pid sched)"
  using next_pid_loop_from [OF assms, of 1 junk sched]
  by (simp add: find_next_pid_def next_runnable_def)

lemma next_runnable_cases [consumes 2, case_names found none]:
  assumes "0 \<le> pid" "pid < MAX_PID"
  obtains (found) k where "1 \<le> k" "k < MAX_PID" "next_runnable pid sched = (pid + k) mod MAX_PID"
      "sched ((pid + k) mod MAX_PID) = 1"
      "\<And>l. 1 \<le> l \<Longrightarrow> l < k \<Longrightarrow> sched ((pid + l) mod MAX_PID) \<noteq> 1"
  | (none) "next_runnable pid sched = pid"
      "\<And>l. 1 \<le> l \<Longrightarrow> l < MAX_PID \<Longrightarrow> sched ((pid + l) mod MAX_PID) \<noteq> 1"
proof (cases "find (\<lambda>k. sched ((pid + k) mod MAX_PID) = 1) [1..MAX_PID - 1]")
  case None
  then have "\<And>l. 1 \<le> l \<Longrightarrow> l < MAX_PID \<Longrightarrow> sched ((pid + l) mod MAX_PID) \<noteq> 1"
    by (auto simp: find_None_iff)
  with None show ?thesis
    by (intro none) (simp_all add: next_runnable_def)
next
  case (Some k)
  then obtain i where i: "i < length [1..MAX_PID - 1]" "k = [1..MAX_PID - 1] ! i"
    "sched ((pid + k) mod MAX_PID) = 1"
    "\<forall>j<i. sched ((pid + [1..MAX_PID - 1] ! j) mod MAX_PID) \<noteq> 1"
    by (auto simp: find_Some_iff)
  have k: "k = 1 + int i" "i < 15" using i by (simp_all add: nth_upto)
  show ?thesis
  proof (rule found [of k])
    fix l assume l: "1 \<le> l" "l < k"
    then have "nat (l - 1) < i" using k by simp
    then have "sched ((pid + [1..MAX_PID - 1] ! nat (l - 1)) mod MAX_PID) \<noteq> 1" using i by blast
    then show "sched ((pid + l) mod MAX_PID) \<noteq> 1" using l k by (simp add: nth_upto)
  qed (use Some i k in \<open>auto simp: next_runnable_def\<close>)
qed

lemma next_runnable_range:
  assumes "0 \<le> pid" "pid < MAX_PID"
  shows "0 \<le> next_runnable pid sched" "next_runnable pid sched < MAX_PID"
  using assms by (cases rule: next_runnable_cases [where sched = sched]; simp)+

lemma next_runnable_runnable:
  assumes "0 \<le> pid" "pid < MAX_PID" "runnable sched \<noteq> {}"
  shows "next_runnable pid sched \<in> runnable sched"
  using assms(1,2)
proof (cases rule: next_runnable_cases [where sched = sched])
  case (found k)
  then show ?thesis by (simp add: runnable_def)
next
  case none
  from assms(3) obtain j where j: "0 \<le> j" "j < MAX_PID" "sched j = 1"
    by (auto simp: runnable_def)
  have "j = pid"
  proof (rule ccontr)
    assume "j \<noteq> pid"
    then have "1 \<le> (j - pid) mod MAX_PID" "(j - pid) mod MAX_PID < MAX_PID"
      "(pid + (j - pid) mod MAX_PID) mod MAX_PID = j"
      using assms(1,2) j by presburger+
    with none(2) [of "(j - pid) mod MAX_PID"] j show False by simp
  qed
  with none j show ?thesis by (simp add: runnable_def)
qed

text \<open>Each search moves strictly closer to any runnable process that it does not reach.\<close>

lemma next_runnable_closer:
  assumes "0 \<le> pid" "pid < MAX_PID" "j \<in> runnable sched" "j \<noteq> pid"
    and "next_runnable pid sched \<noteq> j"
  shows "(j - next_runnable pid sched) mod MAX_PID < (j - pid) mod MAX_PID"
  using assms(1,2)
proof (cases rule: next_runnable_cases [where sched = sched])
  case (found k)
  have j: "0 \<le> j" "j < MAX_PID" "sched j = 1" using assms(3) by (auto simp: runnable_def)
  have "\<not> (j - pid) mod MAX_PID < k"
  proof
    assume "(j - pid) mod MAX_PID < k"
    moreover have "1 \<le> (j - pid) mod MAX_PID" "(pid + (j - pid) mod MAX_PID) mod MAX_PID = j"
      using assms j by presburger+
    ultimately show False using found(5) [of "(j - pid) mod MAX_PID"] j by simp
  qed
  moreover have "(j - (pid + k) mod MAX_PID) mod MAX_PID = ((j - pid) mod MAX_PID - k) mod MAX_PID"
    by (simp add: mod_simps algebra_simps)
  moreover have "(j - pid) mod MAX_PID < MAX_PID" by simp
  ultimately show ?thesis
    using found(1,3) by simp
next
  case none
  have j: "0 \<le> j" "j < MAX_PID" "sched j = 1" using assms(3) by (auto simp: runnable_def)
  have "1 \<le> (j - pid) mod MAX_PID" "(j - pid) mod MAX_PID < MAX_PID"
    "(pid + (j - pid) mod MAX_PID) mod MAX_PID = j"
    using assms j by presburger+
  with none(2) [of "(j - pid) mod MAX_PID"] j show ?thesis by simp
qed

lemma next_runnable_reaches:
  assumes "0 \<le> pid" "pid < MAX_PID" "j \<in> runnable sched" "j \<noteq> pid"
  shows "\<exists>n. 1 \<le> n \<and> int n \<le> (j - pid) mod MAX_PID
    \<and> ((\<lambda>p. next_runnable p sched) ^^ n) pid = j"
  using assms
proof (induction "nat ((j - pid) mod MAX_PID)" arbitrary: pid rule: less_induct)
  case less
  let ?p = "next_runnable pid sched"
  have j: "0 \<le> j" "j < MAX_PID" using less.prems by (auto simp: runnable_def)
  have pos: "1 \<le> (j - pid) mod MAX_PID" using less.prems j by presburger
  show ?case
  proof (cases "?p = j")
    case True
    then show ?thesis using pos by (intro exI [of _ 1]) simp
  next
    case False
    have closer: "(j - ?p) mod MAX_PID < (j - pid) mod MAX_PID"
      using next_runnable_closer less.prems False by blast
    have "\<exists>n. 1 \<le> n \<and> int n \<le> (j - ?p) mod MAX_PID
      \<and> ((\<lambda>p. next_runnable p sched) ^^ n) ?p = j"
      by (rule less.hyps)
        (use closer pos less.prems False next_runnable_range [of pid sched] in auto)
    then obtain n where "1 \<le> n" "int n \<le> (j - ?p) mod MAX_PID"
      "((\<lambda>p. next_runnable p sched) ^^ n) ?p = j"
      by blast
    then show ?thesis
      using closer by (intro exI [of _ "Suc n"]) (simp add: funpow_Suc_right del: funpow.simps)
  qed
qed

section \<open>Properties\<close>



text \<open>The run-queue operations keep the other entries, and \<open>scheduling_init\<close> makes no
  process runnable; but its loop bound is inclusive, so it also clears the byte behind the
  sixteen-entry array.\<close>

theorem scheduling_init_clears:
  "runnable (fst (scheduling_init sched con)) = {}
   \<and> fst (scheduling_init sched con) MAX_PID = 0
   \<and> (\<forall>i. i < 0 \<or> MAX_PID < i \<longrightarrow> fst (scheduling_init sched con) i = sched i)
   \<and> (0 \<le> pid \<and> pid < MAX_PID \<longrightarrow>
        runnable (schedule_task pid sched) = insert pid (runnable sched)
      \<and> runnable (unschedule_task pid sched) = runnable sched - {pid})"
  by (auto simp: runnable_def scheduling_init_def clear_sched_def schedule_task_def unschedule_task_def loop_simps)

theorem scheduling_init_clears_witness:
  "runnable (schedule_task 3 (clear_sched (\<lambda>_. 1))) = {3}"
  using scheduling_init_clears [of "\<lambda>_. 1" "\<lparr>screen_x = 0, screen_y = 0, video_mem = (\<lambda>_. 0), ports = []\<rparr>" 3]
    scheduling_init_clears [of "clear_sched (\<lambda>_. 1)" _ 3]
  by (simp add: scheduling_init_def)

end
