(* ===== verification/I8259.thy ===== *)
theory I8259
  imports Console
begin

text \<open>
  The interrupt controllers: \<^verbatim>\<open>student-distrib/drivers/i8259.c\<close>.  The driver talks to the two
  8259 chips through their ports only; its operations append to the port log.  The
  documented behaviour of a chip (initialisation sequence, mask register, read-back of
  the mask on the data port) is the specification \<open>pic_step\<close>, and \<open>pic_device\<close> says that
  the devices behind the ports follow it.
\<close>

abbreviation SLAVE_IRQ_NUM :: u32 where "SLAVE_IRQ_NUM \<equiv> 2"
abbreviation NR_IRQS :: int where "NR_IRQS \<equiv> 16"
abbreviation MASTER_8259_PORT :: u16 where "MASTER_8259_PORT \<equiv> 0x20"
abbreviation MASTER_MASK_8259_PORT :: u16 where "MASTER_MASK_8259_PORT \<equiv> 0x21"
abbreviation SLAVE_8259_PORT :: u16 where "SLAVE_8259_PORT \<equiv> 0xA0"
abbreviation SLAVE_MASK_8259_PORT :: u16 where "SLAVE_MASK_8259_PORT \<equiv> 0xA1"
abbreviation ICW1 :: u8 where "ICW1 \<equiv> 0x11"
abbreviation ICW2_MASTER :: u8 where "ICW2_MASTER \<equiv> 0x20"
abbreviation ICW2_SLAVE :: u8 where "ICW2_SLAVE \<equiv> 0x28"
abbreviation ICW3_MASTER :: u8 where "ICW3_MASTER \<equiv> 0x04"
abbreviation ICW3_SLAVE :: u8 where "ICW3_SLAVE \<equiv> 0x02"
abbreviation ICW4 :: u8 where "ICW4 \<equiv> 0x01"
abbreviation EOI :: u32 where "EOI \<equiv> 0x60"

section \<open>Operations\<close>

definition enable_irq :: "device \<Rightarrow> u32 \<Rightarrow> io \<Rightarrow> io" where
  "enable_irq dev irq_num log =
     (if irq_num < 8 then
        let (v, log) = inb dev MASTER_MASK_8259_PORT log
        in outb (ucast ((ucast v :: u32) AND NOT (push_bit (unat irq_num) 1))) MASTER_MASK_8259_PORT log
      else
        let (v, log) = inb dev SLAVE_MASK_8259_PORT log
        in outb (ucast ((ucast v :: u32) AND NOT (push_bit (unat (irq_num - 8)) 1))) SLAVE_MASK_8259_PORT log)"

definition disable_irq :: "device \<Rightarrow> u32 \<Rightarrow> io \<Rightarrow> io" where
  "disable_irq dev irq_num log =
     (if irq_num < 8 then
        let (v, log) = inb dev MASTER_MASK_8259_PORT log
        in outb (ucast ((ucast v :: u32) OR push_bit (unat irq_num) 1)) MASTER_MASK_8259_PORT log
      else
        let (v, log) = inb dev SLAVE_MASK_8259_PORT log
        in outb (ucast ((ucast v :: u32) OR push_bit (unat (irq_num - 8)) 1)) SLAVE_MASK_8259_PORT log)"

definition send_eoi :: "u32 \<Rightarrow> io \<Rightarrow> io" where
  "send_eoi irq_num log =
     (if 8 \<le> irq_num then
        let slave_eoi = ucast (EOI OR (irq_num - 8)); master_eoi = ucast (EOI OR 2)
        in outb master_eoi MASTER_8259_PORT (outb slave_eoi SLAVE_8259_PORT log)
      else outb (ucast (EOI OR irq_num)) MASTER_8259_PORT log)"

definition i8259_icw :: "io \<Rightarrow> io" where
  "i8259_icw log =
     outb ICW4 SLAVE_MASK_8259_PORT (outb ICW4 MASTER_MASK_8259_PORT
    (outb ICW3_SLAVE SLAVE_MASK_8259_PORT (outb ICW3_MASTER MASTER_MASK_8259_PORT
    (outb ICW2_SLAVE SLAVE_MASK_8259_PORT (outb ICW2_MASTER MASTER_MASK_8259_PORT
    (outb ICW1 SLAVE_8259_PORT (outb ICW1 MASTER_8259_PORT log)))))))"

definition on_ports :: "(io \<Rightarrow> io) \<Rightarrow> console \<Rightarrow> console" where
  "on_ports f con = con\<lparr>ports := f (ports con)\<rparr>"

definition i8259_init :: "device \<Rightarrow> console \<Rightarrow> console" where
  "i8259_init dev con =
     (let con = printf_lit (CHR 0x0A # ''Initializing the PIC...'') con;
          con = on_ports i8259_icw con;
          con = printf_lit (''the PIC initialized'' @ [CHR 0x0A]) con;
          con = on_ports (for_range 0 NR_IRQS (\<lambda>i. disable_irq dev (of_int i))) con
      in on_ports (enable_irq dev SLAVE_IRQ_NUM) con)"

section \<open>The chips\<close>

text \<open>
  One 8259 chip, seen from its command port \<open>cmd\<close> and data port \<open>dat\<close>.  An ICW1 (bit 4 set)
  on the command port clears the mask and starts an initialisation of three more words on
  the data port, the first of which is the vector base; otherwise a write to the data
  port replaces the mask.
\<close>

record pic =
  imr :: u8
  vector_base :: u8
  icws_left :: nat

definition pic_step :: "u16 \<Rightarrow> u16 \<Rightarrow> io_event \<Rightarrow> pic \<Rightarrow> pic" where
  "pic_step cmd dat e p = (case e of
     Out port d \<Rightarrow>
       if port = cmd \<and> bit d 4 then p\<lparr>imr := 0, icws_left := 3\<rparr>
       else if port = dat then
         if icws_left p = 3 then p\<lparr>vector_base := d, icws_left := 2\<rparr>
         else if 0 < icws_left p then p\<lparr>icws_left := icws_left p - 1\<rparr>
         else p\<lparr>imr := d\<rparr>
       else p
   | In port \<Rightarrow> p)"

definition pic_run :: "u16 \<Rightarrow> u16 \<Rightarrow> pic \<Rightarrow> io \<Rightarrow> pic" where
  "pic_run cmd dat p log = fold (pic_step cmd dat) log p"

abbreviation "master p0 \<equiv> pic_run MASTER_8259_PORT MASTER_MASK_8259_PORT p0"
abbreviation "slave p0 \<equiv> pic_run SLAVE_8259_PORT SLAVE_MASK_8259_PORT p0"

text \<open>Reading the data port of a chip returns its mask register; \<open>pm\<close> and \<open>ps\<close> are the
  states of the chips at power-on.\<close>

definition pic_device :: "pic \<Rightarrow> pic \<Rightarrow> device \<Rightarrow> bool" where
  "pic_device pm ps dev \<longleftrightarrow> (\<forall>log. dev log MASTER_MASK_8259_PORT = imr (master pm log)
     \<and> dev log SLAVE_MASK_8259_PORT = imr (slave ps log))"

text \<open>Interrupt line \<open>n\<close> of the pair of chips is masked.\<close>

definition masked :: "pic \<Rightarrow> pic \<Rightarrow> io \<Rightarrow> nat \<Rightarrow> bool" where
  "masked pm ps log n \<longleftrightarrow> (if n < 8 then bit (imr (master pm log)) n else bit (imr (slave ps log)) (n - 8))"

definition pic_ready :: "pic \<Rightarrow> pic \<Rightarrow> io \<Rightarrow> bool" where
  "pic_ready pm ps log \<longleftrightarrow> icws_left (master pm log) = 0 \<and> icws_left (slave ps log) = 0"

lemma pic_run_snoc [simp]:
  "pic_run cmd dat p (log @ [e]) = pic_step cmd dat e (pic_run cmd dat p log)"
  by (simp add: pic_run_def)


lemma pic_step_simps [simp]:
  "pic_step cmd dat (In port) p = p"
  "port \<noteq> cmd \<Longrightarrow> port \<noteq> dat \<Longrightarrow> pic_step cmd dat (Out port d) p = p"
  "cmd \<noteq> dat \<Longrightarrow> icws_left p = 0 \<Longrightarrow> pic_step cmd dat (Out dat d) p = p\<lparr>imr := d\<rparr>"
  by (simp_all add: pic_step_def)

text \<open>Console output does not touch the chips.\<close>

definition vga_event :: "io_event \<Rightarrow> bool" where
  "vga_event e \<longleftrightarrow> (\<exists>d. e = Out 0x3D4 d \<or> e = Out 0x3D5 d)"

lemma putc_ports: "\<exists>es. ports (putc c s) = ports s @ es \<and> (\<forall>e\<in>set es. vga_event e)"
  by (auto simp: putc_def update_cursor_def outb_def vga_event_def Let_def)

lemma fold_putc_ports: "\<exists>es. ports (fold putc bs s) = ports s @ es \<and> (\<forall>e\<in>set es. vga_event e)"
proof (induction bs arbitrary: s)
  case (Cons b bs)
  obtain es where "ports (putc b s) = ports s @ es" "\<forall>e\<in>set es. vga_event e"
    using putc_ports by blast
  moreover obtain fs where "ports (fold putc bs (putc b s)) = ports (putc b s) @ fs" "\<forall>e\<in>set fs. vga_event e"
    using Cons by blast
  ultimately show ?case by (auto intro!: exI [of _ "es @ fs"])
qed simp

text \<open>More generally, an event on a port of neither chip is of no concern to them.\<close>

definition off_pic :: "io_event \<Rightarrow> bool" where
  "off_pic e \<longleftrightarrow> (case e of Out port _ \<Rightarrow> port | In port \<Rightarrow> port)
     \<notin> {MASTER_8259_PORT, MASTER_MASK_8259_PORT, SLAVE_8259_PORT, SLAVE_MASK_8259_PORT}"

definition pics_kept :: "io \<Rightarrow> io \<Rightarrow> bool" where
  "pics_kept log log' \<longleftrightarrow> (\<exists>es. log' = log @ es \<and> (\<forall>e\<in>set es. off_pic e))"

lemma vga_off_pic: "vga_event e \<Longrightarrow> off_pic e"
  by (auto simp: vga_event_def off_pic_def)

lemma pics_kept_refl [simp]: "pics_kept log log"
  by (simp add: pics_kept_def)

lemma pics_kept_trans [trans]: "pics_kept a b \<Longrightarrow> pics_kept b c \<Longrightarrow> pics_kept a c"
  by (auto simp: pics_kept_def)

lemma pics_kept_outb: "off_pic (Out port d) \<Longrightarrow> pics_kept a log \<Longrightarrow> pics_kept a (outb d port log)"
  by (auto simp: pics_kept_def outb_def)

lemma pics_kept_inb: "off_pic (In port) \<Longrightarrow> pics_kept a log \<Longrightarrow> pics_kept a (snd (inb dev port log))"
  by (auto simp: pics_kept_def inb_def)

lemma pics_kept_putc: "pics_kept (ports con) (ports (fold putc bs con))"
  using fold_putc_ports [of bs con] vga_off_pic by (auto simp: pics_kept_def)

lemma pics_kept_run:
  assumes "pics_kept log log'"
  shows "master pm log' = master pm log" "slave ps log' = slave ps log"
proof -
  obtain es where "log' = log @ es" "\<forall>e\<in>set es. off_pic e" using assms by (auto simp: pics_kept_def)
  moreover have "fold (pic_step cmd dat) es p = p"
    if "\<forall>e\<in>set es. off_pic e" "(cmd, dat) \<in> {(MASTER_8259_PORT, MASTER_MASK_8259_PORT), (SLAVE_8259_PORT, SLAVE_MASK_8259_PORT)}"
    for cmd dat p
    using that by (induction es) (auto simp: off_pic_def pic_step_def split: io_event.splits)
  ultimately show "master pm log' = master pm log" "slave ps log' = slave ps log"
    by (simp_all add: pic_run_def)
qed

lemma pics_printf_lit [simp]:
  "master pm (ports (printf_lit s con)) = master pm (ports con)"
  "slave ps (ports (printf_lit s con)) = slave ps (ports con)"
  using pics_kept_run [OF pics_kept_putc [of con "map of_char s"]] by (simp_all add: printf_lit_def)

lemma bit_mask_u8:
  "k < 8 \<Longrightarrow> bit (ucast ((ucast v :: u32) AND NOT (push_bit n 1)) :: u8) k \<longleftrightarrow> bit v k \<and> k \<noteq> n"
  "k < 8 \<Longrightarrow> bit (ucast ((ucast v :: u32) OR push_bit n 1) :: u8) k \<longleftrightarrow> bit v k \<or> k = n"
  for v :: u8
  by (auto simp: bit_simps)

lemma irq_nat: "n < 16 \<Longrightarrow> (of_nat n :: u32) < 8 \<longleftrightarrow> n < 8" "n < 16 \<Longrightarrow> unat (of_nat n :: u32) = n"
  "8 \<le> n \<Longrightarrow> n < 16 \<Longrightarrow> unat (of_nat n - 8 :: u32) = n - 8"
proof -
  show 1: "n < 16 \<Longrightarrow> unat (of_nat n :: u32) = n" by (simp add: unat_of_nat_u32)
  then show "n < 16 \<Longrightarrow> (of_nat n :: u32) < 8 \<longleftrightarrow> n < 8" by (simp add: word_less_nat_alt)
  assume "8 \<le> n" "n < 16"
  then have "(of_nat n - 8 :: u32) = of_nat (n - 8)" by (simp add: of_nat_diff)
  then show "unat (of_nat n - 8 :: u32) = n - 8" using \<open>n < 16\<close> by (simp add: unat_of_nat_u32)
qed

lemma enable_irq_masked:
  assumes "pic_device pm ps dev" "pic_ready pm ps log" "n < 16"
  shows "pic_ready pm ps (enable_irq dev (of_nat n) log)"
    and "k < 16 \<Longrightarrow> masked pm ps (enable_irq dev (of_nat n) log) k \<longleftrightarrow> masked pm ps log k \<and> k \<noteq> n"
  using assms
  by (auto simp: pic_ready_def masked_def enable_irq_def inb_def outb_def Let_def irq_nat bit_mask_u8
      pic_device_def simp del: push_bit_of_1 simp flip: append_assoc)

lemma disable_irq_masked:
  assumes "pic_device pm ps dev" "pic_ready pm ps log" "n < 16"
  shows "pic_ready pm ps (disable_irq dev (of_nat n) log)"
    and "k < 16 \<Longrightarrow> masked pm ps (disable_irq dev (of_nat n) log) k \<longleftrightarrow> masked pm ps log k \<or> k = n"
  using assms
  by (auto simp: pic_ready_def masked_def disable_irq_def inb_def outb_def Let_def irq_nat bit_mask_u8
      pic_device_def simp del: push_bit_of_1 simp flip: append_assoc)


section \<open>Initialisation\<close>

lemma on_ports_ports [simp]: "ports (on_ports f con) = f (ports con)"
  by (simp add: on_ports_def)

lemma i8259_icw_ready:
  "pic_ready pm ps (i8259_icw log)" "vector_base (master pm (i8259_icw log)) = ICW2_MASTER"
  "vector_base (slave ps (i8259_icw log)) = ICW2_SLAVE"
  by (simp_all add: pic_ready_def i8259_icw_def outb_def pic_step_def bit_1_iff
      flip: append_assoc)

lemma enable_irq_vector_base:
  assumes "pic_ready pm ps log"
  shows "vector_base (master pm (enable_irq dev n log)) = vector_base (master pm log)"
    and "vector_base (slave ps (enable_irq dev n log)) = vector_base (slave ps log)"
    and "vector_base (master pm (disable_irq dev n log)) = vector_base (master pm log)"
    and "vector_base (slave ps (disable_irq dev n log)) = vector_base (slave ps log)"
  using assms by (simp_all add: enable_irq_def disable_irq_def inb_def outb_def Let_def pic_ready_def
      flip: append_assoc)

lemma disable_all:
  assumes "pic_device pm ps dev" "pic_ready pm ps log" "0 \<le> n" "n \<le> NR_IRQS"
  shows "let log' = for_range 0 n (\<lambda>i. disable_irq dev (of_int i)) log in pic_ready pm ps log'
    \<and> (\<forall>k. int k < n \<longrightarrow> masked pm ps log' k)
    \<and> vector_base (master pm log') = vector_base (master pm log)
    \<and> vector_base (slave ps log') = vector_base (slave ps log)"
  using assms(3,4)
proof (induction n rule: int_ge_induct)
  case (step n)
  have n: "(of_int n :: u32) = of_nat (nat n)" "nat n < 16"
    using step by simp_all
  let ?log = "for_range 0 n (\<lambda>i. disable_irq dev (of_int i)) log"
  have IH: "pic_ready pm ps ?log" "\<And>k. int k < n \<Longrightarrow> masked pm ps ?log k"
    "vector_base (master pm ?log) = vector_base (master pm log)"
    "vector_base (slave ps ?log) = vector_base (slave ps log)"
    using step by (simp_all add: Let_def)
  have "masked pm ps (disable_irq dev (of_nat (nat n)) ?log) k" if "int k < n + 1" for k
  proof -
    have "k < 16" "k = nat n \<or> int k < n" using that step by linarith+
    then show ?thesis
      using disable_irq_masked(2) [OF assms(1) IH(1) n(2), of k] IH(2) [of k] by blast
  qed
  moreover have "for_range 0 (n + 1) (\<lambda>i. disable_irq dev (of_int i)) log
      = disable_irq dev (of_nat (nat n)) ?log"
    using step.hyps n(1) by (simp add: for_range_last)
  ultimately show ?case
    unfolding Let_def using IH disable_irq_masked(1) [OF assms(1) IH(1) n(2)]
      enable_irq_vector_base(3,4) [OF IH(1)] by metis
qed (simp add: assms(2))

lemma i8259_init_masks:
  assumes "pic_device pm ps dev" "k < 16"
  shows "pic_ready pm ps (ports (i8259_init dev con))" "masked pm ps (ports (i8259_init dev con)) k \<longleftrightarrow> k \<noteq> 2"
    "vector_base (master pm (ports (i8259_init dev con))) = 0x20"
    "vector_base (slave ps (ports (i8259_init dev con))) = 0x28"
proof -
  let ?c1 = "on_ports i8259_icw (printf_lit (CHR 0x0A # ''Initializing the PIC...'') con)"
  let ?c2 = "printf_lit (''the PIC initialized'' @ [CHR 0x0A]) ?c1"
  let ?log = "for_range 0 NR_IRQS (\<lambda>i. disable_irq dev (of_int i)) (ports ?c2)"
  have init: "ports (i8259_init dev con) = enable_irq dev (of_nat 2) ?log"
    by (simp add: i8259_init_def)
  have ready: "pic_ready pm ps (ports ?c2)"
    using i8259_icw_ready(1) by (simp add: pic_ready_def)
  have all: "pic_ready pm ps ?log" "masked pm ps ?log k"
    "vector_base (master pm ?log) = 0x20" "vector_base (slave ps ?log) = 0x28"
    using disable_all [OF assms(1) ready, of NR_IRQS] assms(2)
    by (simp_all add: Let_def i8259_icw_ready)
  then show "pic_ready pm ps (ports (i8259_init dev con))" "masked pm ps (ports (i8259_init dev con)) k \<longleftrightarrow> k \<noteq> 2"
    "vector_base (master pm (ports (i8259_init dev con))) = 0x20"
    "vector_base (slave ps (ports (i8259_init dev con))) = 0x28"
    unfolding init using enable_irq_masked [OF assms(1) all(1), of 2] enable_irq_vector_base [OF all(1), of dev "of_nat 2"] assms(2)
    by simp_all
qed

section \<open>Properties\<close>

text \<open>C32: With chips that behave as documented, \<open>i8259_init\<close> maps the interrupt lines to the
  vectors 0x20 to 0x2F, leaves both chips initialised and masks every line except line 2,
  the cascade; afterwards \<open>enable_irq\<close> unmasks exactly its line and \<open>disable_irq\<close> masks
  exactly its line.\<close>

theorem pic_masks:
  assumes "pic_device pm ps dev" "n < 16" "k < 16"
  shows "(let log = ports (i8259_init dev con) in
      pic_ready pm ps log \<and> (masked pm ps log k \<longleftrightarrow> k \<noteq> 2)
    \<and> vector_base (master pm log) = 0x20 \<and> vector_base (slave ps log) = 0x28)
    \<and> (pic_ready pm ps log \<longrightarrow>
        pic_ready pm ps (enable_irq dev (of_nat n) log) \<and> pic_ready pm ps (disable_irq dev (of_nat n) log)
      \<and> (masked pm ps (enable_irq dev (of_nat n) log) k \<longleftrightarrow> masked pm ps log k \<and> k \<noteq> n)
      \<and> (masked pm ps (disable_irq dev (of_nat n) log) k \<longleftrightarrow> masked pm ps log k \<or> k = n))"
  using i8259_init_masks [OF assms(1,3)] enable_irq_masked [OF assms(1) _ assms(2), of log]
    disable_irq_masked [OF assms(1) _ assms(2), of log] assms(3)
  by (simp add: Let_def)

theorem pic_masks_witness:
  "let p = \<lparr>imr = 0, vector_base = 0, icws_left = 0\<rparr>;
       dev = (\<lambda>log port. if port = MASTER_MASK_8259_PORT then imr (master p log) else imr (slave p log));
       con = \<lparr>screen_x = 0, screen_y = 0, video_mem = (\<lambda>_. 0), ports = []\<rparr>;
       log = enable_irq dev 1 (ports (i8259_init dev con))
   in \<not> masked p p log 1"
proof -
  define p where "p = \<lparr>imr = 0, vector_base = 0, icws_left = 0\<rparr>"
  define dev where "dev = (\<lambda>log port. if port = MASTER_MASK_8259_PORT then imr (master p log) else imr (slave p log))"
  define con where "con = \<lparr>screen_x = 0, screen_y = 0, video_mem = (\<lambda>_. 0), ports = []\<rparr>"
  have "pic_device p p dev" by (simp add: pic_device_def dev_def)
  from pic_masks [OF this, of 1 1 con "ports (i8259_init dev con)"]
  have "\<not> masked p p (enable_irq dev 1 (ports (i8259_init dev con))) 1"
    unfolding Let_def by simp
  then show ?thesis unfolding Let_def con_def dev_def p_def .
qed

text \<open>\<open>send_eoi\<close> acknowledges an interrupt with a specific end-of-interrupt command: for a
  line of the slave it sends the command for the line to the slave and for the cascade line
  2 to the master, in this order; for a line of the master only the command to the master.\<close>

theorem send_eoi_specific:
  assumes "n < 16"
  shows "send_eoi (of_nat n) log = log @
    (if n < 8 then [Out MASTER_8259_PORT (0x60 + of_nat n)]
     else [Out SLAVE_8259_PORT (0x60 + of_nat (n - 8)), Out MASTER_8259_PORT 0x62])"
  using below_16 [OF assms]
  by (elim UnE insertE emptyE) (simp_all add: send_eoi_def outb_def word_le_nat_alt)

theorem send_eoi_specific_witness:
  "send_eoi 8 [] = [Out SLAVE_8259_PORT 0x60, Out MASTER_8259_PORT 0x62]"
  using send_eoi_specific [of 8 "[]"] by simp

end
