(* ===== verification/Rtc.thy ===== *)
theory Rtc
  imports I8259
begin

text \<open>
  The real-time clock and the timer chip: \<^verbatim>\<open>student-distrib/drivers/rtc.c\<close> and
  \<^verbatim>\<open>student-distrib/drivers/pit.c\<close> (\<open>pit_init\<close>; the handler is in the theory \<open>Kernel\<close>).
  The clock's state is the static \<^verbatim>\<open>rtc_flag\<close> and the port log.  \<open>rtc_read\<close> spins until the
  interrupt handler sets the flag, so it takes the interrupts that arrive between its
  iterations as an argument and is \<open>None\<close> while it would still be spinning.
\<close>

abbreviation RTC_PORT :: u16 where "RTC_PORT \<equiv> 0x70"
abbreviation RTC_CMOS :: u16 where "RTC_CMOS \<equiv> 0x71"
abbreviation RTC_IRQ_NUM :: u32 where "RTC_IRQ_NUM \<equiv> 8"
abbreviation RTC_REG_A_M :: u8 where "RTC_REG_A_M \<equiv> 0x8A"
abbreviation RTC_REG_B :: u8 where "RTC_REG_B \<equiv> 0x0B"
abbreviation RTC_REG_C :: u8 where "RTC_REG_C \<equiv> 0x0C"
abbreviation DISABLE_NMI :: u8 where "DISABLE_NMI \<equiv> 0x80"
abbreviation BIT_SIX :: u8 where "BIT_SIX \<equiv> 0x40"
abbreviation RATE_MASK :: u8 where "RATE_MASK \<equiv> 0xF0"
abbreviation RTC_MAX_RATE :: int where "RTC_MAX_RATE \<equiv> 1024"
abbreviation RTC_MIN_RATE :: int where "RTC_MIN_RATE \<equiv> 2"
abbreviation DEFAULT_RATE :: u32 where "DEFAULT_RATE \<equiv> 2"
abbreviation MASK_DEFAULT :: u32 where "MASK_DEFAULT \<equiv> 0x01"
abbreviation DIV_MAX :: int where "DIV_MAX \<equiv> 16"
abbreviation RATE_IN_MASK :: u32 where "RATE_IN_MASK \<equiv> 0xFFF"

section \<open>Operations\<close>

text \<open>The search for the divider; \<open>junk\<close> is the uninitialised \<^verbatim>\<open>divider_value\<close>.\<close>

function rtc_divider :: "int \<Rightarrow> u32 \<Rightarrow> u32 \<Rightarrow> u8 \<Rightarrow> u8" where
  "rtc_divider i bitmask rtc_rate junk =
     (if i < 12 then
        if rtc_rate AND bitmask \<noteq> 0 then of_int (DIV_MAX - i)
        else rtc_divider (i + 1) (push_bit 1 bitmask) rtc_rate junk
      else junk)"
  by pat_completeness auto
termination
  by (relation "measure (\<lambda>(i, _). nat (12 - i))") auto

declare rtc_divider.simps [simp del]

text \<open>\<open>rtc_write\<close> after it has fetched the rate from its buffer.\<close>

definition rtc_write_rate :: "device \<Rightarrow> u8 \<Rightarrow> u32 \<Rightarrow> io \<Rightarrow> int \<times> io" where
  "rtc_write_rate dev junk rtc_rate log =
     (if RTC_MAX_RATE < sint rtc_rate \<or> sint rtc_rate < RTC_MIN_RATE then (-1, log)
      else if \<not> (rtc_rate \<noteq> 0 \<and> rtc_rate AND (NOT rtc_rate + 1) = rtc_rate) then (-1, log)
      else
        let divider_value = rtc_divider 0 MASK_DEFAULT (rtc_rate AND RATE_IN_MASK) junk;
            log = outb RTC_REG_A_M RTC_PORT log;
            (prev, log) = inb dev RTC_CMOS log;
            log = outb RTC_REG_A_M RTC_PORT log;
            log = outb ((prev AND RATE_MASK) OR divider_value) RTC_CMOS log
        in (0, log))"

definition rtc_write :: "device \<Rightarrow> u8 \<Rightarrow> mem \<Rightarrow> u32 \<Rightarrow> io \<Rightarrow> int \<times> io" where
  "rtc_write dev junk m buf log = rtc_write_rate dev junk (get32 m buf) log"

definition rtc_open :: "device \<Rightarrow> u8 \<Rightarrow> io \<Rightarrow> int \<times> io" where
  "rtc_open dev junk log = (0, snd (rtc_write_rate dev junk DEFAULT_RATE log))"

definition rtc_close :: "int" where
  "rtc_close = 0"

definition rtc_irq_handler :: "device \<Rightarrow> bool \<times> io \<Rightarrow> bool \<times> io" where
  "rtc_irq_handler dev s =
     (let log = outb RTC_REG_C RTC_PORT (snd s);
          (_, log) = inb dev RTC_CMOS log
      in (True, send_eoi RTC_IRQ_NUM log))"

text \<open>The loop of \<open>rtc_read\<close>: \<open>irqs\<close> says before which iterations the handler ran.\<close>

fun rtc_read_loop :: "bool list \<Rightarrow> bool \<Rightarrow> (int \<times> bool \<times> bool list) option" where
  "rtc_read_loop [] rtc_flag = None"
| "rtc_read_loop (irq # irqs) rtc_flag =
     (let rtc_flag = (rtc_flag \<or> irq) in
      if rtc_flag then Some (0, False, irqs) else rtc_read_loop irqs rtc_flag)"

definition rtc_read :: "bool list \<Rightarrow> bool \<Rightarrow> (int \<times> bool \<times> bool list) option" where
  "rtc_read irqs rtc_flag = rtc_read_loop irqs False"

definition rtc_init :: "device \<Rightarrow> u8 \<Rightarrow> console \<Rightarrow> bool \<times> console" where
  "rtc_init dev junk con =
     (let log = enable_irq dev RTC_IRQ_NUM (ports con);
          log = outb (RTC_REG_B OR DISABLE_NMI) RTC_PORT log;
          (prev, log) = inb dev RTC_CMOS log;
          log = outb (RTC_REG_B OR DISABLE_NMI) RTC_PORT log;
          log = outb (prev OR BIT_SIX) RTC_CMOS log;
          log = snd (rtc_write_rate dev junk DEFAULT_RATE log)
      in (False, printf_lit (''Enabled RTC'' @ [CHR 0x0A]) (con\<lparr>ports := log\<rparr>)))"

definition pit_init :: "device \<Rightarrow> io \<Rightarrow> io" where
  "pit_init dev log =
     (let log = outb 0x34 0x43 log;
          log = outb 0x9C 0x40 log;
          log = outb 0x2E 0x40 log
      in enable_irq dev 0 log)"


section \<open>Rates\<close>

text \<open>The power-of-two test \<^verbatim>\<open>x & (~x + 1) == x\<close>.\<close>

lemma and_double: "(2 * a) AND (2 * b) = 2 * (a AND b)" "(2 * a + 1) AND (2 * b + 1) = 2 * (a AND b) + 1"
  for a b :: int
  by (simp_all add: and_int_rec [of "2 * a"] and_int_rec [of "2 * a + 1"])

lemma isolate_lowest_bit:
  "x AND - x = x \<Longrightarrow> 0 < x \<Longrightarrow> \<exists>j. x = 2 ^ j" for x :: int
proof (induction "nat x" arbitrary: x rule: less_induct)
  case less
  show ?case
  proof (cases "even x")
    case True
    then obtain y where y: "x = 2 * y" by blast
    have "2 * (y AND - y) = x AND - x"
      using and_double(1) [of y "- y"] y by simp
    then have "y AND - y = y" using less.prems y by simp
    then obtain j where "y = 2 ^ j"
      using less.hyps [of y] less.prems(2) y by auto
    then show ?thesis using y by (intro exI [of _ "Suc j"]) simp
  next
    case False
    then obtain y where y: "x = 2 * y + 1" by (elim oddE)
    have neg: "- x = 2 * (NOT y) + 1" using y by (simp add: not_int_def)
    have "x AND - x = (2 * y + 1) AND (2 * (NOT y) + 1)" unfolding neg by (simp only: y)
    then have "x AND - x = 1" unfolding and_double by simp
    then show ?thesis using less.prems by (intro exI [of _ 0]) simp
  qed
qed

lemma uint_eq_sint: "0 \<le> sint (x :: u32) \<Longrightarrow> uint x = sint x"
  using unat_sint(1) [of x] by (metis int_nat_eq uint_nat)

lemma power_of_two_check:
  assumes "2 \<le> sint (x :: u32)" "sint x \<le> 1024" "x AND (NOT x + 1) = x"
  shows "\<exists>j. 1 \<le> j \<and> j \<le> 10 \<and> x = 2 ^ j"
proof -
  have s: "uint x = sint x" using assms(1) by (intro uint_eq_sint) linarith
  have "NOT x + 1 = - x" by (rule minus_eq_not_plus_1 [symmetric])
  then have "of_int (uint x AND - uint x) = (of_int (uint x) :: u32)"
    using assms(3) unfolding of_int_and_eq of_int_minus word_of_int_uint by (simp only:)
  moreover have "0 \<le> uint x AND - uint x" "uint x AND - uint x \<le> uint x"
    by (rule AND_upper1 | rule AND_lower | rule unsigned_greater_eq)+
  moreover have "uint x < 2 ^ 32" "0 \<le> uint x" using s assms(1,2) by simp_all
  moreover from calculation have "uint x AND - uint x < 2 ^ 32" by (elim order_le_less_trans)
  ultimately have "uint x AND - uint x = uint x"
    by (metis of_int_eq_u32)
  moreover have "0 < uint x" using s assms(1) by linarith
  ultimately obtain j where j: "uint x = 2 ^ j"
    using isolate_lowest_bit by blast
  have "(2::int) ^ 1 \<le> 2 ^ j" "(2::int) ^ j \<le> 2 ^ 10" using j s assms(1,2) by simp_all
  then have "1 \<le> j" "j \<le> 10"
    using power_le_imp_le_exp [of "2::int" 1 j] power_le_imp_le_exp [of "2::int" j 10] by simp_all
  moreover have "(of_int (uint x) :: u32) = 2 ^ j" unfolding j by simp
  then have "x = 2 ^ j" unfolding word_of_int_uint .
  ultimately show ?thesis by blast
qed

lemma rate_cases: "1 \<le> j \<Longrightarrow> j \<le> 10 \<Longrightarrow>
   j = 1 \<or> j = 2 \<or> j = 3 \<or> j = 4 \<or> j = 5 \<or> j = 6 \<or> j = 7 \<or> j = 8 \<or> j = 9 \<or> j = (10::nat)"
  by arith

lemma rate_accepted:
  assumes "1 \<le> j" "j \<le> 10"
  shows "2 \<le> sint (2 ^ j :: u32)" "sint (2 ^ j :: u32) \<le> 1024"
    "(2 ^ j :: u32) AND (NOT (2 ^ j) + 1) = 2 ^ j"
    "rtc_divider 0 MASK_DEFAULT (2 ^ j AND RATE_IN_MASK) junk = 16 - of_nat j"
  using rate_cases [OF assms]
  by (elim disjE; simp add: rtc_divider.simps)+


lemma rtc_write_rate_accepted:
  assumes j: "1 \<le> j" "j \<le> 10"
  shows "rtc_write_rate dev junk (2 ^ j) log
    = (0, log @ [Out RTC_PORT RTC_REG_A_M, In RTC_CMOS, Out RTC_PORT RTC_REG_A_M,
         Out RTC_CMOS ((dev (log @ [Out RTC_PORT RTC_REG_A_M]) RTC_CMOS AND RATE_MASK) OR of_nat (16 - j))])"
proof -
  note r = rate_accepted(1-3) [OF j]
  have c1: "\<not> (RTC_MAX_RATE < sint (2 ^ j :: u32) \<or> sint (2 ^ j :: u32) < RTC_MIN_RATE)"
    using r(1,2) by linarith
  have "(2 ^ j :: u32) \<noteq> 0" using r(1) by fastforce
  then have c2: "\<not> \<not> ((2 ^ j :: u32) \<noteq> 0 \<and> 2 ^ j AND (NOT (2 ^ j) + 1) = (2 ^ j :: u32))"
    using r(3) by blast
  have "(16 - of_nat j :: u8) = of_nat (16 - j)" using j by (simp add: of_nat_diff)
  then show ?thesis
    unfolding rtc_write_rate_def if_not_P [OF c1] if_not_P [OF c2] rate_accepted(4) [OF j]
    by (simp add: outb_def inb_def Let_def)
qed

section \<open>Properties\<close>

text \<open>C33: \<open>rtc_write\<close> sets the interrupt rate.  It accepts exactly the powers of two from 2 to
  1024; it then writes to register A, whose low four bits become the divider \<open>r\<close> for which
  the clock ticks at \<open>32768 / 2 ^ (r - 1)\<close> Hz, the requested rate, and whose high four bits
  are kept; it returns 0.  Any other value is rejected with -1 and no port access.\<close>

theorem rtc_write_sets_rate:
  "(rtc_write dev junk m buf log = (-1, log) \<and> \<not> (\<exists>j. 1 \<le> j \<and> j \<le> 10 \<and> get32 m buf = 2 ^ j))
   \<or> (\<exists>j r. 1 \<le> j \<and> j \<le> 10 \<and> get32 m buf = 2 ^ j \<and> 6 \<le> r \<and> r \<le> 15 \<and> 32768 div 2 ^ (r - 1) = (2::nat) ^ j
      \<and> rtc_write dev junk m buf log
        = (0, log @ [Out RTC_PORT RTC_REG_A_M, In RTC_CMOS, Out RTC_PORT RTC_REG_A_M,
             Out RTC_CMOS ((dev (log @ [Out RTC_PORT RTC_REG_A_M]) RTC_CMOS AND RATE_MASK) OR of_nat r)]))"
proof (cases "\<exists>j. 1 \<le> j \<and> j \<le> 10 \<and> get32 m buf = 2 ^ j")
  case False
  then show ?thesis
    using power_of_two_check [of "get32 m buf"]
    by (auto simp: rtc_write_def rtc_write_rate_def)
next
  case True
  then obtain j where j: "1 \<le> j" "j \<le> 10" and rate: "get32 m buf = 2 ^ j" by blast
  have "32768 div 2 ^ (16 - j - 1) = (2::nat) ^ j"
    using rate_cases [OF j] by (elim disjE) simp_all
  then show ?thesis
    using rate j rtc_write_rate_accepted [OF j, of dev junk log]
    by (rule_tac disjI2, rule_tac x = j in exI, rule_tac x = "16 - j" in exI) (auto simp: rtc_write_def)
qed

text \<open>\<open>rtc_read\<close> waits for the next interrupt.  It returns (with 0, and the flag cleared)
  exactly when an interrupt arrives during the call, after the first one that does; an
  interrupt from before the call, still recorded in the flag, does not count.\<close>

theorem rtc_read_waits:
  "rtc_read irqs rtc_flag = (case dropWhile Not irqs of [] \<Rightarrow> None | _ # rest \<Rightarrow> Some (0, False, rest))"
proof -
  have "rtc_read_loop irqs False = (case dropWhile Not irqs of [] \<Rightarrow> None | _ # rest \<Rightarrow> Some (0, False, rest))"
    by (induction irqs) (auto simp: Let_def)
  then show ?thesis by (simp add: rtc_read_def)
qed

end
