(* ===== verification/Paging.thy ===== *)
theory Paging
  imports Tasks
begin

text \<open>
  Paging: \<^verbatim>\<open>student-distrib/kernel/paging.c\<close> and \<^verbatim>\<open>paging.h\<close>.  The state holds the static
  tables and the control registers; the addresses at which the linker places the tables
  are the parameter \<open>layout\<close>.  \<open>translate\<close> specifies how the processor walks the tables (two
  levels, 4 MB pages where the size bit is set, the user and write bits of both levels).
  The lemmas compute the address space the code builds for a process and show that
  processes are isolated from each other and from the kernel.
\<close>

abbreviation PAGE_SIZE :: int where "PAGE_SIZE \<equiv> 1024"
abbreviation TABLE_ADDRESS_SHIFT :: nat where "TABLE_ADDRESS_SHIFT \<equiv> 12"
abbreviation TABLE_ADDRESS_MASK :: u32 where "TABLE_ADDRESS_MASK \<equiv> 0x3FF"
abbreviation VIDEO_MEM_START :: int where "VIDEO_MEM_START \<equiv> 0xB8"
abbreviation KERNAL_START :: "20 word" where "KERNAL_START \<equiv> 0x400"
abbreviation PROGRAM_START :: u32 where "PROGRAM_START \<equiv> 0x8000000"
abbreviation FOUR_MB :: u32 where "FOUR_MB \<equiv> 0x400000"
abbreviation FOUR_KB :: u32 where "FOUR_KB \<equiv> 0x1000"
abbreviation P_IMG :: int where "P_IMG \<equiv> 0x20"
abbreviation VIDEO_MEM_LOAD :: int where "VIDEO_MEM_LOAD \<equiv> 31"

section \<open>Data\<close>

record pde =
  pde_present :: "1 word"
  pde_read_write :: "1 word"
  pde_user_supervisor :: "1 word"
  pde_write_through :: "1 word"
  pde_cache_disabled :: "1 word"
  pde_accessed :: "1 word"
  pde_zero :: "1 word"
  pde_page_size :: "1 word"
  pde_global :: "1 word"
  pde_avail :: "3 word"
  page_table_addr :: "20 word"

record pte =
  pte_present :: "1 word"
  pte_read_write :: "1 word"
  pte_user_supervisor :: "1 word"
  pte_write_through :: "1 word"
  pte_cache_disabled :: "1 word"
  pte_accessed :: "1 word"
  pte_dirty :: "1 word"
  pte_zero :: "1 word"
  pte_global :: "1 word"
  pte_avail :: "3 word"
  physical_page_addr :: "20 word"

text \<open>The bit-fields share their storage with the 32-bit word \<^verbatim>\<open>val\<close>.\<close>

definition pde_val :: "pde \<Rightarrow> u32" where
  "pde_val e = ucast (pde_present e) OR push_bit 1 (ucast (pde_read_write e))
     OR push_bit 2 (ucast (pde_user_supervisor e)) OR push_bit 3 (ucast (pde_write_through e))
     OR push_bit 4 (ucast (pde_cache_disabled e)) OR push_bit 5 (ucast (pde_accessed e))
     OR push_bit 6 (ucast (pde_zero e)) OR push_bit 7 (ucast (pde_page_size e))
     OR push_bit 8 (ucast (pde_global e)) OR push_bit 9 (ucast (pde_avail e))
     OR push_bit 12 (ucast (page_table_addr e))"

definition pte_val :: "pte \<Rightarrow> u32" where
  "pte_val e = ucast (pte_present e) OR push_bit 1 (ucast (pte_read_write e))
     OR push_bit 2 (ucast (pte_user_supervisor e)) OR push_bit 3 (ucast (pte_write_through e))
     OR push_bit 4 (ucast (pte_cache_disabled e)) OR push_bit 5 (ucast (pte_accessed e))
     OR push_bit 6 (ucast (pte_dirty e)) OR push_bit 7 (ucast (pte_zero e))
     OR push_bit 8 (ucast (pte_global e)) OR push_bit 9 (ucast (pte_avail e))
     OR push_bit 12 (ucast (physical_page_addr e))"

record paging =
  page_dir_table :: "int \<Rightarrow> int \<Rightarrow> pde"
  page_table :: "int \<Rightarrow> pte"
  user_page_table :: "int \<Rightarrow> pte"
  user_video_page :: "int \<Rightarrow> int \<Rightarrow> pte"
  cr0 :: u32
  cr3 :: u32
  cr4 :: u32

record layout =
  page_dir_table_at :: u32
  page_table_at :: u32
  user_page_table_at :: u32
  user_video_page_at :: u32

definition page_dir_addr :: "layout \<Rightarrow> int \<Rightarrow> u32" where
  "page_dir_addr lay pid = page_dir_table_at lay + 4096 * of_int pid"

definition video_page_addr :: "layout \<Rightarrow> int \<Rightarrow> u32" where
  "video_page_addr lay pid = user_video_page_at lay + 4096 * of_int pid"

definition set_pde :: "int \<Rightarrow> int \<Rightarrow> pde \<Rightarrow> paging \<Rightarrow> paging" where
  "set_pde pid i e s = s\<lparr>page_dir_table := (page_dir_table s)(pid := (page_dir_table s pid)(i := e))\<rparr>"

definition set_video_pte :: "int \<Rightarrow> int \<Rightarrow> pte \<Rightarrow> paging \<Rightarrow> paging" where
  "set_video_pte pid i e s = s\<lparr>user_video_page := (user_video_page s)(pid := (user_video_page s pid)(i := e))\<rparr>"

section \<open>Operations\<close>

definition kernel_pte :: "int \<Rightarrow> pte" where
  "kernel_pte i = \<lparr>pte_present = 0, pte_read_write = 0, pte_user_supervisor = 0, pte_write_through = 0,
     pte_cache_disabled = 0, pte_accessed = 0, pte_dirty = 0, pte_zero = 0, pte_global = 0, pte_avail = 0,
     physical_page_addr = of_int i\<rparr>"

definition user_pte :: "int \<Rightarrow> pte" where
  "user_pte i = \<lparr>pte_present = 0, pte_read_write = 1, pte_user_supervisor = 1, pte_write_through = 0,
     pte_cache_disabled = 0, pte_accessed = 0, pte_dirty = 0, pte_zero = 0, pte_global = 0, pte_avail = 0,
     physical_page_addr = of_int i\<rparr>"

definition kernel_pde :: "pde" where
  "kernel_pde = \<lparr>pde_present = 1, pde_read_write = 1, pde_user_supervisor = 0, pde_write_through = 0,
     pde_cache_disabled = 0, pde_accessed = 0, pde_zero = 0, pde_page_size = 1, pde_global = 1, pde_avail = 0,
     page_table_addr = KERNAL_START\<rparr>"

text \<open>Paging on: the three register updates of the inline assembly, with the bits set in
  \<^verbatim>\<open>cr4\<close> as an argument.\<close>

definition load_cr3 :: "u32 \<Rightarrow> u32 \<Rightarrow> paging \<Rightarrow> paging" where
  "load_cr3 cr4_bits addr s =
     s\<lparr>cr3 := addr AND 0xFFFFFFE7, cr4 := cr4 s OR cr4_bits, cr0 := cr0 s OR 0x80000000\<rparr>"

abbreviation RELOAD_CR3 :: "u32 \<Rightarrow> paging \<Rightarrow> paging" where
  "RELOAD_CR3 \<equiv> load_cr3 0x00000090"

definition paging_init :: "layout \<Rightarrow> paging \<Rightarrow> paging" where
  "paging_init lay s =
     (let s = for_range 0 PAGE_SIZE (\<lambda>i s. s\<lparr>page_table := (page_table s)(i := kernel_pte i),
                user_page_table := (user_page_table s)(i := user_pte i)\<rparr>) s;
          s = s\<lparr>page_table := (page_table s)(VIDEO_MEM_START := (page_table s VIDEO_MEM_START)\<lparr>pte_present := 1\<rparr>)\<rparr>;
          s = s\<lparr>user_page_table := (user_page_table s)(VIDEO_MEM_START :=
                (user_page_table s VIDEO_MEM_START)\<lparr>pte_present := 1\<rparr>)\<rparr>;
          s = set_pde 0 0 \<lparr>pde_present = 1, pde_read_write = 0, pde_user_supervisor = 0, pde_write_through = 0,
                pde_cache_disabled = 0, pde_accessed = 0, pde_zero = 0, pde_page_size = 0, pde_global = 0, pde_avail = 0,
                page_table_addr = ucast (drop_bit TABLE_ADDRESS_SHIFT (page_table_at lay))\<rparr> s;
          s = set_pde 0 1 kernel_pde s;
          s = for_range 2 PAGE_SIZE (\<lambda>i. set_pde 0 i
                \<lparr>pde_present = 0, pde_read_write = 1, pde_user_supervisor = 0, pde_write_through = 0,
                pde_cache_disabled = 0, pde_accessed = 0, pde_zero = 0, pde_page_size = 0, pde_global = 0, pde_avail = 0,
                page_table_addr = push_bit 10 (of_int i)\<rparr>) s
      in load_cr3 0x00000010 (page_dir_table_at lay) s)"

definition user_table_pde :: "layout \<Rightarrow> pde" where
  "user_table_pde lay = \<lparr>pde_present = 1, pde_read_write = 1, pde_user_supervisor = 1, pde_write_through = 0,
     pde_cache_disabled = 0, pde_accessed = 0, pde_zero = 0, pde_page_size = 0, pde_global = 0, pde_avail = 0,
     page_table_addr = ucast (drop_bit TABLE_ADDRESS_SHIFT (user_page_table_at lay))\<rparr>"

definition image_pde :: "u32 \<Rightarrow> pde" where
  "image_pde pid = \<lparr>pde_present = 1, pde_read_write = 1, pde_user_supervisor = 1, pde_write_through = 0,
     pde_cache_disabled = 0, pde_accessed = 0, pde_zero = 0, pde_page_size = 1, pde_global = 0, pde_avail = 0,
     page_table_addr = ucast (push_bit 10 (pid + 1))\<rparr>"

definition paging_allocate :: "layout \<Rightarrow> u32 \<Rightarrow> paging \<Rightarrow> int \<times> paging" where
  "paging_allocate lay pid s =
     (if MAX_PID \<le> uint pid then (-1, s)
      else (0, set_pde (uint pid) P_IMG (image_pde pid)
              (set_pde (uint pid) 1 kernel_pde
              (set_pde (uint pid) 0 (user_table_pde lay) s))))"

definition paging_update_control :: "layout \<Rightarrow> u32 \<Rightarrow> paging \<Rightarrow> int \<times> paging" where
  "paging_update_control lay pid s =
     (if MAX_PID \<le> uint pid then (-1, s)
      else (0, load_cr3 0x00000090 (page_dir_addr lay (uint pid)) s))"

definition video_pde :: "layout \<Rightarrow> int \<Rightarrow> pde" where
  "video_pde lay pid = \<lparr>pde_present = 1, pde_read_write = 1, pde_user_supervisor = 1, pde_write_through = 0,
     pde_cache_disabled = 0, pde_accessed = 0, pde_zero = 0, pde_page_size = 0, pde_global = 0, pde_avail = 0,
     page_table_addr = ucast (drop_bit TABLE_ADDRESS_SHIFT (video_page_addr lay pid))\<rparr>"

definition unused_video_pte :: pte where
  "unused_video_pte = \<lparr>pte_present = 0, pte_read_write = 1, pte_user_supervisor = 0, pte_write_through = 0,
     pte_cache_disabled = 0, pte_accessed = 0, pte_dirty = 0, pte_zero = 0, pte_global = 0, pte_avail = 0,
     physical_page_addr = 0\<rparr>"

text \<open>The third component is the value stored through \<^verbatim>\<open>screen_start\<close>.\<close>

definition paging_map_video :: "layout \<Rightarrow> u32 \<Rightarrow> paging \<Rightarrow> int \<times> paging \<times> u32 option" where
  "paging_map_video lay pid s =
     (if MAX_PID \<le> uint pid then (-1, s, None)
      else
        let p = uint pid;
            s = for_range 0 PAGE_SIZE (\<lambda>i. set_video_pte p i unused_video_pte) s;
            e = user_video_page s p VIDEO_MEM_START;
            s = set_video_pte p VIDEO_MEM_START
                  (e\<lparr>physical_page_addr := of_int VIDEO_MEM_START, pte_present := 1, pte_user_supervisor := 1\<rparr>) s;
            s = set_pde p VIDEO_MEM_LOAD (video_pde lay p) s
        in (0, RELOAD_CR3 (page_dir_addr lay p) s,
            Some (PROGRAM_START - FOUR_MB + of_int VIDEO_MEM_START * FOUR_KB)))"

definition update_video_paging :: "layout \<Rightarrow> u16 \<Rightarrow> u32 \<Rightarrow> paging \<Rightarrow> paging" where
  "update_video_paging lay pid addr s =
     (let e = user_video_page s (uint pid) VIDEO_MEM_START;
          s = set_video_pte (uint pid) VIDEO_MEM_START
                (e\<lparr>physical_page_addr := ucast (drop_bit TABLE_ADDRESS_SHIFT addr AND TABLE_ADDRESS_MASK)\<rparr>) s
      in RELOAD_CR3 (page_dir_addr lay (uint pid)) s)"

section \<open>The processor's page walk\<close>

definition dir_at :: "layout \<Rightarrow> paging \<Rightarrow> u32 \<Rightarrow> (int \<Rightarrow> pde) option" where
  "dir_at lay s a = map_option (page_dir_table s) (find (\<lambda>p. page_dir_addr lay p = a) [0..MAX_PID - 1])"

definition table_at :: "layout \<Rightarrow> paging \<Rightarrow> u32 \<Rightarrow> (int \<Rightarrow> pte) option" where
  "table_at lay s a =
     (if a = page_table_at lay then Some (page_table s)
      else if a = user_page_table_at lay then Some (user_page_table s)
      else map_option (user_video_page s) (find (\<lambda>p. video_page_addr lay p = a) [0..MAX_PID - 1]))"

text \<open>Present, and for user mode the user bit and, to write, the write bit.\<close>

definition allowed :: "bool \<Rightarrow> bool \<Rightarrow> u32 \<Rightarrow> bool" where
  "allowed user w v \<longleftrightarrow> bit v 0 \<and> (user \<longrightarrow> bit v 2) \<and> (user \<and> w \<longrightarrow> bit v 1)"

definition translate :: "layout \<Rightarrow> paging \<Rightarrow> bool \<Rightarrow> bool \<Rightarrow> u32 \<Rightarrow> u32 option" where
  "translate lay s user w va =
     (case dir_at lay s (cr3 s AND 0xFFFFF000) of None \<Rightarrow> None
      | Some dir \<Rightarrow>
        let d = pde_val (dir (uint (drop_bit 22 va))) in
        if \<not> allowed user w d then None
        else if bit d 7 then Some ((d AND 0xFFC00000) OR (va AND 0x3FFFFF))
        else (case table_at lay s (d AND 0xFFFFF000) of None \<Rightarrow> None
          | Some tab \<Rightarrow>
            let t = pte_val (tab (uint (drop_bit 12 va AND 0x3FF))) in
            if \<not> allowed user w t then None else Some ((t AND 0xFFFFF000) OR (va AND 0xFFF))))"

text \<open>The tables are page-aligned, as their attributes in the source demand, and distinct
  static objects.\<close>

definition layout_ok :: "layout \<Rightarrow> bool" where
  "layout_ok lay \<longleftrightarrow>
     take_bit 12 (page_dir_table_at lay) = 0 \<and> take_bit 12 (page_table_at lay) = 0
   \<and> take_bit 12 (user_page_table_at lay) = 0 \<and> take_bit 12 (user_video_page_at lay) = 0
   \<and> page_table_at lay \<noteq> user_page_table_at lay
   \<and> (\<forall>p \<in> set [0..MAX_PID - 1]. video_page_addr lay p \<noteq> page_table_at lay
        \<and> video_page_addr lay p \<noteq> user_page_table_at lay)"

lemma bit_1_word: "bit (x :: 1 word) n \<longleftrightarrow> n = 0 \<and> x = 1"
proof -
  have "unat x < 2" using unsigned_less [of x, where 'a = nat] by simp
  then have "unat x = 0 \<or> unat x = 1" by arith
  then have "x = 0 \<or> x = 1" by (simp add: word_unat_eq_iff)
  then show ?thesis by (auto simp: bit_simps)
qed

lemma page_mask: "(0xFFFFF000 :: u32) = NOT (mask 12)" "(0xFFC00000 :: u32) = NOT (mask 22)"
  "(0xFFF :: u32) = mask 12" "(0x3FFFFF :: u32) = mask 22" "(0x3FF :: u32) = mask 10"
  by (simp_all add: mask_eq_exp_minus_1)

lemma pde_val_bits:
  "bit (pde_val e) 0 \<longleftrightarrow> pde_present e = 1" "bit (pde_val e) 1 \<longleftrightarrow> pde_read_write e = 1"
  "bit (pde_val e) 2 \<longleftrightarrow> pde_user_supervisor e = 1" "bit (pde_val e) 7 \<longleftrightarrow> pde_page_size e = 1"
  by (simp_all add: pde_val_def bit_simps bit_1_word del: push_bit_Suc)

lemma pte_val_bits:
  "bit (pte_val e) 0 \<longleftrightarrow> pte_present e = 1" "bit (pte_val e) 1 \<longleftrightarrow> pte_read_write e = 1"
  "bit (pte_val e) 2 \<longleftrightarrow> pte_user_supervisor e = 1"
  by (simp_all add: pte_val_def bit_simps bit_1_word del: push_bit_Suc)

lemma pde_val_frame: "pde_val e AND 0xFFFFF000 = push_bit 12 (ucast (page_table_addr e))"
  unfolding page_mask
  by (rule bit_eqI) (auto simp: pde_val_def bit_simps bit_1_word simp del: push_bit_Suc dest: bit_imp_le_length)

lemma pde_val_large_frame:
  "pde_val e AND 0xFFC00000 = push_bit 22 (ucast (drop_bit 10 (page_table_addr e)))"
proof -
  have "pde_val e AND 0xFFC00000 = (pde_val e AND 0xFFFFF000) AND 0xFFC00000"
    unfolding and.assoc by simp
  also have "\<dots> = push_bit 12 (ucast (page_table_addr e)) AND NOT (mask 22)"
    unfolding pde_val_frame page_mask(2) ..
  also have "\<dots> = push_bit 22 (ucast (drop_bit 10 (page_table_addr e)))"
  proof (rule bit_eqI)
    fix n :: nat
    have "22 \<le> n \<Longrightarrow> n - 12 = 10 + (n - 22)" by simp
    then show "bit (push_bit 12 (ucast (page_table_addr e)) AND NOT (mask 22) :: u32) n
      = bit (push_bit 22 (ucast (drop_bit 10 (page_table_addr e))) :: u32) n"
      by (cases "22 \<le> n") (auto simp: bit_simps)
  qed
  finally show ?thesis .
qed

lemma pte_val_frame: "pte_val e AND 0xFFFFF000 = push_bit 12 (ucast (physical_page_addr e))"
  unfolding page_mask
  by (rule bit_eqI) (auto simp: pte_val_def bit_simps bit_1_word simp del: push_bit_Suc dest: bit_imp_le_length)

lemma aligned_bit: "take_bit 12 (a :: u32) = 0 \<Longrightarrow> bit a n \<Longrightarrow> 12 \<le> n"
proof (rule ccontr)
  assume "take_bit 12 a = 0" "bit a n" "\<not> 12 \<le> n"
  have "bit (take_bit 12 a) n"
    using \<open>bit a n\<close> \<open>\<not> 12 \<le> n\<close> by (simp add: bit_take_bit_iff)
  with \<open>take_bit 12 a = 0\<close> show False by simp
qed

lemma frame_of_addr:
  assumes "take_bit 12 (a :: u32) = 0"
  shows "push_bit 12 (ucast (ucast (drop_bit 12 a) :: 20 word)) = a"
proof (rule bit_eqI)
  fix n
  show "bit (push_bit 12 (ucast (ucast (drop_bit 12 a) :: 20 word)) :: u32) n = bit a n"
    using aligned_bit [OF assms, of n]
    by (cases "12 \<le> n") (auto simp: bit_simps dest: bit_imp_le_length)
qed

lemma aligned_iff: "take_bit 12 (a :: u32) = 0 \<longleftrightarrow> unat a mod 4096 = 0"
  by (simp add: word_unat_eq_iff take_bit_eq_mod unat_mod)

lemma offset_aligned:
  assumes "take_bit 12 (a :: u32) = 0"
  shows "take_bit 12 (a + 4096 * k) = 0"
proof -
  have "unat (a + 4096 * k) = (unat a + 4096 * unat k) mod 2 ^ 32"
    by (simp add: unat_word_ariths mod_simps)
  then have "unat (a + 4096 * k) mod 4096 = (unat a + 4096 * unat k) mod 4096"
    by (simp add: mod_mod_cancel)
  then show ?thesis using assms by (simp add: aligned_iff)
qed

lemma and_page: "take_bit 12 (a :: u32) = 0 \<Longrightarrow> (a AND 0xFFFFFFE7) AND 0xFFFFF000 = a"
proof -
  assume a: "take_bit 12 a = 0"
  have "(a AND 0xFFFFFFE7) AND 0xFFFFF000 = a AND NOT (mask 12)"
    unfolding and.assoc page_mask(1) [symmetric] by simp
  also have "\<dots> = a"
    by (rule bit_eqI) (auto simp: bit_simps dest: aligned_bit [OF a])
  finally show ?thesis .
qed

lemma table_slot_inj:
  assumes "0 \<le> p" "p < MAX_PID" "0 \<le> q" "q < MAX_PID"
    and "(a :: u32) + 4096 * of_int p = a + 4096 * of_int q"
  shows "p = q"
proof -
  have "(of_int (4096 * p) :: u32) = of_int (4096 * q)" using assms(5) by simp
  moreover have "4096 * p < 2 ^ 32" "4096 * q < 2 ^ 32" using assms by simp_all
  ultimately have "4096 * p = 4096 * q" using assms(1,3) of_int_eq_u32 [of "4096 * p" "4096 * q"] by linarith
  then show ?thesis by simp
qed

lemma dir_at_page_dir:
  assumes "0 \<le> p" "p < MAX_PID"
  shows "dir_at lay s (page_dir_addr lay p) = Some (page_dir_table s p)"
proof -
  have "find (\<lambda>q. page_dir_addr lay q = page_dir_addr lay p) [0..MAX_PID - 1] = Some p"
    by (rule find_unique) (use assms table_slot_inj in \<open>auto simp: page_dir_addr_def\<close>)
  then show ?thesis by (simp add: dir_at_def)
qed

lemma table_at_cases:
  assumes "layout_ok lay"
  shows "table_at lay s (user_page_table_at lay) = Some (user_page_table s)"
    and "table_at lay s (page_table_at lay) = Some (page_table s)"
    and "0 \<le> p \<Longrightarrow> p < MAX_PID \<Longrightarrow> table_at lay s (video_page_addr lay p) = Some (user_video_page s p)"
proof -
  show "table_at lay s (user_page_table_at lay) = Some (user_page_table s)"
    "table_at lay s (page_table_at lay) = Some (page_table s)"
    using assms by (auto simp: table_at_def layout_ok_def)
  assume p: "0 \<le> p" "p < MAX_PID"
  have "find (\<lambda>q. video_page_addr lay q = video_page_addr lay p) [0..MAX_PID - 1] = Some p"
    by (rule find_unique) (use p table_slot_inj in \<open>auto simp: video_page_addr_def\<close>)
  moreover have "p \<in> set [0..MAX_PID - 1]" using p by simp
  then have "video_page_addr lay p \<noteq> page_table_at lay" "video_page_addr lay p \<noteq> user_page_table_at lay"
    using assms unfolding layout_ok_def by blast+
  ultimately show "table_at lay s (video_page_addr lay p) = Some (user_video_page s p)"
    by (simp add: table_at_def)
qed

text \<open>The tables as \<open>paging_init\<close> leaves them, and the directory of a user process: kernel
  page, image page, low 4 MB through the shared user table, and the video table when the
  process has called \<^verbatim>\<open>vidmap\<close>.\<close>

definition tables_ok :: "paging \<Rightarrow> bool" where
  "tables_ok s \<longleftrightarrow> (\<forall>i. 0 \<le> i \<and> i < PAGE_SIZE \<longrightarrow>
     user_page_table s i = (user_pte i)\<lparr>pte_present := (if i = VIDEO_MEM_START then 1 else 0)\<rparr>)"

definition video_mapped :: "layout \<Rightarrow> paging \<Rightarrow> int \<Rightarrow> bool" where
  "video_mapped lay s p \<longleftrightarrow> page_dir_table s p VIDEO_MEM_LOAD = video_pde lay p
     \<and> (\<forall>i. 0 \<le> i \<and> i < PAGE_SIZE \<and> i \<noteq> VIDEO_MEM_START \<longrightarrow> pte_present (user_video_page s p i) = 0)
     \<and> (let e = user_video_page s p VIDEO_MEM_START
        in pte_present e = 1 \<and> pte_read_write e = 1 \<and> pte_user_supervisor e = 1
         \<and> unat (physical_page_addr e) < 1024)"

definition dir_shape :: "layout \<Rightarrow> paging \<Rightarrow> int \<Rightarrow> bool" where
  "dir_shape lay s p \<longleftrightarrow>
     (\<forall>i. 2 \<le> i \<and> i < PAGE_SIZE \<and> i \<noteq> VIDEO_MEM_LOAD \<and> i \<noteq> P_IMG \<longrightarrow> pde_present (page_dir_table s p i) = 0)
     \<and> (pde_present (page_dir_table s p VIDEO_MEM_LOAD) = 0 \<or> video_mapped lay s p)"

definition user_dir_ok :: "layout \<Rightarrow> paging \<Rightarrow> int \<Rightarrow> bool" where
  "user_dir_ok lay s p \<longleftrightarrow> dir_shape lay s p \<and> page_dir_table s p 0 = user_table_pde lay
     \<and> page_dir_table s p 1 = kernel_pde \<and> page_dir_table s p P_IMG = image_pde (of_int p)"

definition running :: "layout \<Rightarrow> paging \<Rightarrow> int \<Rightarrow> bool" where
  "running lay s p \<longleftrightarrow> cr3 s = page_dir_addr lay p AND 0xFFFFFFE7"

lemma uint_dir_index: "0 \<le> uint (drop_bit 22 (va :: u32))" "uint (drop_bit 22 (va :: u32)) < 1024"
proof -
  have "unat va < 2 ^ 32" using unsigned_less [of va, where 'a = nat] by simp
  then have "unat (drop_bit 22 va) < 1024"
    by (simp add: drop_bit_eq_div unat_div less_mult_imp_div_less)
  then show "uint (drop_bit 22 va) < 1024" unfolding uint_nat [of "drop_bit 22 va"] by linarith
qed simp

lemma uint_table_index: "0 \<le> uint (drop_bit 12 (va :: u32) AND 0x3FF)" "uint (drop_bit 12 (va :: u32) AND 0x3FF) < 1024"
proof -
  have "drop_bit 12 va AND 0x3FF \<le> 0x3FF" by (rule word_and_le1)
  then show "uint (drop_bit 12 va AND 0x3FF) < 1024" by (simp add: word_le_def)
qed simp


lemma image_frame:
  "push_bit 22 (ucast (drop_bit 10 (ucast (push_bit 10 (x :: u32)) :: 20 word))) = (push_bit 22 x :: u32)"
proof (rule bit_eqI)
  fix n :: nat
  show "bit (push_bit 22 (ucast (drop_bit 10 (ucast (push_bit 10 x) :: 20 word))) :: u32) n = bit (push_bit 22 x) n"
    by (cases "22 \<le> n") (auto simp: bit_simps)
qed

lemma running_dir:
  assumes "layout_ok lay" "running lay s p" "0 \<le> p" "p < MAX_PID"
  shows "dir_at lay s (cr3 s AND 0xFFFFF000) = Some (page_dir_table s p)"
proof -
  have "take_bit 12 (page_dir_addr lay p) = 0"
    using assms(1) offset_aligned by (simp add: layout_ok_def page_dir_addr_def)
  then have "cr3 s AND 0xFFFFF000 = page_dir_addr lay p"
    using and_page [of "page_dir_addr lay p"] assms(2) unfolding running_def by (simp only:)
  then show ?thesis using dir_at_page_dir [OF assms(3,4)] by simp
qed

lemma walk_table:
  assumes "layout_ok lay" "0 \<le> p" "p < MAX_PID"
  shows "table_at lay s (pde_val (user_table_pde lay) AND 0xFFFFF000) = Some (user_page_table s)"
    and "table_at lay s (pde_val (video_pde lay p) AND 0xFFFFF000) = Some (user_video_page s p)"
proof -
  have "take_bit 12 (user_page_table_at lay) = 0" "take_bit 12 (video_page_addr lay p) = 0"
    using assms(1) offset_aligned by (simp_all add: layout_ok_def video_page_addr_def)
  then show "table_at lay s (pde_val (user_table_pde lay) AND 0xFFFFF000) = Some (user_page_table s)"
    "table_at lay s (pde_val (video_pde lay p) AND 0xFFFFF000) = Some (user_video_page s p)"
    using table_at_cases(1,3) [OF assms(1)] assms(2,3)
    by (simp_all add: pde_val_frame user_table_pde_def video_pde_def frame_of_addr)
qed

lemma allowed_pde: "allowed u w (pde_val e) \<longleftrightarrow> pde_present e = 1 \<and> (u \<longrightarrow> pde_user_supervisor e = 1)
    \<and> (u \<and> w \<longrightarrow> pde_read_write e = 1)"
  unfolding allowed_def pde_val_bits by (rule refl)

lemma allowed_pte: "allowed u w (pte_val e) \<longleftrightarrow> pte_present e = 1 \<and> (u \<longrightarrow> pte_user_supervisor e = 1)
    \<and> (u \<and> w \<longrightarrow> pte_read_write e = 1)"
  unfolding allowed_def pte_val_bits by (rule refl)

lemma pde_fields [simp]:
  "pde_present (user_table_pde lay) = 1" "pde_read_write (user_table_pde lay) = 1"
  "pde_user_supervisor (user_table_pde lay) = 1" "pde_page_size (user_table_pde lay) = 0"
  "pde_present (video_pde lay p) = 1" "pde_read_write (video_pde lay p) = 1"
  "pde_user_supervisor (video_pde lay p) = 1" "pde_page_size (video_pde lay p) = 0"
  "pde_present (image_pde pid) = 1" "pde_read_write (image_pde pid) = 1"
  "pde_user_supervisor (image_pde pid) = 1" "pde_page_size (image_pde pid) = 1"
  "pde_present kernel_pde = 1" "pde_user_supervisor kernel_pde = 0"
  by (simp_all add: user_table_pde_def video_pde_def image_pde_def kernel_pde_def)

lemma image_large_frame: "pde_val (image_pde pid) AND 0xFFC00000 = push_bit 22 (pid + 1)"
  by (simp add: pde_val_large_frame image_pde_def image_frame)

lemma user_video_pte:
  assumes "tables_ok s" "0 \<le> t" "t < PAGE_SIZE"
  shows "allowed True w (pte_val (user_page_table s t)) \<longleftrightarrow> t = VIDEO_MEM_START"
    and "pte_val (user_page_table s VIDEO_MEM_START) AND 0xFFFFF000 = 0xB8000"
  using assms by (auto simp: tables_ok_def allowed_pte pte_val_frame user_pte_def)

text \<open>The user-mode address space of a process.\<close>

definition user_space :: "layout \<Rightarrow> paging \<Rightarrow> int \<Rightarrow> u32 \<Rightarrow> u32 option" where
  "user_space lay s p va =
    (let d = uint (drop_bit 22 va); t = uint (drop_bit 12 va AND 0x3FF) in
     if d = P_IMG then Some (push_bit 22 (of_int p + 1) OR (va AND 0x3FFFFF))
     else if d = 0 \<and> t = VIDEO_MEM_START then Some (0xB8000 OR (va AND 0xFFF))
     else if d = VIDEO_MEM_LOAD \<and> t = VIDEO_MEM_START \<and> video_mapped lay s p
       then Some (push_bit 12 (ucast (physical_page_addr (user_video_page s p VIDEO_MEM_START))) OR (va AND 0xFFF))
     else None)"

lemma user_translate:
  assumes "layout_ok lay" "tables_ok s" "user_dir_ok lay s p" "running lay s p" "0 \<le> p" "p < MAX_PID"
  shows "translate lay s True w va = user_space lay s p va"
proof -
  define d t where "d = uint (drop_bit 22 va)" and "t = uint (drop_bit 12 va AND 0x3FF)"
  note range = uint_dir_index [of va, folded d_def] uint_table_index [of va, folded t_def]
  note walk = running_dir [OF assms(1,4-6)] walk_table [OF assms(1,5,6), of s]
  note dir = assms(3) [unfolded user_dir_ok_def dir_shape_def]
  note defs = translate_def user_space_def Let_def d_def [symmetric] t_def [symmetric] walk option.case if_not_P
  consider "d = P_IMG" | "d = 0" | "d = 1" | "d = VIDEO_MEM_LOAD" "video_mapped lay s p"
    | "d = VIDEO_MEM_LOAD" "\<not> video_mapped lay s p"
    | "2 \<le> d" "d < PAGE_SIZE" "d \<noteq> VIDEO_MEM_LOAD" "d \<noteq> P_IMG"
    using range by linarith
  then show ?thesis
  proof cases
    case 1
    then have "page_dir_table s p d = image_pde (of_int p)" using dir by simp
    then show ?thesis
      using 1 unfolding defs by (simp add: allowed_pde pde_val_bits image_large_frame)
  next
    case 2
    then have "page_dir_table s p d = user_table_pde lay" using dir by simp
    then show ?thesis
      using 2 user_video_pte(1) [OF assms(2) range(3,4), of w] user_video_pte(2) [OF assms(2) range(3,4)] unfolding defs
      by (simp add: allowed_pde pde_val_bits walk)
  next
    case 4
    then have "page_dir_table s p d = video_pde lay p" by (simp add: video_mapped_def)
    moreover have "t \<noteq> VIDEO_MEM_START \<Longrightarrow> pte_present (user_video_page s p t) = 0"
      using 4 range by (simp add: video_mapped_def)
    moreover have "allowed True w (pte_val (user_video_page s p VIDEO_MEM_START))"
      using 4 by (simp add: video_mapped_def allowed_pte Let_def)
    ultimately show ?thesis
      using 4 unfolding defs
      by (cases "t = VIDEO_MEM_START") (simp_all add: allowed_pde allowed_pte pde_val_bits walk pte_val_frame)
  qed (use dir in \<open>simp_all add: defs allowed_pde\<close>)
qed


section \<open>The operations build and keep this address space\<close>

definition paging_ok :: "layout \<Rightarrow> paging \<Rightarrow> bool" where
  "paging_ok lay s \<longleftrightarrow> tables_ok s \<and> (\<forall>p. 1 \<le> p \<and> p < MAX_PID \<longrightarrow> dir_shape lay s p)"

lemma load_cr3_frame [simp]:
  "page_dir_table (load_cr3 b a s) = page_dir_table s" "user_page_table (load_cr3 b a s) = user_page_table s"
  "user_video_page (load_cr3 b a s) = user_video_page s" "cr3 (load_cr3 b a s) = a AND 0xFFFFFFE7"
  by (simp_all add: load_cr3_def)

lemma set_pde_frame [simp]:
  "page_dir_table (set_pde p i e s) = (page_dir_table s)(p := (page_dir_table s p)(i := e))"
  "user_page_table (set_pde p i e s) = user_page_table s"
  "user_video_page (set_pde p i e s) = user_video_page s" "cr3 (set_pde p i e s) = cr3 s"
  by (simp_all add: set_pde_def)

lemma set_video_pte_frame [simp]:
  "user_video_page (set_video_pte p i e s) = (user_video_page s)(p := (user_video_page s p)(i := e))"
  "page_dir_table (set_video_pte p i e s) = page_dir_table s"
  "user_page_table (set_video_pte p i e s) = user_page_table s" "cr3 (set_video_pte p i e s) = cr3 s"
  by (simp_all add: set_video_pte_def)

lemma set_pde_loop:
  "page_dir_table (for_range lo hi (\<lambda>i. set_pde p i (e i)) s) q
     = (if q = p then (\<lambda>i. if lo \<le> i \<and> i < hi then e i else page_dir_table s p i) else page_dir_table s q)"
  "user_page_table (for_range lo hi (\<lambda>i. set_pde p i (e i)) s) = user_page_table s"
  by (auto simp: for_range_frame [where g = user_page_table]
      for_range_frame [where g = "\<lambda>t. page_dir_table t q"]
      for_range_hom [where g = "\<lambda>t. page_dir_table t p" and h = "\<lambda>i a. a(i := e i)"] for_range_fill)

lemma set_video_pte_loop:
  "user_video_page (for_range lo hi (\<lambda>i. set_video_pte p i (e i)) s) q
     = (if q = p then (\<lambda>i. if lo \<le> i \<and> i < hi then e i else user_video_page s p i) else user_video_page s q)"
  "user_page_table (for_range lo hi (\<lambda>i. set_video_pte p i (e i)) s) = user_page_table s"
  "page_dir_table (for_range lo hi (\<lambda>i. set_video_pte p i (e i)) s) = page_dir_table s"
  by (auto simp: for_range_frame [where g = user_page_table] for_range_frame [where g = page_dir_table]
      for_range_frame [where g = "\<lambda>t. user_video_page t q"]
      for_range_hom [where g = "\<lambda>t. user_video_page t p" and h = "\<lambda>i a. a(i := e i)"] for_range_fill)

lemma paging_init_ok:
  assumes "\<And>p i. 1 \<le> p \<Longrightarrow> p < MAX_PID \<Longrightarrow> 0 \<le> i \<Longrightarrow> i < PAGE_SIZE \<Longrightarrow> pde_present (page_dir_table s p i) = 0"
  shows "paging_ok lay (paging_init lay s)"
proof -
  let ?step = "\<lambda>i s. s\<lparr>page_table := (page_table s)(i := kernel_pte i),
                user_page_table := (user_page_table s)(i := user_pte i)\<rparr>"
  have "user_page_table (for_range 0 PAGE_SIZE ?step s)
      = for_range 0 PAGE_SIZE (\<lambda>i a. a(i := user_pte i)) (user_page_table s)"
    by (rule for_range_hom) simp
  then have "user_page_table (paging_init lay s) i
      = (user_pte i)\<lparr>pte_present := (if i = VIDEO_MEM_START then 1 else 0)\<rparr>" if "0 \<le> i" "i < PAGE_SIZE" for i
    using that by (simp add: paging_init_def Let_def set_pde_loop for_range_fill user_pte_def)
  moreover have "page_dir_table (for_range 0 PAGE_SIZE ?step s) = page_dir_table s"
    by (rule for_range_frame) simp
  then have "page_dir_table (paging_init lay s) p = page_dir_table s p" if "1 \<le> p" for p
    using that by (simp add: paging_init_def Let_def set_pde_loop)
  ultimately show ?thesis
    using assms by (auto simp: paging_ok_def tables_ok_def dir_shape_def)
qed

lemma paging_allocate_ok:
  assumes "paging_ok lay s" "1 \<le> uint pid" "uint pid < MAX_PID"
  shows "fst (paging_allocate lay pid s) = 0" "paging_ok lay (snd (paging_allocate lay pid s))"
    and "user_dir_ok lay (snd (paging_allocate lay pid s)) (uint pid)"
    and "user_dir_ok lay s q \<Longrightarrow> user_dir_ok lay (snd (paging_allocate lay pid s)) q"
proof -
  have "\<not> MAX_PID \<le> uint pid" using assms(3) by linarith
  note def = paging_allocate_def if_not_P [OF this]
  show "fst (paging_allocate lay pid s) = 0" unfolding def by simp
  show ok: "paging_ok lay (snd (paging_allocate lay pid s))"
    using assms unfolding def
    by (auto simp: paging_ok_def tables_ok_def dir_shape_def video_mapped_def)
  show "user_dir_ok lay (snd (paging_allocate lay pid s)) (uint pid)"
    using assms unfolding def
    by (auto simp: user_dir_ok_def paging_ok_def tables_ok_def dir_shape_def video_mapped_def)
  show "user_dir_ok lay s q \<Longrightarrow> user_dir_ok lay (snd (paging_allocate lay pid s)) q"
    unfolding def by (auto simp: user_dir_ok_def dir_shape_def video_mapped_def)
qed


lemma paging_update_control_ok:
  assumes "0 \<le> uint pid" "uint pid < MAX_PID"
  shows "fst (paging_update_control lay pid s) = 0"
    and "running lay (snd (paging_update_control lay pid s)) (uint pid)"
    and "paging_ok lay (snd (paging_update_control lay pid s)) \<longleftrightarrow> paging_ok lay s"
    and "user_dir_ok lay (snd (paging_update_control lay pid s)) q \<longleftrightarrow> user_dir_ok lay s q"
    and "video_mapped lay (snd (paging_update_control lay pid s)) q \<longleftrightarrow> video_mapped lay s q"
  using assms
  by (auto simp: paging_update_control_def running_def paging_ok_def tables_ok_def dir_shape_def
      video_mapped_def user_dir_ok_def)

lemma paging_map_video_ok:
  assumes "paging_ok lay s" "1 \<le> uint pid" "uint pid < MAX_PID"
  shows "\<exists>s'. paging_map_video lay pid s = (0, s', Some 0x7CB8000) \<and> paging_ok lay s'
    \<and> video_mapped lay s' (uint pid) \<and> running lay s' (uint pid)
    \<and> physical_page_addr (user_video_page s' (uint pid) VIDEO_MEM_START) = 0xB8
    \<and> (\<forall>q. user_dir_ok lay s q \<longrightarrow> user_dir_ok lay s' q)"
proof -
  have "\<not> MAX_PID \<le> uint pid" using assms(3) by linarith
  note def = paging_map_video_def if_not_P [OF this] Let_def
  define s' where "s' = fst (snd (paging_map_video lay pid s))"
  have map: "paging_map_video lay pid s = (0, s', Some 0x7CB8000)"
    unfolding s'_def def by simp
  have fields: "user_page_table s' = user_page_table s"
    "page_dir_table s' = (page_dir_table s)(uint pid := (page_dir_table s (uint pid))(VIDEO_MEM_LOAD := video_pde lay (uint pid)))"
    "cr3 s' = page_dir_addr lay (uint pid) AND 0xFFFFFFE7"
    "user_video_page s' q = (if q = uint pid then (\<lambda>i. if 0 \<le> i \<and> i < PAGE_SIZE
       then if i = VIDEO_MEM_START then unused_video_pte\<lparr>physical_page_addr := 0xB8, pte_present := 1, pte_user_supervisor := 1\<rparr>
            else unused_video_pte else user_video_page s q i) else user_video_page s q)" for q
    unfolding s'_def def by (auto simp: set_video_pte_loop fun_eq_iff)
  have vid: "video_mapped lay s' (uint pid)"
    by (simp add: video_mapped_def fields Let_def unused_video_pte_def)
  moreover have keep: "dir_shape lay s' q" if "dir_shape lay s q" for q
    using that vid by (cases "q = uint pid") (auto simp: dir_shape_def video_mapped_def fields)
  moreover have "paging_ok lay s'" using assms(1) keep by (simp add: paging_ok_def tables_ok_def fields)
  moreover have "user_dir_ok lay s' q" if "user_dir_ok lay s q" for q
    using that keep by (auto simp: user_dir_ok_def fields)
  ultimately show ?thesis using map fields by (simp add: running_def)
qed

lemma update_video_paging_ok:
  assumes "paging_ok lay s"
  shows "paging_ok lay (update_video_paging lay pid addr s)"
    and "user_dir_ok lay s q \<Longrightarrow> user_dir_ok lay (update_video_paging lay pid addr s) q"
    and "video_mapped lay s q \<Longrightarrow> video_mapped lay (update_video_paging lay pid addr s) q"
proof -
  let ?s = "update_video_paging lay pid addr s"
  have "unat (ucast (drop_bit 12 addr AND 0x3FF) :: 20 word) < 1024"
  proof -
    have "drop_bit 12 addr AND 0x3FF \<le> 0x3FF" by (rule word_and_le1)
    then have "unat (drop_bit 12 addr AND 0x3FF) < 1024" by (simp add: word_le_nat_alt)
    then show ?thesis by (simp add: unsigned_ucast_eq take_bit_nat_eq_self)
  qed
  then show vid: "video_mapped lay ?s q" if "video_mapped lay s q" for q
    using that by (cases "q = uint pid") (auto simp: video_mapped_def update_video_paging_def Let_def)
  show "paging_ok lay ?s" "user_dir_ok lay s q \<Longrightarrow> user_dir_ok lay ?s q"
    using assms vid
    by (auto simp: paging_ok_def tables_ok_def dir_shape_def user_dir_ok_def update_video_paging_def Let_def)
qed

lemma page_or:
  assumes "take_bit n x = 0"
  shows "drop_bit n (x OR (va AND mask n)) = drop_bit n (x :: u32)"
  by (rule bit_eqI) (auto simp: bit_simps)

lemma user_space_frames:
  assumes "user_space lay s p va = Some pa" "0 \<le> p" "p < MAX_PID"
  shows "uint (drop_bit 22 pa) = p + 1 \<or> drop_bit 12 pa = 0xB8
    \<or> video_mapped lay s p \<and> drop_bit 12 pa = ucast (physical_page_addr (user_video_page s p VIDEO_MEM_START))"
proof -
  have big: "drop_bit 22 (push_bit 22 (of_int p + 1) OR (va AND 0x3FFFFF)) = (of_int (p + 1) :: u32)"
  proof (rule bit_eqI)
    fix n :: nat
    have "bit (of_int (p + 1) :: u32) n \<Longrightarrow> n < 5"
    proof -
      assume n: "bit (of_int (p + 1) :: u32) n"
      have "take_bit 5 (of_int (p + 1) :: u32) = of_int (p + 1)"
        using assms(2,3) by (simp add: take_bit_of_int take_bit_int_eq_self flip: of_int_add)
      then show "n < 5" using n by (metis bit_take_bit_iff)
    qed
    then show "bit (drop_bit 22 (push_bit 22 (of_int p + 1) OR (va AND 0x3FFFFF)) :: u32) n = bit (of_int (p + 1) :: u32) n"
      unfolding page_mask by (auto simp: bit_simps)
  qed
  moreover have "uint (of_int (p + 1) :: u32) = p + 1" using assms(2,3) by (intro uint_of_int_u32) simp_all
  moreover have "drop_bit 12 (0xB8000 OR (va AND 0xFFF)) = (0xB8 :: u32)"
    using page_or [of 12 "0xB8000" va] unfolding page_mask by simp
  moreover have "drop_bit 12 (push_bit 12 (ucast f) OR (va AND 0xFFF)) = (ucast f :: u32)" for f :: "20 word"
    unfolding page_mask by (rule bit_eqI) (auto simp: bit_simps dest: bit_imp_le_length)
  ultimately show ?thesis
    using assms(1) unfolding user_space_def Let_def by (auto split: if_splits)
qed


lemma unat_frame: "unat (ucast (f :: 20 word) :: u32) = unat f"
  using unsigned_less [of f, where 'a = nat] by (simp add: unsigned_ucast_eq take_bit_nat_eq_self)

lemma low_frame:
  assumes "drop_bit 12 (pa :: u32) = x" "unat x < 1024"
  shows "uint (drop_bit 22 pa) = 0"
proof -
  have "drop_bit 22 pa = drop_bit 10 x" unfolding assms(1) [symmetric] by simp
  moreover have "unat (drop_bit 10 x) = 0" using assms(2) by (simp add: drop_bit_eq_div unat_div)
  ultimately show ?thesis by (simp add: unat_eq_zero unat_0_iff)
qed

section \<open>Properties\<close>

text \<open>C1: Processes are isolated.  Let process \<open>p\<close> (1 to 15) have an allocated address space and
  let \<open>paging_update_control\<close> switch to it.  Then its image at 128 MB is the physical 4 MB
  page number \<open>p + 1\<close>, and every user-mode access that translates at all goes to that page
  or to the lowest 4 MB of memory.  In particular no user-mode access reaches the kernel
  (page 1) or the image of any other process.\<close>

theorem process_isolation:
  assumes "layout_ok lay" "paging_ok lay s" "user_dir_ok lay s p" "1 \<le> p" "p < MAX_PID"
    and "s' = snd (paging_update_control lay (of_int p) s)"
  shows "(uint (drop_bit 22 va) = P_IMG \<longrightarrow>
      translate lay s' True w va = Some (push_bit 22 (of_int p + 1) OR (va AND 0x3FFFFF)))
    \<and> (translate lay s' True w va = Some pa \<longrightarrow>
        uint (drop_bit 22 pa) = p + 1 \<or> uint (drop_bit 22 pa) = 0)
    \<and> (translate lay s' True w va = Some pa \<and> 1 \<le> q \<and> q < MAX_PID \<and> q \<noteq> p \<longrightarrow>
        uint (drop_bit 22 pa) \<noteq> q + 1 \<and> uint (drop_bit 22 pa) \<noteq> 1)"
proof -
  have p: "uint (of_int p :: u32) = p" using assms(4,5) by (intro uint_of_int_u32) simp_all
  have range: "0 \<le> uint (of_int p :: u32)" "uint (of_int p :: u32) < MAX_PID" using p assms(4,5) by simp_all
  note ctl = paging_update_control_ok [OF range, of lay s, unfolded p, folded assms(6)]
  have walk: "translate lay s' True w va = user_space lay s' p va"
    by (rule user_translate) (use assms ctl in \<open>auto simp: paging_ok_def\<close>)
  have low: "uint (drop_bit 22 pa) = p + 1 \<or> uint (drop_bit 22 pa) = 0" if pa: "user_space lay s' p va = Some pa"
  proof -
    have "video_mapped lay s' p \<Longrightarrow> unat (ucast (physical_page_addr (user_video_page s' p VIDEO_MEM_START)) :: u32) < 1024"
      by (simp add: video_mapped_def Let_def unat_frame)
    then show ?thesis
      using user_space_frames [OF pa] low_frame [of pa "0xB8"] low_frame [of pa] assms(4,5) by auto
  qed
  show ?thesis unfolding walk using low assms(4) by (auto simp: user_space_def Let_def)
qed

text \<open>A concrete layout and the zero-initialised static tables.\<close>

definition sample_layout :: layout where
  "sample_layout = \<lparr>page_dir_table_at = 0x420000, page_table_at = 0x410000,
     user_page_table_at = 0x411000, user_video_page_at = 0x440000\<rparr>"

definition zero_paging :: paging where
  "zero_paging = \<lparr>page_dir_table = (\<lambda>_ _. \<lparr>pde_present = 0, pde_read_write = 0, pde_user_supervisor = 0,
       pde_write_through = 0, pde_cache_disabled = 0, pde_accessed = 0, pde_zero = 0, pde_page_size = 0,
       pde_global = 0, pde_avail = 0, page_table_addr = 0\<rparr>),
     page_table = kernel_pte, user_page_table = kernel_pte, user_video_page = (\<lambda>_. kernel_pte), cr0 = 0, cr3 = 0, cr4 = 0\<rparr>"

lemma sample_layout_ok: "layout_ok sample_layout"
  by (simp add: layout_ok_def sample_layout_def video_page_addr_def upto.simps)

lemma zero_paging_ok: "paging_ok lay (paging_init lay zero_paging)"
  by (rule paging_init_ok) (simp add: zero_paging_def)

theorem process_isolation_witness:
  "let s = snd (paging_allocate sample_layout 3 (paging_init sample_layout zero_paging));
       s' = snd (paging_update_control sample_layout 3 s)
   in translate sample_layout s' True True 0x8048000 = Some 0x1048000"
proof -
  define s where "s = snd (paging_allocate sample_layout 3 (paging_init sample_layout zero_paging))"
  have 3: "1 \<le> uint (3 :: u32)" "uint (3 :: u32) < MAX_PID" by simp_all
  have "paging_ok sample_layout s" "user_dir_ok sample_layout s 3"
    using paging_allocate_ok [OF zero_paging_ok 3, of sample_layout] unfolding s_def by simp_all
  then show ?thesis
    using process_isolation [OF sample_layout_ok, of s 3 "snd (paging_update_control sample_layout 3 s)" "0x8048000" True]
    by (simp add: s_def Let_def)
qed



text \<open>C31: The window of a process that has called \<^verbatim>\<open>vidmap\<close> is redirected modulo 4 MB.  After
  \<open>update_video_paging\<close> with a page-aligned address the user address 0x7CB8000 leads to that
  address modulo 4 MB, so it leads to the address itself exactly when it is below 4 MB: for
  a text buffer inside the kernel image, which starts at 4 MB, the window shows another
  page.\<close>

theorem video_remap_window:
  assumes "layout_ok lay" "paging_ok lay s" "user_dir_ok lay s p" "video_mapped lay s p" "1 \<le> p" "p < MAX_PID"
    and "take_bit 12 addr = 0" "s' = update_video_paging lay (of_int p) addr s"
  shows "translate lay s' True w 0x7CB8000 = Some (addr AND 0x3FFFFF)
    \<and> (translate lay s' True w 0x7CB8000 = Some addr \<longleftrightarrow> unat addr < 0x400000)"
proof -
  have p: "uint (of_int p :: u16) = p" using assms(5,6) by (simp add: unsigned_of_int take_bit_int_eq_self)
  note keep = update_video_paging_ok [OF assms(2), where pid = "of_int p" and addr = addr, folded assms(8)]
  have "translate lay s' True w 0x7CB8000 = user_space lay s' p 0x7CB8000"
    by (rule user_translate)
      (use assms keep p in \<open>auto simp: paging_ok_def running_def update_video_paging_def Let_def\<close>)
  also have "\<dots> = Some (push_bit 12 (ucast (ucast (drop_bit 12 addr AND 0x3FF) :: 20 word)))"
    using keep(3) [OF assms(4)] p unfolding assms(8) by (simp add: user_space_def update_video_paging_def Let_def)
  also have "push_bit 12 (ucast (ucast (drop_bit 12 addr AND 0x3FF) :: 20 word)) = addr AND 0x3FFFFF"
    unfolding page_mask
  proof (rule bit_eqI)
    fix n :: nat
    show "bit (push_bit 12 (ucast (ucast (drop_bit 12 addr AND mask 10) :: 20 word)) :: u32) n = bit (addr AND mask 22) n"
      using aligned_bit [OF assms(7), of n] by (cases "12 \<le> n") (auto simp: bit_simps)
  qed
  finally have walk: "translate lay s' True w 0x7CB8000 = Some (addr AND 0x3FFFFF)" .
  have "addr AND 0x3FFFFF = addr \<longleftrightarrow> unat addr < 0x400000"
  proof -
    have "addr AND 0x3FFFFF = take_bit 22 addr" unfolding page_mask take_bit_eq_mask ..
    moreover have "unat (take_bit 22 addr) = unat addr mod 0x400000"
      by (simp add: take_bit_eq_mod unat_mod)
    moreover have "unat addr mod 0x400000 = unat addr \<longleftrightarrow> unat addr < 0x400000"
      by (metis mod_less mod_less_divisor zero_less_numeral)
    ultimately show ?thesis by (simp add: word_unat_eq_iff)
  qed
  then show ?thesis using walk by simp
qed

theorem video_remap_window_witness:
  "let s = snd (paging_allocate sample_layout 3 (paging_init sample_layout zero_paging));
       v = fst (snd (paging_map_video sample_layout 3 s))
   in translate sample_layout (update_video_paging sample_layout 3 0x450000 v) True True 0x7CB8000 = Some 0x50000"
proof -
  define s where "s = snd (paging_allocate sample_layout 3 (paging_init sample_layout zero_paging))"
  define v where "v = fst (snd (paging_map_video sample_layout 3 s))"
  have 3: "1 \<le> uint (3 :: u32)" "uint (3 :: u32) < MAX_PID" by simp_all
  have s: "paging_ok sample_layout s" "user_dir_ok sample_layout s 3"
    using paging_allocate_ok [OF zero_paging_ok 3, of sample_layout] unfolding s_def by simp_all
  have v: "paging_ok sample_layout v" "user_dir_ok sample_layout v 3" "video_mapped sample_layout v 3"
    using paging_map_video_ok [OF s(1) 3] s(2) unfolding v_def by auto
  show ?thesis
    using video_remap_window [OF sample_layout_ok v, of "0x450000" "update_video_paging sample_layout 3 0x450000 v"]
    by (simp add: s_def v_def Let_def)
qed

end
