(* ===== verification/Pcb.thy ===== *)
theory Pcb
  imports Tasks
begin

text \<open>
  Process control blocks: \<^verbatim>\<open>student-distrib/kernel/pcb.c\<close> and \<^verbatim>\<open>pcb.h\<close>.  A block is a
  record with its eight file descriptors; the jump tables are the constructors of
  \<open>driver\<close>.  A block lies at the low end of the process's 8 kB kernel stack;
  \<open>get_pcb\<close> and \<open>pcb_process\<close> compute its address from the process identifier and from the
  stack pointer.  The file descriptors are the second interpretation of \<open>slot_allocator\<close>.
\<close>

abbreviation KERNEL_MEM_END :: u32 where "KERNEL_MEM_END \<equiv> 0x00800000"
abbreviation KERNEL_STACK_SIZE :: u32 where "KERNEL_STACK_SIZE \<equiv> 0x2000"
abbreviation PCB_MASK :: u32 where "PCB_MASK \<equiv> 0xFFFFE000"
abbreviation FD_MAX :: int where "FD_MAX \<equiv> 8"

section \<open>Data\<close>

text \<open>The function-pointer tables; \<open>Wild_driver\<close> is a pointer that was never set.\<close>

datatype driver = Null_driver | Rtc_driver | File_driver | Dir_driver | Terminal_driver | Wild_driver u32

record file_descriptor_element =
  file_operation_jmp_tbl :: driver
  inode_ptr :: u32
  file_position :: u32
  flags :: u32

record pcb =
  elements :: "int \<Rightarrow> file_descriptor_element"
  parent_pcb :: u32
  child :: u32
  esp_reg :: u32
  ebp_reg :: u32
  pcb_pid :: u16
  pcb_args :: "u8 arr"
  pcb_vidmap :: u8
  pcb_term :: int
  rtc_fd :: u8
  rtc :: u8
  rtc_rate :: int

section \<open>Operations\<close>

definition pcb_init :: "pcb \<Rightarrow> pcb" where
  "pcb_init pcb =
     (let pcb = pcb\<lparr>pcb_term := 0\<rparr>;
          es = for_range 0 FD_MAX (\<lambda>i es. es(i :=
            \<lparr>file_operation_jmp_tbl = Null_driver, inode_ptr = 0, file_position = 0, flags = 0\<rparr>)) (elements pcb);
          es = es(0 := (es 0)\<lparr>file_operation_jmp_tbl := Terminal_driver, flags := 1\<rparr>);
          es = es(1 := (es 1)\<lparr>file_operation_jmp_tbl := Terminal_driver, flags := 1\<rparr>)
      in pcb\<lparr>elements := es\<rparr>)"

function pcb_open_loop :: "int \<Rightarrow> driver \<Rightarrow> pcb \<Rightarrow> int \<times> pcb" where
  "pcb_open_loop i file_op_tbl pcb =
     (if i < FD_MAX then
        if flags (elements pcb i) = 0 then
          (i, pcb\<lparr>elements := (elements pcb)(i :=
             \<lparr>file_operation_jmp_tbl = file_op_tbl, inode_ptr = 0, file_position = 0, flags = 1\<rparr>)\<rparr>)
        else pcb_open_loop (i + 1) file_op_tbl pcb
      else (-1, pcb))"
  by pat_completeness auto
termination
  by (relation "measure (\<lambda>(i, _). nat (FD_MAX - i))") auto

declare pcb_open_loop.simps [simp del]

definition pcb_open :: "driver \<Rightarrow> pcb \<Rightarrow> int \<times> pcb" where
  "pcb_open file_op_tbl pcb = pcb_open_loop 2 file_op_tbl pcb"

definition pcb_close :: "u8 \<Rightarrow> pcb \<Rightarrow> int \<times> pcb" where
  "pcb_close fd pcb =
     (if FD_MAX \<le> uint fd then (-1, pcb)
      else (0, pcb\<lparr>elements := (elements pcb)(uint fd := (elements pcb (uint fd))\<lparr>flags := 0\<rparr>)\<rparr>))"

definition pcb_process :: "u32 \<Rightarrow> u32" where
  "pcb_process esp_curr = esp_curr AND PCB_MASK"

definition get_pcb :: "16 word \<Rightarrow> u32" where
  "get_pcb pid =
     (let pcb_addr = KERNEL_MEM_END - 1;
          pcb_addr = pcb_addr - KERNEL_STACK_SIZE * of_int (sint pid)
      in pcb_addr AND (NOT KERNEL_STACK_SIZE + 1))"

section \<open>File descriptors as slots\<close>

definition open_fds :: "pcb \<Rightarrow> int set" where
  "open_fds pcb = {i. 2 \<le> i \<and> i < FD_MAX \<and> flags (elements pcb i) \<noteq> 0}"

lemma pcb_open_loop_full:
  "\<forall>j. i \<le> j \<and> j < FD_MAX \<longrightarrow> flags (elements p j) \<noteq> 0 \<Longrightarrow> pcb_open_loop i tbl p = (-1, p)"
  by (induction i tbl p rule: pcb_open_loop.induct)
    (simp add: pcb_open_loop.simps [of _ "tbl" "p" for tbl p])

lemma pcb_open_loop_first:
  assumes "i \<le> j" "j < FD_MAX" "flags (elements p j) = 0" "\<forall>k. i \<le> k \<and> k < j \<longrightarrow> flags (elements p k) \<noteq> 0"
  shows "pcb_open_loop i tbl p = (j, p\<lparr>elements := (elements p)(j :=
     \<lparr>file_operation_jmp_tbl = tbl, inode_ptr = 0, file_position = 0, flags = 1\<rparr>)\<rparr>)"
  using assms
proof (induction i tbl p rule: pcb_open_loop.induct)
  case (1 i tbl p)
  show ?case
  proof (cases "i = j")
    case True
    with 1 show ?thesis by (subst pcb_open_loop.simps) simp
  next
    case False
    with 1 show ?thesis by (simp add: pcb_open_loop.simps [of i tbl p])
  qed
qed

lemma pcb_open_first:
  assumes "j \<in> {2..<FD_MAX}" "j \<notin> open_fds p" "{2..<j} \<subseteq> open_fds p"
  shows "pcb_open tbl p = (j, p\<lparr>elements := (elements p)(j :=
     \<lparr>file_operation_jmp_tbl = tbl, inode_ptr = 0, file_position = 0, flags = 1\<rparr>)\<rparr>)"
  using assms by (auto simp: pcb_open_def open_fds_def subset_iff intro!: pcb_open_loop_first)

lemma uint_fd: "0 \<le> j \<Longrightarrow> j < FD_MAX \<Longrightarrow> uint (of_int j :: u8) = j"
  by (simp add: unsigned_of_int take_bit_int_eq_self)

interpretation fds: slot_allocator "pcb_open tbl" "\<lambda>fd p. snd (pcb_close (of_int fd) p)" open_fds 2 FD_MAX
  for tbl
proof
  fix s
  assume "{2..<FD_MAX} \<subseteq> open_fds s"
  then show "pcb_open tbl s = (-1, s)"
    by (auto simp: pcb_open_def open_fds_def intro!: pcb_open_loop_full)
next
  fix j s
  assume j: "j \<in> {2..<FD_MAX}" "j \<notin> open_fds s" "{2..<j} \<subseteq> open_fds s"
  show "fst (pcb_open tbl s) = j \<and> open_fds (snd (pcb_open tbl s)) = insert j (open_fds s)"
    using pcb_open_first [OF j, of tbl] j(1) by (auto simp: open_fds_def)
next
  fix j s
  assume "j \<in> {2..<FD_MAX}"
  then show "open_fds (snd (pcb_close (of_int j) s)) = open_fds s - {j}"
    by (auto simp: pcb_close_def open_fds_def uint_fd)
qed auto

lemma pcb_init_fds [simp]: "open_fds (pcb_init p) = {}"
  by (auto simp: open_fds_def pcb_init_def Let_def loop_simps)


section \<open>Addresses\<close>

lemma pcb_mask_offset:
  assumes "a AND 0x1FFF = 0" "unat k < 0x2000"
  shows "pcb_process (a + k) = a"
proof -
  have k: "take_bit 13 k = k"
    using assms(2) by (simp add: word_unat_eq_iff unsigned_take_bit_eq take_bit_nat_eq_self)
  have k': "k AND 0x1FFF = k" using k by (simp add: take_bit_eq_mask mask_eq_exp_minus_1)
  have "a AND k = (a AND 0x1FFF) AND k"
    unfolding and.assoc and.commute [of "0x1FFF" k] k' ..
  then have "a AND k = 0" unfolding assms(1) by simp
  then have "a + k = a OR k" by (rule disjunctive_add_eq_or)
  moreover have "a AND PCB_MASK = a"
  proof -
    have "a = (a AND 0x1FFF) OR (a AND NOT 0x1FFF)"
      unfolding bit.conj_disj_distrib [symmetric] by simp
    moreover have not: "NOT 0x1FFF = PCB_MASK" by simp
    ultimately have "a = 0 OR (a AND PCB_MASK)" unfolding assms(1) not by (simp only:)
    then show ?thesis by simp
  qed
  moreover have "k AND PCB_MASK = 0"
  proof -
    have "k AND PCB_MASK = (k AND 0x1FFF) AND PCB_MASK" unfolding k' ..
    then show ?thesis unfolding and.assoc by simp
  qed
  ultimately show ?thesis
    by (simp add: pcb_process_def bit.conj_disj_distrib2)
qed


lemma get_pcb_aligned: "p < 16 \<Longrightarrow> get_pcb (of_nat p) AND 0x1FFF = 0"
  by (drule below_16) (elim UnE insertE emptyE; simp add: get_pcb_def)

lemma unat_get_pcb: "p < 16 \<Longrightarrow> unat (get_pcb (of_nat p)) = 0x800000 - 0x2000 * (p + 1)"
  by (drule below_16) (elim UnE insertE emptyE; simp add: get_pcb_def)

text \<open>A block with everything zero, for examples.\<close>

definition sample_pcb :: pcb where
  "sample_pcb = \<lparr>elements = (\<lambda>_. \<lparr>file_operation_jmp_tbl = Null_driver, inode_ptr = 0, file_position = 0, flags = 0\<rparr>),
     parent_pcb = 0, child = 0, esp_reg = 0, ebp_reg = 0, pcb_pid = 0, pcb_args = (\<lambda>_. 0), pcb_vidmap = 0,
     pcb_term = 0, rtc_fd = 0, rtc = 0, rtc_rate = 0\<rparr>"

section \<open>Properties\<close>

text \<open>C30: File descriptors are allocated first-fit.  \<open>pcb_open\<close> fails with -1, changing nothing,
  exactly when the descriptors 2 to 7 are all open; otherwise it returns the lowest closed
  one of them, opens it at position 0 with the given jump table, and leaves every other
  descriptor (stdin and stdout included) alone.  Closing the descriptor restores the set of
  open descriptors.  A block fresh from \<open>pcb_init\<close> has exactly stdin and stdout open on the
  terminal driver, and room for six more files.\<close>

theorem fd_allocation:
  "(fst (pcb_open tbl p) = -1 \<longleftrightarrow> {2..<FD_MAX} \<subseteq> open_fds p)
   \<and> (fst (pcb_open tbl p) = -1 \<longrightarrow> snd (pcb_open tbl p) = p)
   \<and> (\<forall>fd p'. pcb_open tbl p = (fd, p') \<and> fd \<noteq> -1 \<longrightarrow>
        fd \<in> {2..<FD_MAX} - open_fds p \<and> {2..<fd} \<subseteq> open_fds p
      \<and> elements p' fd = \<lparr>file_operation_jmp_tbl = tbl, inode_ptr = 0, file_position = 0, flags = 1\<rparr>
      \<and> (\<forall>i. i \<noteq> fd \<longrightarrow> elements p' i = elements p i)
      \<and> open_fds (snd (pcb_close (of_int fd) p')) = open_fds p)
   \<and> (\<forall>i \<in> {0, 1}. flags (elements (pcb_init p) i) = 1
        \<and> file_operation_jmp_tbl (elements (pcb_init p) i) = Terminal_driver)
   \<and> fst (fds.alloc_n tbl 6 (pcb_init p)) = [2..7]"
proof -
  have "fd \<in> {2..<FD_MAX} - open_fds p \<and> {2..<fd} \<subseteq> open_fds p
      \<and> elements p' fd = \<lparr>file_operation_jmp_tbl = tbl, inode_ptr = 0, file_position = 0, flags = 1\<rparr>
      \<and> (\<forall>i. i \<noteq> fd \<longrightarrow> elements p' i = elements p i)
      \<and> open_fds (snd (pcb_close (of_int fd) p')) = open_fds p"
    if "pcb_open tbl p = (fd, p')" "fd \<noteq> -1" for fd p'
  proof -
    have fd: "fd \<in> {2..<FD_MAX}" "fd \<notin> open_fds p" "{2..<fd} \<subseteq> open_fds p"
      using fds.alloc_fresh [of tbl p] that by simp_all
    then show ?thesis
      using pcb_open_first [OF fd, of tbl] fds.release_undoes_alloc [of tbl p] that by auto
  qed
  moreover have "\<forall>i \<in> {0, 1}. flags (elements (pcb_init p) i) = 1
        \<and> file_operation_jmp_tbl (elements (pcb_init p) i) = Terminal_driver"
    by (simp add: pcb_init_def Let_def)
  moreover have "fst (pcb_open tbl p) = -1 \<longrightarrow> snd (pcb_open tbl p) = p"
    using fds.alloc_cases [of p tbl] by fastforce
  ultimately show ?thesis
    using fds.alloc_fails_iff [of tbl p] fds.alloc_n_empty [of "pcb_init p" 6 tbl] by simp
qed

theorem fd_allocation_witness:
  "let p = pcb_init \<lparr>elements = (\<lambda>_. \<lparr>file_operation_jmp_tbl = Null_driver, inode_ptr = 7, file_position = 9, flags = 1\<rparr>),
         parent_pcb = 0, child = 0, esp_reg = 0, ebp_reg = 0, pcb_pid = 1, pcb_args = (\<lambda>_. 0), pcb_vidmap = 0,
         pcb_term = 2, rtc_fd = 0, rtc = 0, rtc_rate = 0\<rparr>
   in fst (pcb_open File_driver p) = 2"
proof -
  have "fst (pcb_open File_driver (pcb_init q)) = 2" for q
  proof -
    note * = fd_allocation [of File_driver "pcb_init q"]
    have "fst (pcb_open File_driver (pcb_init q)) \<noteq> -1" using * by auto
    with * have "{2..<fst (pcb_open File_driver (pcb_init q))} \<subseteq> {}"
      "fst (pcb_open File_driver (pcb_init q)) \<in> {2..<FD_MAX}"
      by (cases "pcb_open File_driver (pcb_init q)"; auto)+
    then show ?thesis by auto
  qed
  then show ?thesis by (simp add: Let_def)
qed

text \<open>The two ways of finding a process control block agree.  For a process identifier
  below 16 \<open>get_pcb\<close> returns the base of the process's own 8 kB slice below 8 MB, every
  stack pointer inside that slice leads \<open>pcb_process\<close> to the same block, and the slices of
  two processes do not overlap.\<close>

theorem pcb_addressing:
  assumes "p < 16" "unat k < 0x2000"
  shows "unat (get_pcb (of_nat p)) = 0x800000 - 0x2000 * (p + 1)
    \<and> pcb_process (get_pcb (of_nat p) + k) = get_pcb (of_nat p)
    \<and> (q < 16 \<and> unat l < 0x2000 \<and> get_pcb (of_nat p) + k = get_pcb (of_nat q) + l \<longrightarrow> p = q \<and> k = l)"
proof -
  have "p = q \<and> k = l" if "q < 16" "unat l < 0x2000" "get_pcb (of_nat p) + k = get_pcb (of_nat q) + l"
  proof -
    have "get_pcb (of_nat p) = get_pcb (of_nat q)"
      using pcb_mask_offset [OF get_pcb_aligned assms(2)] pcb_mask_offset [OF get_pcb_aligned that(2)] assms(1) that
      by metis
    moreover have "p = q" using unat_get_pcb [OF assms(1)] unat_get_pcb [OF that(1)] calculation assms(1) that(1)
      by simp
    ultimately show ?thesis using that(3) by simp
  qed
  then show ?thesis
    using unat_get_pcb [OF assms(1)] pcb_mask_offset [OF get_pcb_aligned [OF assms(1)] assms(2)] by blast
qed

theorem pcb_addressing_witness:
  "pcb_process (get_pcb (of_nat 3) + 0x1F00) = get_pcb (of_nat 3)"
  using pcb_addressing [of 3 "0x1F00"] by simp

end
