(* ===== verification/Fs.thy ===== *)
theory Fs
  imports Console Pcb
begin

text \<open>
  The read-only file system: \<^verbatim>\<open>student-distrib/drivers/fs.c\<close> and \<^verbatim>\<open>fs.h\<close>.  The image loaded by
  the boot loader is part of memory and starts at \<open>boot_block\<close>: one 4 kB boot block with
  the directory, then one 4 kB block per inode, then the data blocks.  The functions read
  it through memory the way the C code does, so a buffer that overlaps the image is
  visible.  Control blocks are a heap from addresses to records.  Local objects of the C
  functions (\<^verbatim>\<open>dentry\<close>, \<^verbatim>\<open>magic_buf\<close>, \<^verbatim>\<open>entry_point\<close>) are memory at an address that the
  caller of the model supplies; a pointer the C code never sets is an argument.
\<close>

abbreviation FOUR_KB :: u32 where "FOUR_KB \<equiv> 0x1000"
abbreviation RTC_TYPE :: u32 where "RTC_TYPE \<equiv> 0"
abbreviation DIRECTORY_TYPE :: u32 where "DIRECTORY_TYPE \<equiv> 1"
abbreviation FILE_TYPE :: u32 where "FILE_TYPE \<equiv> 2"
abbreviation USER_PROGRAM_VIRTUAL_START :: u32 where "USER_PROGRAM_VIRTUAL_START \<equiv> 0x8000000"
abbreviation USER_PROGRAM_OFFSET :: u32 where "USER_PROGRAM_OFFSET \<equiv> 0x048000"
abbreviation FOUR_MB :: u32 where "FOUR_MB \<equiv> 0x400000"
abbreviation ENTRY_POINT_OFFSET :: u32 where "ENTRY_POINT_OFFSET \<equiv> 24"
abbreviation ENTRY_POINT_SIZE :: int where "ENTRY_POINT_SIZE \<equiv> 4"
abbreviation EXEC_MAGIC_NUM_COUNT :: u32 where "EXEC_MAGIC_NUM_COUNT \<equiv> 4"

type_synonym pcbs = "u32 \<Rightarrow> pcb"

section \<open>The image\<close>

record fs =
  boot_block :: u32
  fs_end :: u32
  num_directories :: u32
  num_inodes :: u32

text \<open>Fields of \<^verbatim>\<open>dentry_t\<close>, \<^verbatim>\<open>boot_block_t\<close> and \<^verbatim>\<open>inode_t\<close> by their offsets.\<close>

definition filename_at :: "u32 \<Rightarrow> u32" where "filename_at dentry = dentry"
definition filetype_of :: "mem \<Rightarrow> u32 \<Rightarrow> u32" where "filetype_of m dentry = get32 m (dentry + 32)"
definition inode_index_of :: "mem \<Rightarrow> u32 \<Rightarrow> u32" where "inode_index_of m dentry = get32 m (dentry + 36)"

definition dir_entry_num :: "mem \<Rightarrow> u32 \<Rightarrow> u32" where "dir_entry_num m bb = get32 m bb"
definition inode_num :: "mem \<Rightarrow> u32 \<Rightarrow> u32" where "inode_num m bb = get32 m (bb + 4)"
definition data_block_num :: "mem \<Rightarrow> u32 \<Rightarrow> u32" where "data_block_num m bb = get32 m (bb + 8)"
definition dentry_directory :: "u32 \<Rightarrow> u32 \<Rightarrow> u32" where "dentry_directory bb i = bb + 64 + 64 * i"

definition inode_length :: "mem \<Rightarrow> u32 \<Rightarrow> u32" where "inode_length m inode_addr = get32 m inode_addr"
definition inode_data :: "mem \<Rightarrow> u32 \<Rightarrow> u32 \<Rightarrow> u32" where
  "inode_data m inode_addr i = get32 m (inode_addr + 4 + 4 * i)"

section \<open>Operations\<close>

definition fs_init :: "mem \<Rightarrow> u32 \<Rightarrow> u32 \<Rightarrow> console \<Rightarrow> fs \<times> console" where
  "fs_init m mod_start mod_end con =
     (let fs = \<lparr>boot_block = mod_start, fs_end = mod_end, num_directories = dir_entry_num m mod_start,
            num_inodes = inode_num m mod_start\<rparr>;
          con = printf_fmt (''Boot Block loaded at address: 0x%#x'' @ [CHR 0x0A]) [mod_start] con;
          con = printf_fmt (''iNodes: %d'' @ [CHR 0x0A]) [inode_num m mod_start] con;
          con = printf_fmt (''Dir Entries: %d'' @ [CHR 0x0A]) [dir_entry_num m mod_start] con;
          con = printf_fmt (''Data Blocks: %d'' @ [CHR 0x0A]) [data_block_num m mod_start] con
      in (fs, con))"

text \<open>The search of \<open>read_dentry_by_name\<close>: \<open>Some (Some i)\<close> the entry found, \<open>Some None\<close> none,
  \<open>None\<close> when a string has no end.\<close>

function find_dentry :: "fs \<Rightarrow> mem \<Rightarrow> u32 \<Rightarrow> u32 \<Rightarrow> u32 option option" where
  "find_dentry fs m fname currFile =
     (if currFile < num_directories fs then
        (case strlen m fname of None \<Rightarrow> None | Some l1 \<Rightarrow>
         (case strlen m (filename_at (dentry_directory (boot_block fs) currFile)) of None \<Rightarrow> None | Some l2 \<Rightarrow>
          if l1 \<noteq> l2 then find_dentry fs m fname (currFile + 1)
          else if strncmp m fname (filename_at (dentry_directory (boot_block fs) currFile)) l1 = 0
            then Some (Some currFile)
          else find_dentry fs m fname (currFile + 1)))
      else Some None)"
  by pat_completeness auto
termination
  by (relation "measure (\<lambda>(fs, m, fname, i). unat (num_directories fs) - unat i)") (auto intro!: unat_counter(2))

declare find_dentry.simps [simp del]

definition read_dentry_by_name :: "fs \<Rightarrow> mem \<Rightarrow> u32 \<Rightarrow> u32 \<Rightarrow> (int \<times> mem) option" where
  "read_dentry_by_name fs m fname dentry =
     (if dentry = 0 then Some (-1, m)
      else case find_dentry fs m fname 0 of
             None \<Rightarrow> None
           | Some None \<Rightarrow> Some (-1, m)
           | Some (Some i) \<Rightarrow> Some (0, memcpy m dentry (dentry_directory (boot_block fs) i) 64))"

definition read_dentry_by_index :: "fs \<Rightarrow> mem \<Rightarrow> u32 \<Rightarrow> u32 \<Rightarrow> int \<times> mem" where
  "read_dentry_by_index fs m index dentry =
     (if index < num_directories fs \<and> dentry \<noteq> 0
      then (0, memcpy m dentry (dentry_directory (boot_block fs) index) 64)
      else (-1, m))"

text \<open>The copy loop of \<open>read_data\<close>.\<close>

function read_data_loop ::
    "u32 \<Rightarrow> u32 \<Rightarrow> u32 \<Rightarrow> u32 \<Rightarrow> u32 \<Rightarrow> mem \<Rightarrow> u32 \<Rightarrow> u32 \<Rightarrow> u32 \<Rightarrow> u32 \<Rightarrow> u32 \<times> mem" where
  "read_data_loop inode_addr data_block_addr file_length buf len m i offset current_block bytes_in_block_read =
     (if i < len then
        let m = m(buf + i := m (current_block + offset mod FOUR_KB));
            offset = offset + 1;
            current_block = (if offset mod FOUR_KB = 0
              then data_block_addr + inode_data m inode_addr (offset div FOUR_KB) * FOUR_KB else current_block)
        in if file_length < offset then (bytes_in_block_read, m)
           else read_data_loop inode_addr data_block_addr file_length buf len m (i + 1) offset current_block
                  (bytes_in_block_read + 1)
      else (bytes_in_block_read, m))"
  by pat_completeness auto
termination
  by (relation "measure (\<lambda>(_, _, _, _, n, _, i, _). unat n - unat i)") (auto intro!: unat_counter(2))

declare read_data_loop.simps [simp del]

definition inode_address :: "fs \<Rightarrow> u32 \<Rightarrow> u32" where
  "inode_address fs inode = boot_block fs + (inode + 1) * FOUR_KB"

definition data_blocks :: "fs \<Rightarrow> mem \<Rightarrow> u32" where
  "data_blocks fs m = boot_block fs + (inode_num m (boot_block fs) + 1) * FOUR_KB"

definition read_data :: "fs \<Rightarrow> mem \<Rightarrow> u32 \<Rightarrow> u32 \<Rightarrow> u32 \<Rightarrow> u32 \<Rightarrow> u32 \<times> mem" where
  "read_data fs m inode offset buf len =
     (if buf = 0 then (-1, m)
      else
        let inode_addr = inode_address fs inode;
            data_block_addr = data_blocks fs m;
            file_length = inode_length m inode_addr;
            current_block = data_block_addr + inode_data m inode_addr (offset div FOUR_KB) * FOUR_KB
        in if file_length < offset then (0, m)
           else read_data_loop inode_addr data_block_addr file_length buf len m 0 offset current_block 0)"

text \<open>\<open>wild_tbl\<close> is the uninitialised \<^verbatim>\<open>file_op_tbl\<close>, \<open>frame\<close> the address of the local \<^verbatim>\<open>dentry\<close>.\<close>

definition file_open :: "fs \<Rightarrow> u32 \<Rightarrow> u32 \<Rightarrow> u32 \<Rightarrow> mem \<Rightarrow> u32 \<Rightarrow> pcbs \<Rightarrow> (int \<times> mem \<times> pcbs) option" where
  "file_open fs wild_tbl frame filename m cur pcbs =
     (case read_dentry_by_name fs m filename frame of None \<Rightarrow> None
      | Some (r, m) \<Rightarrow>
        if r \<noteq> 0 then Some (-1, m, pcbs)
        else
          let (fd, p) = pcb_open (Wild_driver wild_tbl) (pcbs cur) in
          if fd = -1 then Some (-1, m, pcbs(cur := p))
          else
            let t = filetype_of m frame;
                e = elements p fd;
                e = (if t = FILE_TYPE then e\<lparr>file_operation_jmp_tbl := File_driver\<rparr>
                     else if t = DIRECTORY_TYPE then e\<lparr>file_operation_jmp_tbl := Dir_driver\<rparr>
                     else if t = RTC_TYPE then e\<lparr>file_operation_jmp_tbl := Rtc_driver\<rparr> else e);
                e = (if t = FILE_TYPE then e\<lparr>inode_ptr := inode_index_of m frame\<rparr> else e);
                p = p\<lparr>elements := (elements p)(fd := e)\<rparr>;
                p = (if t = RTC_TYPE then p\<lparr>rtc := 1\<rparr> else p)
            in Some (fd, m, pcbs(cur := p)))"

definition file_write :: int where
  "file_write = -1"

definition file_read :: "fs \<Rightarrow> int \<Rightarrow> u32 \<Rightarrow> u32 \<Rightarrow> mem \<Rightarrow> u32 \<Rightarrow> pcbs \<Rightarrow> u32 \<times> mem \<times> pcbs" where
  "file_read fs fd buf bytes m cur pcbs =
     (let file = elements (pcbs cur) fd in
      if flags file = 0 then (-1, m, pcbs)
      else
        let (bytes_read, m) = read_data fs m (inode_ptr file) (file_position file) buf bytes;
            p = (pcbs cur)\<lparr>elements := (elements (pcbs cur))(fd :=
                  file\<lparr>file_position := file_position file + bytes_read\<rparr>)\<rparr>
        in (bytes_read, m, pcbs(cur := p)))"

text \<open>\<^verbatim>\<open>curr_pcb\<close> is never set: the descriptor of whatever block it points to is closed.\<close>

definition file_close :: "u32 \<Rightarrow> int \<Rightarrow> pcbs \<Rightarrow> int \<times> pcbs" where
  "file_close wild_pcb fd pcbs =
     (if 8 \<le> fd \<or> fd < 0 then (-1, pcbs)
      else let (r, p) = pcb_close (of_int fd) (pcbs wild_pcb) in (r, pcbs(wild_pcb := p)))"

definition dir_open :: int where
  "dir_open = 0"

definition dir_read :: "fs \<Rightarrow> int \<Rightarrow> u32 \<Rightarrow> u32 \<Rightarrow> mem \<Rightarrow> u32 \<Rightarrow> pcbs \<Rightarrow> (u32 \<times> mem \<times> pcbs) option" where
  "dir_read fs file_desc frame buf m cur pcbs =
     (let file = elements (pcbs cur) file_desc in
      if num_directories fs \<le> file_position file then Some (0, m, pcbs)
      else
        let (_, m) = read_dentry_by_index fs m (file_position file) frame in
        (case strcpy m buf (filename_at frame) of None \<Rightarrow> None
         | Some m \<Rightarrow>
           let p = (pcbs cur)\<lparr>elements := (elements (pcbs cur))(file_desc :=
                     file\<lparr>file_position := file_position file + 1\<rparr>)\<rparr>
           in (case strlen m buf of None \<Rightarrow> None | Some n \<Rightarrow> Some (n, m, pcbs(cur := p)))))"

definition dir_write :: int where
  "dir_write = -1"

definition dir_close :: int where
  "dir_close = 0"

text \<open>\<open>frame\<close> and \<open>entry_point\<close> are the addresses of the locals of \<open>loader\<close>.\<close>

definition loader :: "fs \<Rightarrow> u32 \<Rightarrow> u32 \<Rightarrow> mem \<Rightarrow> u32 \<Rightarrow> (u32 \<times> mem) option" where
  "loader fs frame entry_point m filename =
     (let program_start_ptr = USER_PROGRAM_VIRTUAL_START + USER_PROGRAM_OFFSET in
      case read_dentry_by_name fs m filename frame of None \<Rightarrow> None
      | Some (r, m) \<Rightarrow>
        if r \<noteq> 0 then Some (-1, m)
        else
          let (_, m) = read_data fs m (inode_index_of m frame) 0 program_start_ptr (FOUR_MB - USER_PROGRAM_OFFSET);
              (_, m) = read_data fs m (inode_index_of m frame) ENTRY_POINT_OFFSET entry_point (of_int ENTRY_POINT_SIZE);
              ret_val = for_range 0 ENTRY_POINT_SIZE
                (\<lambda>i v. v OR push_bit (nat i * 8) (ucast (m (entry_point + of_int i)))) 0
          in Some (ret_val, m))"

definition executable_check :: "fs \<Rightarrow> u32 \<Rightarrow> mem \<Rightarrow> u32 \<Rightarrow> u8 \<times> mem" where
  "executable_check fs magic_buf m dentry =
     (let (n, m) = read_data fs m (inode_index_of m dentry) 0 magic_buf EXEC_MAGIC_NUM_COUNT in
      if n = 0 then (0, m)
      else (if m magic_buf = 0x7f \<and> m (magic_buf + 1) = 0x45 \<and> m (magic_buf + 2) = 0x4c
              \<and> m (magic_buf + 3) = 0x46 then 0 else 1, m))"

section \<open>Files as lists of bytes\<close>

definition file_length :: "fs \<Rightarrow> mem \<Rightarrow> u32 \<Rightarrow> nat" where
  "file_length fs m inode = unat (inode_length m (inode_address fs inode))"

definition block_at :: "fs \<Rightarrow> mem \<Rightarrow> u32 \<Rightarrow> nat \<Rightarrow> u32" where
  "block_at fs m inode k = data_blocks fs m + inode_data m (inode_address fs inode) (of_nat (k div 4096)) * FOUR_KB"

definition byte_at :: "fs \<Rightarrow> mem \<Rightarrow> u32 \<Rightarrow> nat \<Rightarrow> u32" where
  "byte_at fs m inode k = block_at fs m inode k + of_nat (k mod 4096)"

definition file_bytes :: "fs \<Rightarrow> mem \<Rightarrow> u32 \<Rightarrow> u8 list" where
  "file_bytes fs m inode = map (\<lambda>k. m (byte_at fs m inode k)) [0..<file_length fs m inode]"

lemma length_file_bytes [simp]: "length (file_bytes fs m inode) = file_length fs m inode"
  by (simp add: file_bytes_def)

text \<open>The addresses that reading a file consults: the inode count, the file's length, its
  block numbers, its bytes and the byte behind it.\<close>

definition footprint :: "fs \<Rightarrow> mem \<Rightarrow> u32 \<Rightarrow> u32 set" where
  "footprint fs m inode =
     (\<lambda>j. boot_block fs + 4 + j) ` {0, 1, 2, 3} \<union> (\<lambda>j. inode_address fs inode + j) ` {0, 1, 2, 3}
     \<union> (\<Union>k\<in>{..file_length fs m inode}. insert (byte_at fs m inode k)
        ((\<lambda>j. inode_address fs inode + 4 + 4 * of_nat (k div 4096) + j) ` {0, 1, 2, 3}))"

definition clear_of :: "u32 set \<Rightarrow> u32 \<Rightarrow> nat \<Rightarrow> bool" where
  "clear_of A buf n \<longleftrightarrow> (\<forall>a\<in>A. n \<le> unat (a - buf))"

lemma store_other: "length bs \<le> unat (a - s) \<Longrightarrow> store m s bs a = m a"
  by (simp add: store_def)

lemma of_nat_block:
  assumes "k < 2 ^ 32"
  shows "(of_nat k :: u32) mod FOUR_KB = of_nat (k mod 4096)" "(of_nat k :: u32) div FOUR_KB = of_nat (k div 4096)"
proof -
  have "k mod 4096 < 2 ^ 32" "k div 4096 < 2 ^ 32" using assms by simp_all
  then show "(of_nat k :: u32) mod FOUR_KB = of_nat (k mod 4096)" "(of_nat k :: u32) div FOUR_KB = of_nat (k div 4096)"
    using assms by (simp_all add: word_unat_eq_iff unat_mod unat_div unat_of_nat_u32 del: of_nat_mod of_nat_div)
qed

lemma store_block:
  assumes "clear_of (footprint fs m inode) buf (length bs)" "k \<le> file_length fs m inode"
  shows "inode_data (store m buf bs) (inode_address fs inode) (of_nat (k div 4096))
    = inode_data m (inode_address fs inode) (of_nat (k div 4096))"
    and "store m buf bs (byte_at fs m inode k) = m (byte_at fs m inode k)"
proof -
  let ?a = "inode_address fs inode + 4 + 4 * of_nat (k div 4096)"
  have in_fp: "{byte_at fs m inode k, ?a + 0, ?a + 1, ?a + 2, ?a + 3} \<subseteq> footprint fs m inode"
    using assms(2) unfolding footprint_def by blast
  then have "\<forall>x \<in> {byte_at fs m inode k, ?a + 0, ?a + 1, ?a + 2, ?a + 3}. store m buf bs x = m x"
    using assms(1) unfolding clear_of_def by (intro ballI store_other) blast
  note same = bspec [OF this]
  show "store m buf bs (byte_at fs m inode k) = m (byte_at fs m inode k)" by (rule same) simp
  show "inode_data (store m buf bs) (inode_address fs inode) (of_nat (k div 4096))
      = inode_data m (inode_address fs inode) (of_nat (k div 4096))"
    unfolding inode_data_def by (rule get32_cong; rule same; simp)
qed

definition chunk :: "fs \<Rightarrow> mem \<Rightarrow> u32 \<Rightarrow> nat \<Rightarrow> nat \<Rightarrow> u8 list" where
  "chunk fs m inode off n = map (\<lambda>k. m (byte_at fs m inode (off + k))) [0..<n]"

lemma length_chunk [simp]: "length (chunk fs m inode off n) = n"
  by (simp add: chunk_def)

lemma chunk_Suc: "chunk fs m inode off (Suc n) = chunk fs m inode off n @ [m (byte_at fs m inode (off + n))]"
  by (simp add: chunk_def)

lemma chunk_file_bytes: "off + n \<le> file_length fs m inode \<Longrightarrow> chunk fs m inode off n = take n (drop off (file_bytes fs m inode))"
  by (auto simp: chunk_def file_bytes_def intro!: nth_equalityI)

lemma clear_of_mono: "clear_of A buf n \<Longrightarrow> k \<le> n \<Longrightarrow> clear_of A buf k"
  by (auto simp: clear_of_def)

text \<open>The loop after \<open>i\<close> bytes: the count, the buffer and the current block.\<close>

lemma read_data_loop_chunk:
  assumes "clear_of (footprint fs m inode) buf (unat len)"
    and L: "file_length fs m inode = L" "Suc L < 2 ^ 32"
    and "off + i \<le> L" "i \<le> unat len"
  shows "read_data_loop (inode_address fs inode) (data_blocks fs m) (of_nat L) buf len
      (store m buf (chunk fs m inode off i)) (of_nat i) (of_nat (off + i)) (block_at fs m inode (off + i)) (of_nat i)
    = (of_nat (min (unat len) (L - off)), store m buf (chunk fs m inode off (min (unat len) (Suc (L - off)))))"
  using assms(4,5)
proof (induction "unat len - i" arbitrary: i)
  case 0
  then have "i = unat len" "min (unat len) (L - off) = unat len" "min (unat len) (Suc (L - off)) = unat len"
    by simp_all
  then show ?case by (subst read_data_loop.simps) simp
next
  case (Suc d)
  let ?s = "store m buf (chunk fs m inode off i)" and ?s' = "store m buf (chunk fs m inode off (Suc i))"
  let ?blk = "block_at fs m inode"
  have len: "unat len < 2 ^ 32" using unsigned_less [of len, where 'a = nat] by simp
  have i: "i < unat len" "(of_nat i :: u32) < len"
    using Suc len by (simp_all add: word_less_nat_alt unat_of_nat_u32)
  have off: "off + i < 2 ^ 32" "Suc (off + i) < 2 ^ 32" using Suc.prems L(2) by simp_all
  have byte: "?s (?blk (off + i) + of_nat (off + i) mod FOUR_KB) = m (byte_at fs m inode (off + i))"
    using store_block(2) [OF clear_of_mono [OF assms(1)], of "chunk fs m inode off i" "off + i"] i(1) Suc.prems L(1)
    by (simp add: byte_at_def of_nat_block(1) [OF off(1)] del: of_nat_add)
  have upd: "?s(buf + of_nat i := m (byte_at fs m inode (off + i))) = ?s'"
    using store_snoc [of "chunk fs m inode off i" m buf] i(1) len by (simp add: chunk_Suc del: fun_upd_apply)
  have next_off: "(of_nat (off + i) + 1 :: u32) = of_nat (off + Suc i)" by simp
  have blk: "(if of_nat (off + Suc i) mod FOUR_KB = 0
      then data_blocks fs m + inode_data ?s' (inode_address fs inode) (of_nat (off + Suc i) div FOUR_KB) * FOUR_KB
      else ?blk (off + i)) = ?blk (off + Suc i)" if "off + Suc i \<le> L"
  proof -
    have "(of_nat (off + Suc i) :: u32) mod FOUR_KB = 0 \<longleftrightarrow> (off + Suc i) mod 4096 = 0"
      using off(2) by (simp add: of_nat_block(1) word_unat_eq_iff unat_of_nat_u32 del: of_nat_add of_nat_Suc)
    moreover have "(off + Suc i) mod 4096 \<noteq> 0 \<Longrightarrow> (off + Suc i) div 4096 = (off + i) div 4096"
      by (simp add: div_Suc)
    moreover have "inode_data ?s' (inode_address fs inode) (of_nat ((off + Suc i) div 4096))
        = inode_data m (inode_address fs inode) (of_nat ((off + Suc i) div 4096))"
      using store_block(1) [OF clear_of_mono [OF assms(1)], of "chunk fs m inode off (Suc i)" "off + Suc i"]
        i(1) that L(1) by simp
    ultimately show ?thesis
      using of_nat_block(2) [of "off + Suc i"] off(2) by (simp add: block_at_def del: of_nat_add of_nat_Suc)
  qed
  have past: "(of_nat L :: u32) < of_nat (off + Suc i) \<longleftrightarrow> L < off + Suc i"
    using off(2) L(2) by (simp add: word_less_nat_alt unat_of_nat_u32 del: of_nat_add of_nat_Suc)
  show ?case
  proof (cases "off + Suc i \<le> L")
    case True
    have IH: "read_data_loop (inode_address fs inode) (data_blocks fs m) (of_nat L) buf len ?s' (of_nat (Suc i))
        (of_nat (off + Suc i)) (?blk (off + Suc i)) (of_nat (Suc i))
      = (of_nat (min (unat len) (L - off)), store m buf (chunk fs m inode off (min (unat len) (Suc (L - off)))))"
      by (rule Suc.hyps) (use Suc.hyps(2) True i in auto)
    show ?thesis
      using IH True i past blk
      by (subst read_data_loop.simps) (simp only: Let_def if_True byte upd next_off, simp add: add.commute)
  next
    case False
    then have "min (unat len) (L - off) = i" "min (unat len) (Suc (L - off)) = Suc i"
      using Suc.prems i(1) by simp_all
    then show ?thesis
      using False i past
      by (subst read_data_loop.simps) (simp only: Let_def if_True byte upd next_off, simp)
  qed
qed

lemma read_data_chunk:
  assumes "clear_of (footprint fs m inode) buf (unat len)" "Suc (file_length fs m inode) < 2 ^ 32"
    and "buf \<noteq> 0" "unat off \<le> file_length fs m inode"
  shows "read_data fs m inode off buf len
    = (of_nat (min (unat len) (file_length fs m inode - unat off)),
       store m buf (chunk fs m inode (unat off) (min (unat len) (Suc (file_length fs m inode - unat off)))))"
proof -
  let ?L = "file_length fs m inode"
  have L: "inode_length m (inode_address fs inode) = of_nat ?L" by (simp add: file_length_def)
  have "\<not> (of_nat ?L :: u32) < off" using assms(2,4) by (simp add: word_less_nat_alt unat_of_nat_u32)
  moreover have "data_blocks fs m + inode_data m (inode_address fs inode) (off div FOUR_KB) * FOUR_KB
      = block_at fs m inode (unat off)"
    using of_nat_block(2) [of "unat off"] unsigned_less [of off, where 'a = nat] by (simp add: block_at_def)
  ultimately show ?thesis
    using read_data_loop_chunk [OF assms(1) refl assms(2), of "unat off" 0] assms(3,4)
    by (simp add: read_data_def L chunk_def [of _ _ _ _ 0])
qed

lemma read_data_past_end:
  "file_length fs m inode < unat off \<Longrightarrow> buf \<noteq> 0 \<Longrightarrow> read_data fs m inode off buf len = (0, m)"
  by (simp add: read_data_def file_length_def word_less_nat_alt)

lemma store_get32:
  assumes "clear_of A buf (length bs)" "(\<lambda>j. a + j) ` {0, 1, 2, 3} \<subseteq> A"
  shows "get32 (store m buf bs) a = get32 m a"
proof -
  have "store m buf bs (a + j) = m (a + j)" if "j \<in> {0, 1, 2, 3}" for j
    using assms that by (intro store_other) (auto simp: clear_of_def)
  from this [of 0] this [of 1] this [of 2] this [of 3] show ?thesis
    by (simp add: get32_def)
qed

text \<open>A buffer that is clear of a file leaves the file alone.\<close>

lemma store_file:
  assumes "clear_of (footprint fs m inode) buf (length bs)"
  shows "file_length fs (store m buf bs) inode = file_length fs m inode"
    and "k \<le> file_length fs m inode \<Longrightarrow> byte_at fs (store m buf bs) inode k = byte_at fs m inode k"
    and "file_bytes fs (store m buf bs) inode = file_bytes fs m inode"
    and "footprint fs (store m buf bs) inode = footprint fs m inode"
proof -
  let ?m = "store m buf bs"
  have "get32 ?m (boot_block fs + 4) = get32 m (boot_block fs + 4)"
    "get32 ?m (inode_address fs inode) = get32 m (inode_address fs inode)"
    by (rule store_get32 [OF assms], unfold footprint_def, blast)+
  then have blocks: "data_blocks fs ?m = data_blocks fs m"
    and len: "file_length fs ?m inode = file_length fs m inode"
    by (simp_all add: data_blocks_def inode_num_def file_length_def inode_length_def)
  show "file_length fs ?m inode = file_length fs m inode" by (rule len)
  show byte: "k \<le> file_length fs m inode \<Longrightarrow> byte_at fs ?m inode k = byte_at fs m inode k" for k
    using store_block(1) [OF assms] by (simp add: byte_at_def block_at_def blocks)
  show "file_bytes fs ?m inode = file_bytes fs m inode"
    using store_block(2) [OF assms] by (auto simp: file_bytes_def len byte)
  show "footprint fs ?m inode = footprint fs m inode"
    unfolding footprint_def len using byte by auto
qed

text \<open>Files and directories depend on their own bytes only.\<close>

lemma file_agree:
  assumes "\<And>a. a \<in> footprint fs m inode \<Longrightarrow> m' a = m a"
  shows "file_length fs m' inode = file_length fs m inode" "file_bytes fs m' inode = file_bytes fs m inode"
    and "footprint fs m' inode = footprint fs m inode"
proof -
  have word: "get32 m' a = get32 m a" if "(\<lambda>j. a + j) ` {0, 1, 2, 3} \<subseteq> footprint fs m inode" for a
    using that assms [of a] assms [of "a + 1"] assms [of "a + 2"] assms [of "a + 3"] by (auto simp: get32_def)
  have "get32 m' (boot_block fs + 4) = get32 m (boot_block fs + 4)"
    "get32 m' (inode_address fs inode) = get32 m (inode_address fs inode)"
    by (rule word, unfold footprint_def, blast)+
  then have blocks: "data_blocks fs m' = data_blocks fs m" and len: "file_length fs m' inode = file_length fs m inode"
    by (simp_all add: data_blocks_def inode_num_def file_length_def inode_length_def)
  show "file_length fs m' inode = file_length fs m inode" by (rule len)
  have "inode_data m' (inode_address fs inode) (of_nat (k div 4096)) = inode_data m (inode_address fs inode) (of_nat (k div 4096))"
    if "k \<le> file_length fs m inode" for k
    unfolding inode_data_def by (rule word) (use that in \<open>unfold footprint_def, blast\<close>)
  then have byte: "byte_at fs m' inode k = byte_at fs m inode k" if "k \<le> file_length fs m inode" for k
    using that by (simp add: byte_at_def block_at_def blocks)
  show "footprint fs m' inode = footprint fs m inode"
    unfolding footprint_def len using byte by auto
  have "byte_at fs m inode k \<in> footprint fs m inode" if "k \<le> file_length fs m inode" for k
    using that unfolding footprint_def by blast
  then show "file_bytes fs m' inode = file_bytes fs m inode"
    using assms byte by (auto simp: file_bytes_def len)
qed

lemma load_store_prefix: "n \<le> length bs \<Longrightarrow> length bs \<le> 2 ^ 32 \<Longrightarrow> load (store m s bs) s n = take n bs"
  by (auto simp: store_at intro!: nth_equalityI)

text \<open>What a read delivers: the next bytes of the file, and a buffer changed in its first
  \<open>len\<close> bytes only.\<close>

lemma read_data_delivers:
  assumes "clear_of (footprint fs m inode) buf (unat len)" "Suc (file_length fs m inode) < 2 ^ 32" "buf \<noteq> 0"
    and "unat off \<le> file_length fs m inode"
  obtains m' bs where "read_data fs m inode off buf len = (of_nat (min (unat len) (file_length fs m inode - unat off)), m')"
    and "m' = store m buf bs" "length bs \<le> unat len"
    and "load m' buf (min (unat len) (file_length fs m inode - unat off)) = take (unat len) (drop (unat off) (file_bytes fs m inode))"
proof -
  let ?L = "file_length fs m inode"
  let ?n = "min (unat len) (?L - unat off)" and ?k = "min (unat len) (Suc (?L - unat off))"
  let ?bs = "chunk fs m inode (unat off) ?k"
  have len: "unat len < 2 ^ 32" using unsigned_less [of len, where 'a = nat] by simp
  have "load (store m buf ?bs) buf ?n = take ?n ?bs"
    using len by (intro load_store_prefix) simp_all
  also have "\<dots> = chunk fs m inode (unat off) ?n"
    by (auto simp: chunk_def take_map take_upt intro!: nth_equalityI)
  also have "\<dots> = take ?n (drop (unat off) (file_bytes fs m inode))"
    using assms(4) by (intro chunk_file_bytes) simp
  also have "\<dots> = take (unat len) (drop (unat off) (file_bytes fs m inode))"
    by (rule nth_equalityI) (auto simp: file_bytes_def)
  finally show thesis
    using that [OF _ refl, of ?bs] read_data_chunk [OF assms] by simp
qed

section \<open>Reading a file in pieces\<close>

text \<open>\<open>reads k\<close> calls \<open>file_read\<close> \<open>k\<close> times on the same descriptor and buffer and collects what
  the calls deliver.\<close>

primrec reads :: "nat \<Rightarrow> fs \<Rightarrow> int \<Rightarrow> u32 \<Rightarrow> u32 \<Rightarrow> mem \<Rightarrow> u32 \<Rightarrow> pcbs \<Rightarrow> u8 list \<times> mem \<times> pcbs" where
  "reads 0 fs fd buf len m cur pcbs = ([], m, pcbs)"
| "reads (Suc k) fs fd buf len m cur pcbs =
     (let (out, m, pcbs) = reads k fs fd buf len m cur pcbs;
          (n, m, pcbs) = file_read fs fd buf len m cur pcbs
      in (out @ load m buf (unat n), m, pcbs))"

lemma reads_collect:
  assumes "clear_of (footprint fs m inode) buf (unat len)" "Suc (file_length fs m inode) < 2 ^ 32" "buf \<noteq> 0"
    and "flags (elements (pcbs cur) fd) \<noteq> 0" "inode_ptr (elements (pcbs cur) fd) = inode"
    and "file_position (elements (pcbs cur) fd) = 0"
  shows "\<exists>m' pcbs' bs. reads k fs fd buf len m cur pcbs = (take (k * unat len) (file_bytes fs m inode), m', pcbs')
    \<and> m' = store m buf bs \<and> length bs \<le> unat len
    \<and> elements (pcbs' cur) fd = (elements (pcbs cur) fd)\<lparr>file_position := of_nat (min (k * unat len) (file_length fs m inode))\<rparr>"
proof (induction k)
  case 0
  show ?case using assms(6) by (intro exI [of _ m] exI [of _ pcbs] exI [of _ "[]"]) simp
next
  case (Suc k)
  let ?L = "file_length fs m inode" and ?n = "unat len"
  obtain m1 pcbs1 bs1 where 1: "reads k fs fd buf len m cur pcbs = (take (k * ?n) (file_bytes fs m inode), m1, pcbs1)"
    "m1 = store m buf bs1" "length bs1 \<le> ?n"
    "elements (pcbs1 cur) fd = (elements (pcbs cur) fd)\<lparr>file_position := of_nat (min (k * ?n) ?L)\<rparr>"
    using Suc by blast
  have same: "file_length fs m1 inode = ?L" "file_bytes fs m1 inode = file_bytes fs m inode"
    "footprint fs m1 inode = footprint fs m inode"
    using store_file [OF clear_of_mono [OF assms(1) 1(3)]] 1(2) by simp_all
  have pos: "unat (of_nat (min (k * ?n) ?L) :: u32) = min (k * ?n) ?L"
    using assms(2) by (intro unat_of_nat_u32) simp
  obtain m2 bs2 where 2: "read_data fs m1 inode (of_nat (min (k * ?n) ?L)) buf len = (of_nat (min ?n (?L - min (k * ?n) ?L)), m2)"
    "m2 = store m1 buf bs2" "length bs2 \<le> ?n"
    "load m2 buf (min ?n (?L - min (k * ?n) ?L)) = take ?n (drop (min (k * ?n) ?L) (file_bytes fs m inode))"
    using read_data_delivers [of fs m1 inode buf len "of_nat (min (k * ?n) ?L)"] assms(1-3) same pos by auto
  have cnt: "unat (of_nat (min ?n (?L - min (k * ?n) ?L)) :: u32) = min ?n (?L - min (k * ?n) ?L)"
    using assms(2) by (intro unat_of_nat_u32) simp
  have adv: "min (k * ?n) ?L + min ?n (?L - min (k * ?n) ?L) = min (Suc k * ?n) ?L"
    by (auto simp: min_def)
  have join: "take (k * ?n) xs @ take ?n (drop (min (k * ?n) ?L) xs) = take (Suc k * ?n) xs"
    if "length xs = ?L" for xs :: "u8 list"
    using that by (cases "k * ?n \<le> ?L") (simp_all add: take_add [symmetric] add.commute)
  have merge: "\<exists>bs. store m1 buf bs2 = store m buf bs \<and> length bs \<le> ?n"
    unfolding 1(2) using 1(3) 2(3)
    by (intro exI [of _ "bs2 @ drop (length bs2) bs1"]) (auto simp: store_def fun_eq_iff nth_append)
  show ?case
    using 1 2 cnt join [of "file_bytes fs m inode"] merge assms(4,5) adv
    by (auto simp: file_read_def Let_def file_bytes_def simp flip: of_nat_add)
qed

section \<open>The directory\<close>

text \<open>The names of the entries, in order.\<close>

definition directory :: "fs \<Rightarrow> mem \<Rightarrow> u8 list list \<Rightarrow> bool" where
  "directory fs m names \<longleftrightarrow> length names = unat (num_directories fs)
     \<and> (\<forall>i<length names. cstr m (dentry_directory (boot_block fs) (of_nat i)) (names ! i))"

lemma find_dentry_names:
  assumes dir: "directory fs m names" and s: "cstr m fname s" and "k \<le> length names"
  shows "find_dentry fs m fname (of_nat k)
    = Some (map_option of_nat (find (\<lambda>i. names ! i = s) [k..<length names]))"
  using assms(3)
proof (induction "length names - k" arbitrary: k)
  case 0
  then have "k = length names" by simp
  then show ?case using dir by (subst find_dentry.simps) (simp add: directory_def)
next
  case (Suc d)
  then have k: "k < length names" by simp
  let ?e = "dentry_directory (boot_block fs) (of_nat k)"
  have n: "length names < 2 ^ 32" "length names = unat (num_directories fs)"
    using dir unsigned_less [of "num_directories fs", where 'a = nat] by (simp_all add: directory_def)
  have less: "(of_nat k :: u32) < num_directories fs"
    using k n by (simp add: word_less_nat_alt unat_of_nat_u32)
  have e: "cstr m ?e (names ! k)" using dir k by (simp add: directory_def)
  note len = cstr_length [OF s] cstr_length [OF e]
  have len_eq: "(of_nat (length s) :: u32) = of_nat (length (names ! k)) \<longleftrightarrow> length s = length (names ! k)"
    using len by (metis unat_of_nat_u32)
  have cmp: "strncmp m fname ?e (of_nat (length s)) = 0 \<longleftrightarrow> s = names ! k" if "length s = length (names ! k)"
    using strncmp_zero_iff [OF s e, of "of_nat (length s)"] that len by (simp add: unat_of_nat_u32)
  have IH: "find_dentry fs m fname (of_nat (Suc k))
      = Some (map_option of_nat (find (\<lambda>i. names ! i = s) [Suc k..<length names]))"
    by (rule Suc.hyps) (use Suc.hyps(2) k in auto)
  have "find_dentry fs m fname (of_nat k) = (if s = names ! k then Some (Some (of_nat k)) else find_dentry fs m fname (of_nat (Suc k)))"
    using less strlen_cstr [OF s] strlen_cstr [OF e] len_eq cmp
    by (subst find_dentry.simps) (auto simp: filename_at_def add.commute)
  then show ?case using IH k by (auto simp: upt_conv_Cons)
qed

lemma read_dentry_by_name_names:
  assumes "directory fs m names" "cstr m fname s" "dentry \<noteq> 0"
    and "\<And>i. i < length names \<Longrightarrow> 64 \<le> unat (dentry - dentry_directory (boot_block fs) (of_nat i))"
  shows "read_dentry_by_name fs m fname dentry = Some
    (case find (\<lambda>i. names ! i = s) [0..<length names] of None \<Rightarrow> (-1, m)
     | Some i \<Rightarrow> (0, store m dentry (load m (dentry_directory (boot_block fs) (of_nat i)) 64)))"
proof (cases "find (\<lambda>i. names ! i = s) [0..<length names]")
  case None
  then show ?thesis using find_dentry_names [OF assms(1,2), of 0] assms(3) by (simp add: read_dentry_by_name_def)
next
  case (Some i)
  then have "i < length names" by (auto simp: find_Some_iff)
  then show ?thesis
    using Some find_dentry_names [OF assms(1,2), of 0] assms(3,4)
      memcpy_copied [of dentry "dentry_directory (boot_block fs) (of_nat i)" 64 m]
    by (simp add: read_dentry_by_name_def copied_eq_store)
qed

text \<open>A name that fills all 32 bytes of its entry runs into the type field.\<close>

lemma full_length_name:
  assumes "\<And>j. j < 32 \<Longrightarrow> m (e + of_nat j) \<noteq> 0" "filetype_of m e = FILE_TYPE"
  shows "cstr m e (load m e 32 @ [2])"
proof -
  have bytes: "m (e + 32) = 2" "m (e + 32 + 1) = 0"
  proof -
    have "ucast (get32 m (e + 32)) = m (e + 32)" "ucast (drop_bit 8 (get32 m (e + 32))) = m (e + 32 + 1)"
      by (rule bit_eqI, auto simp: get32_def bit_simps dest: bit_imp_le_length)+
    then show "m (e + 32) = 2" "m (e + 32 + 1) = 0" using assms(2) by (simp_all add: filetype_of_def)
  qed
  then have "load m e 33 = load m e 32 @ [2]" by (simp add: load_def numeral_eq_Suc)
  moreover have "0 \<notin> set (load m e 32)" using assms(1) by (auto simp: load_def)
  ultimately show ?thesis using bytes by (simp add: cstr_def add.assoc)
qed

section \<open>Programs\<close>

lemma entry_point_word:
  "for_range 0 ENTRY_POINT_SIZE (\<lambda>i v. v OR push_bit (nat i * 8) (ucast (m (a + of_int i)))) 0 = get32 m a"
  by (simp add: for_range_unfold get32_def or.assoc)

text \<open>The locals of \<open>loader\<close> and the program area are apart from each other and from the
  file.\<close>

definition loader_safe :: "fs \<Rightarrow> mem \<Rightarrow> u32 \<Rightarrow> u32 \<Rightarrow> u32 \<Rightarrow> bool" where
  "loader_safe fs m frame entry_point inode \<longleftrightarrow>
     clear_of (footprint fs m inode) frame 64
   \<and> clear_of (footprint fs m inode) 0x8048000 0x3B8000
   \<and> clear_of (footprint fs m inode) entry_point 4
   \<and> clear_of ((\<lambda>j. frame + 36 + j) ` {0, 1, 2, 3}) 0x8048000 0x3B8000
   \<and> clear_of ((\<lambda>j. 0x8048000 + of_nat j) ` {..<file_length fs m inode}) entry_point 4
   \<and> entry_point \<noteq> 0"

lemma inode_index_store: "inode_index_of (store m frame (load m e 64)) frame = inode_index_of m e"
proof -
  have "store m frame (load m e 64) (frame + of_nat (36 + j)) = m (e + of_nat (36 + j))" if "j < 4" for j
    using that store_at [of "36 + j" "load m e 64" m frame] by (simp del: of_nat_add)
  from this [of 0] this [of 1] this [of 2] this [of 3] show ?thesis
    by (simp add: inode_index_of_def get32_def add.assoc)
qed

lemma loader_loads:
  assumes "read_dentry_by_name fs m filename frame = Some (0, store m frame (load m e 64))"
    and "inode_index_of m e = inode" "loader_safe fs m frame entry_point inode"
    and "28 \<le> file_length fs m inode" "file_length fs m inode \<le> 0x3B8000"
  obtains m' where "loader fs frame entry_point m filename = Some (get32 m' entry_point, m')"
    and "load m' 0x8048000 (file_length fs m inode) = file_bytes fs m inode"
    and "load m' entry_point 4 = take 4 (drop 24 (file_bytes fs m inode))"
    and "\<exists>bs2 bs3. m' = store (store (store m frame (load m e 64)) 0x8048000 bs2) entry_point bs3
      \<and> length bs2 \<le> 0x3B8000 \<and> length bs3 \<le> 4"
proof -
  let ?L = "file_length fs m inode" and ?m1 = "store m frame (load m e 64)"
  note safe = assms(3) [unfolded loader_safe_def]
  have f1: "file_length fs ?m1 inode = ?L" "file_bytes fs ?m1 inode = file_bytes fs m inode"
    "footprint fs ?m1 inode = footprint fs m inode"
    using store_file [of fs m inode frame "load m e 64"] safe by simp_all
  have L: "min 0x3B8000 ?L = ?L" using assms(5) by simp
  obtain m2 bs2 where 2: "read_data fs ?m1 inode 0 0x8048000 0x3B8000 = (of_nat ?L, m2)"
    "m2 = store ?m1 0x8048000 bs2" "length bs2 \<le> 0x3B8000" "load m2 0x8048000 ?L = file_bytes fs m inode"
    using read_data_delivers [of fs ?m1 inode "0x8048000" "0x3B8000" 0] safe f1 assms(5)
    by (simp add: L) metis
  have f2: "file_length fs m2 inode = ?L" "file_bytes fs m2 inode = file_bytes fs m inode"
    "footprint fs m2 inode = footprint fs m inode"
    using store_file [of fs ?m1 inode "0x8048000" bs2] clear_of_mono [of _ "0x8048000" "0x3B8000" "length bs2"] safe f1 2
    by simp_all
  have apart: "clear_of ((\<lambda>j. frame + 36 + j) ` {0, 1, 2, 3}) 0x8048000 (length bs2)"
    using safe clear_of_mono [OF _ 2(3)] by blast
  have idx: "inode_index_of m2 frame = inode"
    unfolding inode_index_of_def 2(2) store_get32 [OF apart subset_refl]
    using inode_index_store [of m frame e] assms(2) by (simp add: inode_index_of_def)
  have four: "min 4 (?L - 24) = 4" using assms(4) by simp
  obtain m3 bs3 where 3: "read_data fs m2 inode 24 entry_point 4 = (of_nat 4, m3)"
    "m3 = store m2 entry_point bs3" "length bs3 \<le> 4" "load m3 entry_point 4 = take 4 (drop 24 (file_bytes fs m inode))"
    using read_data_delivers [of fs m2 inode entry_point 4 24] safe f2 assms(4,5)
    by (simp add: four) metis
  have "m3 (0x8048000 + of_nat j) = m2 (0x8048000 + of_nat j)" if "j < ?L" for j
  proof -
    have "4 \<le> unat (0x8048000 + of_nat j - entry_point)" using safe that unfolding clear_of_def by blast
    then show ?thesis using 3(2,3) store_other [of bs3 _ entry_point m2] by simp
  qed
  then have "load m3 0x8048000 ?L = load m2 0x8048000 ?L" by (auto simp: load_def)
  then show thesis
    using 2 3 idx assms(1) inode_index_store [of m frame e] assms(2)
    by (intro that [of m3]) (auto simp: loader_def entry_point_word)
qed

lemma executable_check_result:
  assumes "clear_of (footprint fs m inode) magic_buf 4" "inode_index_of m dentry = inode"
    and "Suc (file_length fs m inode) < 2 ^ 32" "magic_buf \<noteq> 0"
    and "file_bytes fs m inode = [] \<or> 4 \<le> file_length fs m inode"
  shows "\<exists>bs. length bs \<le> 4 \<and> executable_check fs magic_buf m dentry
    = (if file_bytes fs m inode = [] \<or> take 4 (file_bytes fs m inode) = [0x7f, 0x45, 0x4c, 0x46] then 0 else 1,
       store m magic_buf bs)"
proof (rule read_data_delivers [of fs m inode magic_buf 4 0])
  show "clear_of (footprint fs m inode) magic_buf (unat (4 :: u32))" using assms(1) by simp
  fix m' bs
  assume r: "read_data fs m inode 0 magic_buf 4 = (of_nat (min (unat (4 :: u32)) (file_length fs m inode - unat (0 :: u32))), m')"
    and m': "m' = store m magic_buf bs" "length bs \<le> unat (4 :: u32)"
    and l: "load m' magic_buf (min (unat (4 :: u32)) (file_length fs m inode - unat (0 :: u32)))
      = take (unat (4 :: u32)) (drop (unat (0 :: u32)) (file_bytes fs m inode))"
  show ?thesis
  proof (cases "file_bytes fs m inode = []")
    case True
    then have "file_length fs m inode = 0" using length_file_bytes [of fs m inode] by simp
    then show ?thesis using r m' assms(2) True by (auto simp: executable_check_def)
  next
    case False
    then have four: "min 4 (file_length fs m inode) = 4" using assms(5) by simp
    then have "take 4 (file_bytes fs m inode) = [m' magic_buf, m' (magic_buf + 1), m' (magic_buf + 2), m' (magic_buf + 3)]"
      using l by (simp add: load_def upt_rec)
    then show ?thesis using r m' assms(2) False by (auto simp: executable_check_def four)
  qed
qed (use assms in simp_all)

section \<open>A sample image\<close>

text \<open>One file, \<^verbatim>\<open>sh\<close>, of 28 bytes: an ELF header whose entry point is 0x08048094.\<close>

definition sample_fs :: fs where
  "sample_fs = \<lparr>boot_block = 0x500000, fs_end = 0x503000, num_directories = 1, num_inodes = 1\<rparr>"

definition sample_image :: mem where
  "sample_image =
     store (store (store (store (store (\<lambda>_. 0)
       0x500000 [1, 0, 0, 0, 1, 0, 0, 0, 1])
       0x500040 [0x73, 0x68])
       0x500060 [2])
       0x501000 [28])
       0x502000 [0x7f, 0x45, 0x4c, 0x46, 1, 1, 1, 0, 0, 0, 0, 0, 0, 0, 0, 0, 2, 0, 3, 0, 1, 0, 0, 0, 0x94, 0x80, 4, 8]"

lemma sample_length: "file_length sample_fs sample_image 0 = 28"
  by (simp add: file_length_def inode_length_def inode_address_def sample_fs_def sample_image_def get32_def store_def)

lemma sample_inode: "inode_address sample_fs 0 = 0x501000"
  by (simp add: inode_address_def sample_fs_def)

lemma sample_byte_at: "k \<le> 28 \<Longrightarrow> byte_at sample_fs sample_image 0 k = 0x502000 + of_nat k"
proof -
  have blk: "data_blocks sample_fs sample_image = 0x502000"
    by (simp add: data_blocks_def inode_num_def sample_fs_def sample_image_def get32_def store_def)
  have blk0: "inode_data sample_image 0x501000 0 = 0"
    by (simp add: inode_data_def sample_image_def get32_def store_def)
  show "k \<le> 28 \<Longrightarrow> byte_at sample_fs sample_image 0 k = 0x502000 + of_nat k"
    by (simp add: byte_at_def block_at_def blk blk0 sample_inode)
qed

lemma sample_footprint:
  assumes "a \<in> footprint sample_fs sample_image 0"
  shows "0x500000 \<le> a \<and> a < 0x503000"
proof -
  have "a \<in> {0x500004, 0x500005, 0x500006, 0x500007, 0x501000, 0x501001, 0x501002, 0x501003,
      0x501004, 0x501005, 0x501006, 0x501007} \<union> (\<lambda>k. 0x502000 + of_nat k) ` {..28}"
    using assms by (auto simp: footprint_def sample_length sample_inode sample_byte_at) (simp_all add: sample_fs_def)
  then show ?thesis
    by (auto simp: word_le_nat_alt word_less_nat_alt unat_word_ariths unat_of_nat_u32)
qed

lemma sample_clear:
  assumes "0x503000 \<le> buf" "unat buf + n \<le> 2 ^ 32"
  shows "clear_of (footprint sample_fs sample_image 0) buf n"
  unfolding clear_of_def
proof
  fix a assume "a \<in> footprint sample_fs sample_image 0"
  from sample_footprint [OF this] have a: "0x500000 \<le> unat a" "unat a < 0x503000"
    by (simp_all add: word_le_nat_alt word_less_nat_alt)
  have "0x503000 \<le> unat buf" using assms(1) by (simp add: word_le_nat_alt)
  then have "unat (a - buf) = 2 ^ 32 + unat a - unat buf"
    using a unat_sub_if' [of a buf] by simp
  then show "n \<le> unat (a - buf)" using a assms(2) by simp
qed

lemma sample_directory: "directory sample_fs sample_image [[0x73, 0x68]]"
  by (simp add: directory_def cstr_def load_def dentry_directory_def sample_fs_def sample_image_def store_def upt_rec)

lemma sample_name: "cstr sample_image 0x500040 [0x73, 0x68]"
  using sample_directory by (simp add: directory_def dentry_directory_def sample_fs_def)

lemma sample_index: "inode_index_of sample_image 0x500040 = 0"
  by (simp add: inode_index_of_def sample_image_def get32_def store_def)

lemma sample_magic: "take 4 (file_bytes sample_fs sample_image 0) = [0x7f, 0x45, 0x4c, 0x46]"
  by (simp add: file_bytes_def sample_length upt_rec sample_byte_at) (simp add: sample_image_def store_def)

section \<open>Properties\<close>

lemma get32_bytes: "map (\<lambda>j. ucast (drop_bit (8 * j) (get32 m a))) [0..<4] = load m a 4"
proof -
  have "ucast (get32 m a) = m a" "ucast (drop_bit 8 (get32 m a)) = m (a + 1)"
    "ucast (drop_bit 16 (get32 m a)) = m (a + 2)" "ucast (drop_bit 24 (get32 m a)) = m (a + 3)"
    by (rule bit_eqI, auto simp: get32_def bit_simps dest: bit_imp_le_length)+
  then show ?thesis by (simp add: load_def upt_rec [of _ "4"])
qed

text \<open>C12: \<open>read_data\<close> delivers the file.  For a buffer that does not overlap the file's part of
  the image, a read of \<open>len\<close> bytes at offset \<open>off\<close> returns the number of bytes between \<open>off\<close> and
  the end of the file, at most \<open>len\<close>, stores exactly those bytes of the file at the start of
  the buffer, and changes no byte of memory outside the buffer's \<open>len\<close> bytes; at or past the
  end of the file it returns 0.\<close>

theorem read_data_correct:
  assumes "clear_of (footprint fs m inode) buf (unat len)" "Suc (file_length fs m inode) < 2 ^ 32" "buf \<noteq> 0"
  shows "\<exists>n m'. read_data fs m inode off buf len = (of_nat n, m')
    \<and> n = min (unat len) (file_length fs m inode - unat off)
    \<and> load m' buf n = take (unat len) (drop (unat off) (file_bytes fs m inode))
    \<and> (\<forall>a. unat len \<le> unat (a - buf) \<longrightarrow> m' a = m a)"
proof (cases "unat off \<le> file_length fs m inode")
  case True
  show ?thesis
  proof (rule read_data_delivers [OF assms True])
    fix m' bs
    assume *: "read_data fs m inode off buf len = (of_nat (min (unat len) (file_length fs m inode - unat off)), m')"
      "m' = store m buf bs" "length bs \<le> unat len"
      "load m' buf (min (unat len) (file_length fs m inode - unat off)) = take (unat len) (drop (unat off) (file_bytes fs m inode))"
    have "\<forall>a. unat len \<le> unat (a - buf) \<longrightarrow> m' a = m a"
      using *(2,3) store_other [of bs _ buf m] by (meson order_trans)
    with *(1,4) show ?thesis by blast
  qed
next
  case False
  then show ?thesis
    using read_data_past_end [of fs m inode off buf len] assms(3) by (simp add: load_def)
qed

theorem read_data_correct_witness:
  "\<exists>m'. read_data sample_fs sample_image 0 24 0x600000 16 = (4, m')
    \<and> load m' 0x600000 4 = take 16 (drop 24 (file_bytes sample_fs sample_image 0))"
  using read_data_correct [OF sample_clear [of "0x600000" "unat (16 :: u32)"], of 24] by (auto simp: sample_length)

text \<open>C13: Reading a file piece by piece yields the file.  After \<open>k\<close> calls of \<open>file_read\<close> with a
  buffer of \<open>len\<close> bytes on a freshly opened descriptor, the bytes delivered are the first
  \<open>k * len\<close> bytes of the file in order (all of it once \<open>k * len\<close> reaches its length), and
  the descriptor's position is the number of bytes delivered.\<close>

theorem file_read_stream:
  assumes "clear_of (footprint fs m inode) buf (unat len)" "Suc (file_length fs m inode) < 2 ^ 32" "buf \<noteq> 0"
    and "elements (pcbs cur) fd = \<lparr>file_operation_jmp_tbl = File_driver, inode_ptr = inode, file_position = 0, flags = 1\<rparr>"
  shows "\<exists>m' pcbs'. reads k fs fd buf len m cur pcbs = (take (k * unat len) (file_bytes fs m inode), m', pcbs')
    \<and> file_position (elements (pcbs' cur) fd) = of_nat (min (k * unat len) (file_length fs m inode))"
  using reads_collect [OF assms(1-3), of pcbs cur fd k] assms(4) by auto

theorem file_read_stream_witness:
  "\<exists>m' pcbs'. reads 2 sample_fs 2 0x600000 16 sample_image 0x7fe000
      (\<lambda>_. (sample_pcb\<lparr>elements := \<lambda>_. \<lparr>file_operation_jmp_tbl = File_driver, inode_ptr = 0, file_position = 0, flags = 1\<rparr>\<rparr>))
      = (file_bytes sample_fs sample_image 0, m', pcbs')"
proof -
  have "take (2 * unat (16 :: u32)) (file_bytes sample_fs sample_image 0) = file_bytes sample_fs sample_image 0"
    by (simp add: sample_length)
  then show ?thesis
    using file_read_stream [OF sample_clear [of "0x600000" "unat (16 :: u32)"], of
      "\<lambda>_. (sample_pcb\<lparr>elements := \<lambda>_. \<lparr>file_operation_jmp_tbl = File_driver, inode_ptr = 0, file_position = 0, flags = 1\<rparr>\<rparr>)"
      "0x7fe000" 2 2] by (auto simp: sample_length)
qed

text \<open>C14: \<open>read_dentry_by_name\<close> finds a file by its name.  In a directory whose entries have
  NUL-terminated names it copies the first entry with exactly the requested name to the
  caller's \<^verbatim>\<open>dentry\<close> and returns 0, and returns -1 without any change when no entry has the
  name; \<open>read_dentry_by_index\<close> copies the entry with a valid index and rejects any other.\<close>

theorem directory_lookup:
  assumes "directory fs m names" "cstr m fname s" "dentry \<noteq> 0"
    and "\<forall>i<length names. 64 \<le> unat (dentry - dentry_directory (boot_block fs) (of_nat i))"
  shows "read_dentry_by_name fs m fname dentry = Some
      (case find (\<lambda>i. names ! i = s) [0..<length names] of None \<Rightarrow> (-1, m)
       | Some i \<Rightarrow> (0, store m dentry (load m (dentry_directory (boot_block fs) (of_nat i)) 64)))
    \<and> (\<forall>i<length names. read_dentry_by_index fs m (of_nat i) dentry
        = (0, store m dentry (load m (dentry_directory (boot_block fs) (of_nat i)) 64)))
    \<and> (\<forall>index. length names \<le> unat index \<longrightarrow> read_dentry_by_index fs m index dentry = (-1, m))"
proof -
  have n: "length names = unat (num_directories fs)" "length names < 2 ^ 32"
    using assms(1) unsigned_less [of "num_directories fs", where 'a = nat] by (simp_all add: directory_def)
  have "read_dentry_by_index fs m (of_nat i) dentry
      = (0, store m dentry (load m (dentry_directory (boot_block fs) (of_nat i)) 64))" if "i < length names" for i
    using memcpy_copied [of dentry "dentry_directory (boot_block fs) (of_nat i)" 64 m] assms(3,4) that n
    by (simp add: read_dentry_by_index_def copied_eq_store word_less_nat_alt unat_of_nat_u32)
  moreover have "\<forall>index. length names \<le> unat index \<longrightarrow> read_dentry_by_index fs m index dentry = (-1, m)"
    using n by (auto simp: read_dentry_by_index_def word_less_nat_alt)
  ultimately show ?thesis using read_dentry_by_name_names [OF assms(1-3)] assms(4) by blast
qed

theorem directory_lookup_witness:
  "read_dentry_by_name sample_fs sample_image 0x500040 0x600000
    = Some (0, store sample_image 0x600000 (load sample_image 0x500040 64))"
  using directory_lookup [OF sample_directory sample_name, of "0x600000"]
  by (simp add: dentry_directory_def sample_fs_def)

text \<open>A file whose name fills all 32 bytes of its directory entry cannot be opened by that
  name: the entry has no room for a terminator, so \<open>strlen\<close> runs into the type field and
  the lengths never agree.\<close>

theorem full_length_name_hidden:
  assumes "directory fs m names" "i < length names" "cstr m fname s" "length s = 32"
    and "\<forall>j<32. m (dentry_directory (boot_block fs) (of_nat i) + of_nat j) \<noteq> 0"
    and "filetype_of m (dentry_directory (boot_block fs) (of_nat i)) = FILE_TYPE"
  shows "find_dentry fs m fname 0 \<noteq> Some (Some (of_nat i))"
proof -
  let ?e = "dentry_directory (boot_block fs) (of_nat i)"
  have e: "cstr m ?e (names ! i)" using assms(1,2) by (simp add: directory_def)
  have "cstr m ?e (load m ?e 32 @ [2])" by (rule full_length_name [OF assms(5) [rule_format] assms(6)])
  from cstr_unique [OF e this] have "length (names ! i) = 33" by simp
  then have neq: "names ! i \<noteq> s" using assms(4) by auto
  show ?thesis
  proof
    assume "find_dentry fs m fname 0 = Some (Some (of_nat i))"
    then obtain k where k: "find (\<lambda>i. names ! i = s) [0..<length names] = Some k" "(of_nat k :: u32) = of_nat i"
      using find_dentry_names [OF assms(1,3), of 0] by (cases "find (\<lambda>i. names ! i = s) [0..<length names]") simp_all
    have "k < length names" "names ! k = s" using find_SomeD [OF k(1)] by simp_all
    moreover have "length names < 2 ^ 32"
      using assms(1) unsigned_less [of "num_directories fs", where 'a = nat] by (simp add: directory_def)
    ultimately have "k = i" using k(2) assms(2) by (metis less_trans unat_of_nat_u32)
    with \<open>names ! k = s\<close> neq show False by simp
  qed
qed

theorem full_length_name_hidden_witness:
  "find_dentry sample_fs (store (store (store (\<lambda>_. 0) 0x500060 [2]) 0x500040 (replicate 32 0x61)) 0x600000 (replicate 32 0x61))
     0x600000 0 \<noteq> Some (Some (of_nat 0))"
proof -
  let ?m = "store (store (store (\<lambda>_. 0) 0x500060 [2]) 0x500040 (replicate 32 0x61)) 0x600000 (replicate 32 0x61)"
  have m: "?m (0x500040 + of_nat j) = 0x61" "?m (0x600000 + of_nat j) = 0x61" if "j < 32" for j
    using that by (simp_all add: store_def unat_word_ariths unat_of_nat_u32)
  have t: "filetype_of ?m 0x500040 = FILE_TYPE" "?m 0x600020 = 0"
    by (simp_all add: filetype_of_def get32_def store_def)
  have l: "load ?m 0x500040 32 = replicate 32 0x61" "load ?m 0x600000 32 = replicate 32 0x61"
    using m by (auto simp: load_def intro!: nth_equalityI)
  have "cstr ?m 0x500040 (replicate 32 0x61 @ [2])"
    using full_length_name [of ?m "0x500040"] m(1) t(1) unfolding l by simp
  moreover have "cstr ?m 0x600000 (replicate 32 0x61)"
    unfolding cstr_def using l(2) t(2) by simp
  ultimately show ?thesis
    using full_length_name_hidden [of sample_fs ?m "[replicate 32 0x61 @ [2]]" 0 "0x600000" "replicate 32 0x61"] m(1) t(1)
    by (simp add: directory_def dentry_directory_def sample_fs_def)
qed

text \<open>\<open>loader\<close> puts a program where it runs.  For the first directory entry with the given
  name, when the file holds at least an ELF header and fits between 0x08048000 and the end
  of the 4 MB page, \<open>loader\<close> copies the whole file to 0x08048000 and returns the
  little-endian word at bytes 24 to 27 of the file.\<close>

theorem loader_places_program:
  assumes "directory fs m names" "cstr m filename s" "frame \<noteq> 0"
    and "\<forall>i<length names. 64 \<le> unat (frame - dentry_directory (boot_block fs) (of_nat i))"
    and "find (\<lambda>i. names ! i = s) [0..<length names] = Some i"
    and "inode_index_of m (dentry_directory (boot_block fs) (of_nat i)) = inode"
    and "loader_safe fs m frame entry_point inode"
    and "28 \<le> file_length fs m inode" "file_length fs m inode \<le> 0x3B8000"
  shows "\<exists>v m'. loader fs frame entry_point m filename = Some (v, m')
    \<and> load m' 0x8048000 (file_length fs m inode) = file_bytes fs m inode
    \<and> map (\<lambda>j. ucast (drop_bit (8 * j) v)) [0..<4] = take 4 (drop 24 (file_bytes fs m inode))"
proof (rule loader_loads [OF _ assms(6-9)])
  let ?e = "dentry_directory (boot_block fs) (of_nat i)"
  show "read_dentry_by_name fs m filename frame = Some (0, store m frame (load m ?e 64))"
    using read_dentry_by_name_names [OF assms(1-3)] assms(4,5) by simp
  fix m'
  assume "loader fs frame entry_point m filename = Some (get32 m' entry_point, m')"
    "load m' 0x8048000 (file_length fs m inode) = file_bytes fs m inode"
    "load m' entry_point 4 = take 4 (drop 24 (file_bytes fs m inode))"
  then show ?thesis using get32_bytes [of m' entry_point] by metis
qed

theorem loader_places_program_witness:
  "\<exists>v m'. loader sample_fs 0x600000 0x600100 sample_image 0x500040 = Some (v, m')
    \<and> load m' 0x8048000 28 = file_bytes sample_fs sample_image 0"
proof -
  have "loader_safe sample_fs sample_image 0x600000 0x600100 0"
    unfolding loader_safe_def
    by (intro conjI sample_clear) (auto simp: sample_length clear_of_def unat_word_ariths unat_of_nat_u32)
  then show ?thesis
    using loader_places_program [OF sample_directory sample_name, of "0x600000" 0 0 "0x600100"] sample_length
    by (auto simp: dentry_directory_def sample_fs_def sample_image_def inode_index_of_def get32_def store_def)
qed

text \<open>\<open>executable_check\<close> accepts ELF files.  With a buffer clear of the file it returns 0 for
  a file that starts with 0x7f, E, L, F and for an empty file, and 1 for any other file of
  at least four bytes.\<close>

theorem executable_check_elf:
  assumes "clear_of (footprint fs m inode) magic_buf 4" "inode_index_of m dentry = inode"
    and "Suc (file_length fs m inode) < 2 ^ 32" "magic_buf \<noteq> 0"
    and "file_bytes fs m inode = [] \<or> 4 \<le> file_length fs m inode"
  shows "fst (executable_check fs magic_buf m dentry)
    = (if file_bytes fs m inode = [] \<or> take 4 (file_bytes fs m inode) = [0x7f, 0x45, 0x4c, 0x46] then 0 else 1)"
  using executable_check_result [OF assms] by auto

theorem executable_check_elf_witness:
  "fst (executable_check sample_fs 0x600000 sample_image 0x500040) = 0"
  using executable_check_elf [OF sample_clear [of "0x600000" 4], of "0x500040"] sample_length
  by (simp add: sample_index sample_magic)

end
