(* ===== verification/Termios.thy ===== *)
theory Termios
  imports Console Pcb
begin

text \<open>
  The virtual terminals of \<^verbatim>\<open>student-distrib/drivers/termios.c\<close>.  A terminal is an index into
  \<^verbatim>\<open>term_data_array\<close>; the pointers \<^verbatim>\<open>term_data\<close> and \<^verbatim>\<open>active_term\<close> of the C code are such indices,
  and \<open>screen_buf\<close> is the index in \<^verbatim>\<open>screen_buffers\<close> where the terminal's row starts (-1 the null
  pointer); the rows lie one behind the other, 2000 cells each.
  The active terminal's characters are in video memory, which is the one of the boot
  console (theory \<open>Console\<close>), the others' in their back buffers.  Array indices are
  integers, so that a write before or behind a screen is visible as such.  Disabling
  interrupts around a terminal switch has no counterpart: each operation is one step.
\<close>

abbreviation NR_TERM :: int where "NR_TERM \<equiv> 4"
abbreviation IN_BUF_SIZE :: int where "IN_BUF_SIZE \<equiv> 128"
abbreviation TERM_TAB_WIDTH :: int where "TERM_TAB_WIDTH \<equiv> 8"
abbreviation KEY_BACKSPACE :: u8 where "KEY_BACKSPACE \<equiv> 0x08"
abbreviation KEY_DELETE :: u8 where "KEY_DELETE \<equiv> 127"
abbreviation KEY_ENTER :: u8 where "KEY_ENTER \<equiv> 0x0A"
abbreviation KEY_TAB :: u8 where "KEY_TAB \<equiv> 0x09"

section \<open>State\<close>

record term_data =
  screen_buf :: int
  cur_x :: int
  cur_y :: int
  in_buf :: "u8 arr"
  in_dat_index :: int
  in_dat_end :: int
  in_dat_nr_ret :: int
  is_active :: u8
  usr_count :: u8

record terminals =
  term_data_array :: "term_data arr"
  active_term :: int
  screen_buffers :: "u16 arr"
  display :: console

definition upd_term :: "int \<Rightarrow> (term_data \<Rightarrow> term_data) \<Rightarrow> terminals \<Rightarrow> terminals" where
  "upd_term t f T = T\<lparr>term_data_array := (term_data_array T)(t := f (term_data_array T t))\<rparr>"

text \<open>The 16-bit cells of video memory.\<close>

definition video_cell :: "u8 arr \<Rightarrow> int \<Rightarrow> u16" where
  "video_cell v i = ucast (v (2 * i)) OR push_bit 8 (ucast (v (2 * i + 1)))"

definition set_video_cell :: "int \<Rightarrow> u16 \<Rightarrow> u8 arr \<Rightarrow> u8 arr" where
  "set_video_cell i w v = v(2 * i := ucast w, 2 * i + 1 := ucast (drop_bit 8 w))"

section \<open>Operations\<close>

definition zero_term_data :: term_data where
  "zero_term_data = \<lparr>screen_buf = -1, cur_x = 0, cur_y = 0, in_buf = (\<lambda>_. 0), in_dat_index = 0, in_dat_end = 0,
     in_dat_nr_ret = 0, is_active = 0, usr_count = 0\<rparr>"

text \<open>The length given to \<open>memset\<close> is four times the size of the whole array.\<close>

definition terminal_init :: "terminals \<Rightarrow> terminals" where
  "terminal_init T =
     (let T = for_range 0 (NR_TERM * NR_TERM) (\<lambda>i. upd_term i (\<lambda>_. zero_term_data)) T;
          T = T\<lparr>active_term := 0\<rparr>
      in for_range 0 NR_TERM (\<lambda>i. upd_term i (\<lambda>d. d\<lparr>screen_buf := NUM_ROWS * NUM_COLS * i\<rparr>)) T)"

text \<open>\<open>base\<close> is the address of \<^verbatim>\<open>screen_buffers\<close>.\<close>

definition term_data_ptr :: "u32 \<Rightarrow> int \<Rightarrow> terminals \<Rightarrow> u32" where
  "term_data_ptr base term_index T =
     (let b = screen_buf (term_data_array T term_index) in if b = -1 then 0 else base + of_int (2 * b))"

definition is_active_term :: "int \<Rightarrow> terminals \<Rightarrow> u8" where
  "is_active_term term_index T = (if term_index = active_term T then 1 else 0)"

definition cell :: "u8 \<Rightarrow> u16" where
  "cell the_char = push_bit 8 (ucast ATTRIB) OR scast the_char"

definition terminal_putc :: "int \<Rightarrow> u8 \<Rightarrow> int \<Rightarrow> int \<Rightarrow> terminals \<Rightarrow> terminals" where
  "terminal_putc t the_char x y T =
     (if t = active_term T
      then T\<lparr>display := (display T)\<lparr>video_mem := set_video_cell (y * NUM_COLS + x) (cell the_char) (video_mem (display T))\<rparr>\<rparr>
      else let b = screen_buf (term_data_array T t)
           in T\<lparr>screen_buffers := (screen_buffers T)(b + (y * NUM_COLS + x) := cell the_char)\<rparr>)"

definition terminal_getc :: "int \<Rightarrow> int \<Rightarrow> int \<Rightarrow> terminals \<Rightarrow> u8" where
  "terminal_getc t x y T =
     (if t = active_term T then ucast (video_cell (video_mem (display T)) (y * NUM_COLS + x))
      else ucast (screen_buffers T (screen_buf (term_data_array T t) + (y * NUM_COLS + x))))"

definition terminal_set_cursor :: "int \<Rightarrow> int \<Rightarrow> terminals \<Rightarrow> terminals" where
  "terminal_set_cursor row col T =
     (let position = (of_int (row * NUM_COLS + col) :: u16);
          log = ports (display T);
          log = outb 0x0F 0x3D4 log;
          log = outb (ucast (position AND 0xFF)) 0x3D5 log;
          log = outb 0x0E 0x3D4 log;
          log = outb (ucast (drop_bit 8 position AND 0xFF)) 0x3D5 log
      in T\<lparr>display := (display T)\<lparr>ports := log\<rparr>\<rparr>)"

definition terminal_refresh :: "int \<Rightarrow> terminals \<Rightarrow> terminals" where
  "terminal_refresh t T =
     (if t = active_term T
      then terminal_set_cursor (cur_y (term_data_array T t)) (cur_x (term_data_array T t)) T else T)"

definition terminal_scroll_up :: "int \<Rightarrow> terminals \<Rightarrow> terminals" where
  "terminal_scroll_up t T =
     (let T = for_range 0 (NUM_ROWS - 1) (\<lambda>y. for_range 0 NUM_COLS
            (\<lambda>x T. terminal_putc t (terminal_getc t x (y + 1) T) x y T)) T;
          T = for_range 0 NUM_COLS (\<lambda>x. terminal_putc t SPACE x (NUM_ROWS - 1)) T
      in upd_term t (\<lambda>d. d\<lparr>cur_y := cur_y d - 1\<rparr>) T)"

definition flush_input :: "term_data \<Rightarrow> term_data" where
  "flush_input d = d\<lparr>in_buf := for_range 0 IN_BUF_SIZE (\<lambda>i b. b(i := 0)) (in_buf d),
     in_dat_index := 0, in_dat_end := 0, in_dat_nr_ret := 0\<rparr>"

definition terminal_clear :: "int \<Rightarrow> terminals \<Rightarrow> terminals" where
  "terminal_clear t T =
     (let T = for_range 0 (NUM_ROWS * NUM_COLS) (\<lambda>i. terminal_putc t SPACE (i mod NUM_COLS) (i div NUM_COLS)) T;
          T = upd_term t flush_input T;
          T = upd_term t (\<lambda>d. d\<lparr>cur_x := 0, cur_y := 0\<rparr>) T
      in terminal_refresh t T)"

text \<open>To the start of the next line, scrolling at the bottom of the screen.\<close>

definition next_line :: "int \<Rightarrow> terminals \<Rightarrow> terminals" where
  "next_line t T =
     (let T = (if cur_y (term_data_array T t) = NUM_ROWS - 1 then terminal_scroll_up t T else T)
      in upd_term t (\<lambda>d. d\<lparr>cur_y := cur_y d + 1, cur_x := 0\<rparr>) T)"

definition print_key :: "int \<Rightarrow> u8 \<Rightarrow> terminals \<Rightarrow> terminals" where
  "print_key t key T =
     (let d = term_data_array T t;
          T = terminal_putc t key (cur_x d) (cur_y d) T
      in if cur_x d = NUM_COLS - 1 then next_line t T
         else upd_term t (\<lambda>d. d\<lparr>cur_x := cur_x d + 1\<rparr>) T)"

definition terminal_backspace :: "int \<Rightarrow> terminals \<Rightarrow> terminals" where
  "terminal_backspace t T =
     (let d = term_data_array T t in
      if cur_x d = 0 \<and> cur_y d \<noteq> 0 then
        let T = upd_term t (\<lambda>d. d\<lparr>cur_y := cur_y d - 1, cur_x := NUM_COLS - 1\<rparr>) T
        in terminal_putc t SPACE (NUM_COLS - 1) (cur_y d - 1) T
      else
        let x = cur_x d - 1; y = cur_y d;
            T = upd_term t (\<lambda>d. d\<lparr>cur_x := x\<rparr>) T;
            T = for_range x (NUM_COLS - 1) (\<lambda>i T. terminal_putc t (terminal_getc t (i + 1) y T) i y T) T
        in terminal_putc t SPACE (max x (NUM_COLS - 1)) y T)"

definition terminal_delete :: "int \<Rightarrow> terminals \<Rightarrow> terminals" where
  "terminal_delete t T =
     (let d = term_data_array T t; x = cur_x d; y = cur_y d;
          T = for_range x (NUM_ROWS - 1) (\<lambda>i T. terminal_putc t (terminal_getc t (i + 1) y T) i y T) T
      in terminal_putc t SPACE (max x (NUM_ROWS - 1) + 1) y T)"

definition terminal_tab :: "int \<Rightarrow> terminals \<Rightarrow> terminals" where
  "terminal_tab t T =
     (let T = upd_term t (\<lambda>d. d\<lparr>cur_x := (cur_x d sdiv TERM_TAB_WIDTH + 1) * TERM_TAB_WIDTH\<rparr>) T
      in if NUM_COLS - 1 \<le> cur_x (term_data_array T t) then next_line t T else T)"

definition terminal_handle_key :: "int \<Rightarrow> u8 \<Rightarrow> u8 \<Rightarrow> u8 \<Rightarrow> u8 \<Rightarrow> terminals \<Rightarrow> int \<times> terminals" where
  "terminal_handle_key t key scancode control alt T =
     (let T = (if key = KEY_BACKSPACE then terminal_backspace t T
               else if key = KEY_DELETE then terminal_delete t T
               else if key = KEY_ENTER then next_line t T
               else if key = KEY_TAB then terminal_tab t T
               else if control \<noteq> 0 then if key = chr CHR ''l'' then terminal_clear t T else T
               else if alt \<noteq> 0 then T
               else if key \<noteq> 0 then print_key t key T
               else if scancode = 0xFF then print_key t SPACE T
               else T)
      in (0, terminal_refresh t T))"

text \<open>\<open>t\<close> is the terminal of the running process, \<open>m\<close> the memory \<open>buf\<close> points into.\<close>

function terminal_write_loop :: "mem \<Rightarrow> int \<Rightarrow> u32 \<Rightarrow> int \<Rightarrow> int \<Rightarrow> terminals \<Rightarrow> int \<times> terminals" where
  "terminal_write_loop m t buf len i T =
     (if i < len then
        let (r, T) = terminal_handle_key t (m (buf + of_int i)) 0xFF 0 0 T
        in if r \<noteq> 0 then (i, T) else terminal_write_loop m t buf len (i + 1) T
      else (i, T))"
  by pat_completeness auto
termination
  by (relation "measure (\<lambda>(m, t, buf, len, i, T). nat (len - i))") auto

declare terminal_write_loop.simps [simp del]

definition terminal_write :: "mem \<Rightarrow> u32 \<Rightarrow> (u32 \<Rightarrow> pcb) \<Rightarrow> u32 \<Rightarrow> int \<Rightarrow> terminals \<Rightarrow> int \<times> terminals" where
  "terminal_write m cur pcbs buf len T = terminal_write_loop m (pcb_term (pcbs cur)) buf len 0 T"

text \<open>The wait of \<open>terminal_read\<close>: \<open>arrivals\<close> is what the interrupt handlers do while it spins, one
  function for each interrupt; \<open>None\<close> when it still spins after the last one.\<close>

fun terminal_read_wait :: "int \<Rightarrow> (terminals \<Rightarrow> terminals) list \<Rightarrow> terminals \<Rightarrow> terminals option" where
  "terminal_read_wait t arrivals T =
     (if in_dat_nr_ret (term_data_array T t) \<noteq> 0 then Some T
      else case arrivals of [] \<Rightarrow> None | h # hs \<Rightarrow> terminal_read_wait t hs (h T))"

declare terminal_read_wait.simps [simp del]

text \<open>The copy loop: the count, the number of newlines moved and the buffer.\<close>

function terminal_read_copy :: "term_data \<Rightarrow> u32 \<Rightarrow> int \<Rightarrow> int \<Rightarrow> mem \<Rightarrow> int \<times> u8 \<times> mem" where
  "terminal_read_copy d buf len i m =
     (if i < in_dat_end d \<and> i < len then
        let m = m(buf + of_int i := in_buf d i)
        in if m (buf + of_int i) = NEWLINE then (i + 1, 1, m) else terminal_read_copy d buf len (i + 1) m
      else (i, 0, m))"
  by pat_completeness auto
termination
  by (relation "measure (\<lambda>(d, buf, len, i, m). nat (len - i))") auto

declare terminal_read_copy.simps [simp del]

text \<open>What is left is moved to the front of the input buffer of the \<^emph>\<open>active\<close> terminal.\<close>

definition terminal_read :: "(terminals \<Rightarrow> terminals) list \<Rightarrow> u32 \<Rightarrow> (u32 \<Rightarrow> pcb) \<Rightarrow> u32 \<Rightarrow> int \<Rightarrow> mem \<Rightarrow> terminals
    \<Rightarrow> (int \<times> mem \<times> terminals) option" where
  "terminal_read arrivals cur pcbs buf len m T =
     (let t = pcb_term (pcbs cur) in
      case terminal_read_wait t arrivals T of None \<Rightarrow> None
      | Some T \<Rightarrow>
        let (i, cr_read, m) = terminal_read_copy (term_data_array T t) buf len 0 m;
            left = max 0 (in_dat_end (term_data_array T t) - i);
            T = for_range 0 left (\<lambda>j T. upd_term (active_term T)
                  (\<lambda>d. d\<lparr>in_buf := (in_buf d)(j := in_buf (term_data_array T t) (i + j))\<rparr>) T) T;
            T = upd_term t (\<lambda>d. d\<lparr>in_dat_end := left, in_dat_index := in_dat_index d - i,
                  in_dat_nr_ret := in_dat_nr_ret d - sint cr_read\<rparr>) T
        in Some (i, m, T))"

definition input_backspace :: "term_data \<Rightarrow> term_data" where
  "input_backspace d =
     (let i = in_dat_index d - 1
      in d\<lparr>in_dat_index := i, in_buf := for_range i (in_dat_end d - 1) (\<lambda>i b. b(i := b (i + 1))) (in_buf d),
           in_dat_end := in_dat_end d - 1\<rparr>)"

definition input_delete :: "term_data \<Rightarrow> term_data" where
  "input_delete d =
     d\<lparr>in_buf := for_range (in_dat_index d - 1) (in_dat_end d) (\<lambda>i b. b(i := b (i + 1))) (in_buf d),
       in_dat_end := in_dat_end d - 1\<rparr>"

definition input_insert :: "u8 \<Rightarrow> term_data \<Rightarrow> term_data" where
  "input_insert key d =
     (let e = in_dat_end d + 1; x = in_dat_index d + 1;
          b = for_range x e (\<lambda>i b. b(i := b (i - 1))) (in_buf d)
      in d\<lparr>in_dat_end := e, in_dat_index := x, in_buf := b(x - 1 := key),
           in_dat_nr_ret := (if key = KEY_ENTER then in_dat_nr_ret d + 1 else in_dat_nr_ret d)\<rparr>)"

definition input_process_key :: "u8 \<Rightarrow> u8 \<Rightarrow> u8 \<Rightarrow> u8 \<Rightarrow> terminals \<Rightarrow> int \<times> terminals" where
  "input_process_key key scancode control alt T =
     (let a = active_term T; d = term_data_array T a in
      if is_active d = 0 then (0, T)
      else
        let (is_modified, d') =
              (if key = KEY_BACKSPACE then if in_dat_index d = 0 then (False, d) else (True, input_backspace d)
               else if key = KEY_DELETE then
                 if in_dat_index d < in_dat_end d then (True, input_delete d) else (False, d)
               else if key \<noteq> 0 \<and> in_dat_end d < IN_BUF_SIZE then (True, input_insert key d)
               else (False, d));
            T = upd_term a (\<lambda>_. d') T;
            (_, T) = terminal_handle_key a (if is_modified then key else 0) scancode control alt T
        in (0, T))"

definition terminal_open :: "int \<Rightarrow> terminals \<Rightarrow> int \<times> terminals" where
  "terminal_open vtnum T =
     (if usr_count (term_data_array T vtnum) \<noteq> 0 then (0, T)
      else let T = terminal_clear vtnum T;
               T = upd_term vtnum flush_input T
           in (0, upd_term vtnum (\<lambda>d. d\<lparr>is_active := 1\<rparr>) T))"

text \<open>The pointer is never set; \<open>wild\<close> is the terminal it happens to point to.\<close>

definition terminal_close :: "int \<Rightarrow> terminals \<Rightarrow> int \<times> terminals" where
  "terminal_close wild T =
     (let T = upd_term wild (\<lambda>d. d\<lparr>usr_count := usr_count d - 1\<rparr>) T
      in (0, if usr_count (term_data_array T wild) = 0 then upd_term wild (\<lambda>d. d\<lparr>is_active := 0\<rparr>) T else T))"

definition terminal_switch :: "int \<Rightarrow> terminals \<Rightarrow> terminals" where
  "terminal_switch term_num T =
     (if term_num = active_term T then T
      else
        let b = screen_buf (term_data_array T (active_term T));
            T = for_range 0 (NUM_ROWS * NUM_COLS) (\<lambda>i T. T\<lparr>screen_buffers := (screen_buffers T)(b + i :=
                  video_cell (video_mem (display T)) i)\<rparr>) T;
            n = screen_buf (term_data_array T term_num);
            T = for_range 0 (NUM_ROWS * NUM_COLS) (\<lambda>i T. T\<lparr>display := (display T)\<lparr>video_mem :=
                  set_video_cell i (screen_buffers T (n + i)) (video_mem (display T))\<rparr>\<rparr>) T;
            T = upd_term (active_term T) (\<lambda>d. d\<lparr>is_active := 0\<rparr>) T;
            T = upd_term term_num (\<lambda>d. d\<lparr>is_active := 1\<rparr>) T;
            T = T\<lparr>active_term := term_num\<rparr>
        in terminal_refresh (active_term T) T)"

section \<open>What a terminal shows\<close>

definition shown :: "int \<Rightarrow> terminals \<Rightarrow> int \<Rightarrow> u16" where
  "shown t T k = (if t = active_term T then video_cell (video_mem (display T)) k
     else screen_buffers T (screen_buf (term_data_array T t) + k))"

definition term_screen :: "int \<Rightarrow> terminals \<Rightarrow> ascreen" where
  "term_screen t T = \<lparr>at_col = cur_x (term_data_array T t), at_row = cur_y (term_data_array T t),
     cells = grid (\<lambda>r c. ucast (shown t T (r * NUM_COLS + c)))\<rparr>"

definition terms_ok :: "terminals \<Rightarrow> bool" where
  "terms_ok T \<longleftrightarrow> active_term T \<in> {0..<NR_TERM}
     \<and> (\<forall>i\<in>{0..<NR_TERM}. screen_buf (term_data_array T i) = NUM_ROWS * NUM_COLS * i)"

definition cursor_ok :: "term_data \<Rightarrow> bool" where
  "cursor_ok d \<longleftrightarrow> on_screen (cur_y d) (cur_x d)"

lemma video_cell_set [simp]: "video_cell (set_video_cell i w v) j = (if j = i then w else video_cell v j)"
proof (cases "j = i")
  case True
  have "ucast (ucast w :: u8) OR push_bit 8 (ucast (ucast (drop_bit 8 w) :: u8)) = w"
    by (rule bit_eqI) (auto simp: bit_simps)
  with True show ?thesis by (simp add: video_cell_def set_video_cell_def)
next
  case False
  then have "2 * j \<noteq> 2 * i" "2 * j \<noteq> 2 * i + 1" "2 * j + 1 \<noteq> 2 * i" "2 * j + 1 \<noteq> 2 * i + 1"
    by presburger+
  with False show ?thesis by (simp add: video_cell_def set_video_cell_def)
qed

lemma cell_char_low [simp]: "ucast (cell c) = c"
proof -
  have "ucast (push_bit 8 w OR scast c :: u16) = c" for w :: u16
    by (rule bit_eqI) (auto simp: bit_simps)
  then show ?thesis unfolding cell_def .
qed

lemma terminal_getc_shown: "terminal_getc t x y T = ucast (shown t T (y * NUM_COLS + x))"
  by (simp add: terminal_getc_def shown_def)

lemma shown_putc: "shown t (terminal_putc t c x y T) = (shown t T)(y * NUM_COLS + x := cell c)"
  by (auto simp: shown_def terminal_putc_def Let_def fun_eq_iff)

lemma upd_term_simps [simp]:
  "term_data_array (upd_term t f T) = (term_data_array T)(t := f (term_data_array T t))"
  "active_term (upd_term t f T) = active_term T"
  "screen_buffers (upd_term t f T) = screen_buffers T"
  "display (upd_term t f T) = display T"
  by (simp_all add: upd_term_def)

lemma upd_term_upd: "upd_term t f (upd_term t g T) = upd_term t (f \<circ> g) T"
  by (simp add: upd_term_def)

lemma terminal_putc_frame [simp]:
  "term_data_array (terminal_putc t c x y T) = term_data_array T"
  "active_term (terminal_putc t c x y T) = active_term T"
  by (simp_all add: terminal_putc_def Let_def)

lemma shown_upd_term [simp]:
  "(\<And>d. screen_buf (f d) = screen_buf d) \<Longrightarrow> shown u (upd_term t f T) = shown u T"
  by (auto simp: shown_def fun_eq_iff)

lemma terminal_refresh_frame [simp]:
  "term_data_array (terminal_refresh t T) = term_data_array T"
  "active_term (terminal_refresh t T) = active_term T"
  "shown u (terminal_refresh t T) = shown u T"
  by (simp_all add: terminal_refresh_def terminal_set_cursor_def Let_def shown_def fun_eq_iff)

section \<open>A terminal's operations touch nothing but the terminal\<close>

definition touches :: "int \<Rightarrow> terminals \<Rightarrow> terminals \<Rightarrow> bool" where
  "touches t T T' \<longleftrightarrow> active_term T' = active_term T
     \<and> (\<forall>u. u \<noteq> t \<longrightarrow> term_data_array T' u = term_data_array T u)
     \<and> screen_buf (term_data_array T' t) = screen_buf (term_data_array T t)
     \<and> screen_x (display T') = screen_x (display T) \<and> screen_y (display T') = screen_y (display T)
     \<and> (if t = active_term T then screen_buffers T' = screen_buffers T
          \<and> in_bounds 4000 (video_mem (display T)) (video_mem (display T'))
        else video_mem (display T') = video_mem (display T)
          \<and> (\<forall>k. screen_buffers T' k \<noteq> screen_buffers T k \<longrightarrow>
               k - screen_buf (term_data_array T t) \<in> {0..<NUM_ROWS * NUM_COLS}))"

lemma touches_refl [simp, intro]: "touches t T T"
  by (simp add: touches_def)

lemma touches_trans [trans]: "touches t T T' \<Longrightarrow> touches t T' T'' \<Longrightarrow> touches t T T''"
  by (cases "t = active_term T") (force simp: touches_def intro: in_bounds_trans)+

lemma touches_putc: "on_screen y x \<Longrightarrow> touches t T (terminal_putc t c x y T)"
  by (auto simp: touches_def terminal_putc_def Let_def on_screen_def set_video_cell_def intro!: in_bounds_upd)

lemma touches_upd_term: "(\<And>d. screen_buf (f d) = screen_buf d) \<Longrightarrow> touches t T (upd_term t f T)"
  by (simp add: touches_def)

lemma touches_refresh: "touches t T (terminal_refresh t T)"
  by (simp add: touches_def terminal_refresh_def terminal_set_cursor_def Let_def)

lemma touches_for_range:
  assumes "\<And>i T. lo \<le> i \<Longrightarrow> i < hi \<Longrightarrow> touches t T (f i T)"
  shows "touches t T (for_range lo hi f T)"
  by (rule for_range_preserves [where P = "touches t T"]) (use assms touches_trans in blast)+

lemma touches_scroll_up: "touches t T (terminal_scroll_up t T)"
proof -
  let ?T1 = "for_range 0 (NUM_ROWS - 1) (\<lambda>y. for_range 0 NUM_COLS
    (\<lambda>x T. terminal_putc t (terminal_getc t x (y + 1) T) x y T)) T"
  have "touches t T ?T1"
    by (intro touches_for_range touches_putc) (simp add: on_screen_def)
  also have "touches t ?T1 (for_range 0 NUM_COLS (\<lambda>x. terminal_putc t SPACE x (NUM_ROWS - 1)) ?T1)"
    by (intro touches_for_range touches_putc) (simp add: on_screen_def)
  also have "touches t \<dots> (terminal_scroll_up t T)"
    unfolding terminal_scroll_up_def Let_def by (rule touches_upd_term) simp
  finally show ?thesis .
qed

lemma touches_next_line: "touches t T (next_line t T)"
  unfolding next_line_def Let_def
  by (rule touches_trans [OF _ touches_upd_term]) (simp_all add: touches_scroll_up)

lemma touches_print_key:
  assumes "cursor_ok (term_data_array T t)"
  shows "touches t T (print_key t c T)"
  unfolding print_key_def Let_def
  by (rule touches_trans [OF touches_putc [where c = c]])
    (use assms in \<open>auto simp: cursor_ok_def touches_next_line touches_upd_term\<close>)

lemma touches_clear: "touches t T (terminal_clear t T)"
proof -
  let ?T1 = "for_range 0 (NUM_ROWS * NUM_COLS) (\<lambda>i. terminal_putc t SPACE (i mod NUM_COLS) (i div NUM_COLS)) T"
  have "touches t T ?T1"
    by (intro touches_for_range touches_putc) (auto simp: on_screen_def)
  also have "touches t ?T1 (upd_term t flush_input ?T1)"
    by (rule touches_upd_term) (simp add: flush_input_def)
  also have "touches t \<dots> (upd_term t (\<lambda>d. d\<lparr>cur_x := 0, cur_y := 0\<rparr>) (upd_term t flush_input ?T1))"
    by (rule touches_upd_term) simp
  also have "touches t \<dots> (terminal_clear t T)"
    unfolding terminal_clear_def Let_def by (rule touches_refresh)
  finally show ?thesis .
qed

lemma touches_backspace:
  assumes "cursor_ok (term_data_array T t)" "cur_x (term_data_array T t) \<noteq> 0 \<or> cur_y (term_data_array T t) \<noteq> 0"
  shows "touches t T (terminal_backspace t T)"
proof (cases "cur_x (term_data_array T t) = 0")
  case True
  then show ?thesis
    using assms touches_trans [OF touches_upd_term touches_putc]
    by (simp add: terminal_backspace_def Let_def cursor_ok_def on_screen_def)
next
  case False
  let ?x = "cur_x (term_data_array T t) - 1" and ?y = "cur_y (term_data_array T t)"
  let ?T1 = "upd_term t (\<lambda>d. d\<lparr>cur_x := ?x\<rparr>) T"
  let ?T2 = "for_range ?x (NUM_COLS - 1) (\<lambda>i T. terminal_putc t (terminal_getc t (i + 1) ?y T) i ?y T) ?T1"
  have on: "0 \<le> ?x" "?x < NUM_COLS - 1" "0 \<le> ?y" "?y < NUM_ROWS"
    using False assms by (auto simp: cursor_ok_def on_screen_def)
  have "touches t T ?T1" by (rule touches_upd_term) simp
  also have "touches t ?T1 ?T2"
    by (intro touches_for_range touches_putc) (use on in \<open>simp add: on_screen_def\<close>)
  also have "touches t ?T2 (terminal_putc t SPACE (max ?x (NUM_COLS - 1)) ?y ?T2)"
    by (rule touches_putc) (use on in \<open>simp add: on_screen_def\<close>)
  finally show ?thesis using False unfolding terminal_backspace_def Let_def by simp
qed

lemma touches_tab: "touches t T (terminal_tab t T)"
  unfolding terminal_tab_def Let_def
  using touches_trans [OF touches_upd_term touches_next_line] by (simp add: touches_upd_term)

text \<open>The keys whose effect stays on the screen: a backspace needs something to the left of the
  cursor, and delete clears a cell one column too far.\<close>

definition key_fits :: "u8 \<Rightarrow> term_data \<Rightarrow> bool" where
  "key_fits key d \<longleftrightarrow> cursor_ok d \<and> key \<noteq> KEY_DELETE
     \<and> (key = KEY_BACKSPACE \<longrightarrow> cur_x d \<noteq> 0 \<or> cur_y d \<noteq> 0)"

lemma touches_handle_key:
  assumes "key_fits key (term_data_array T t)"
  shows "touches t T (snd (terminal_handle_key t key scancode control alt T))"
  unfolding terminal_handle_key_def Let_def snd_conv
  by (rule touches_trans [OF _ touches_refresh])
    (use assms in \<open>simp add: key_fits_def touches_backspace touches_next_line touches_tab touches_clear touches_print_key\<close>)

lemma touches_terms_ok: "touches t T T' \<Longrightarrow> terms_ok T \<Longrightarrow> terms_ok T'"
  by (simp add: touches_def terms_ok_def) metis

text \<open>The screens of the other terminals are left alone.\<close>

lemma touches_other:
  assumes "touches t T T'" "terms_ok T" "t \<in> {0..<NR_TERM}" "u \<in> {0..<NR_TERM}" "u \<noteq> t"
    and "k \<in> {0..<NUM_ROWS * NUM_COLS}"
  shows "shown u T' k = shown u T k"
proof (cases "u = active_term T \<or> t = active_term T")
  case True
  then show ?thesis using assms(1,5) by (auto simp: touches_def shown_def split: if_splits)
next
  case False
  have "screen_buf (term_data_array T u) + k - screen_buf (term_data_array T t) \<notin> {0..<NUM_ROWS * NUM_COLS}"
    using assms(2-6) by (auto simp: terms_ok_def)
  then show ?thesis using assms(1,5) False by (auto simp: touches_def shown_def)
qed

lemma touches_other_screen:
  assumes "touches t T T'" "terms_ok T" "t \<in> {0..<NR_TERM}" "u \<in> {0..<NR_TERM}" "u \<noteq> t"
  shows "term_screen u T' = term_screen u T"
proof -
  have "term_data_array T' u = term_data_array T u" using assms(1,5) by (simp add: touches_def)
  moreover have "shown u T' (r * NUM_COLS + c) = shown u T (r * NUM_COLS + c)" if "on_screen r c" for r c
    using touches_other [OF assms] that by (simp add: on_screen_def)
  ultimately show ?thesis by (auto simp: term_screen_def grid_def fun_eq_iff)
qed

section \<open>A terminal is a text screen\<close>

definition term_ok :: "int \<Rightarrow> terminals \<Rightarrow> bool" where
  "term_ok t T \<longleftrightarrow> t \<in> {0..<NR_TERM} \<and> terms_ok T \<and> cursor_ok (term_data_array T t)"

text \<open>Changes to the input buffer do not show.\<close>

lemma term_upd_input:
  assumes "screen_buf (f (term_data_array T t)) = screen_buf (term_data_array T t)"
    and "cur_x (f (term_data_array T t)) = cur_x (term_data_array T t)" "cur_y (f (term_data_array T t)) = cur_y (term_data_array T t)"
  shows "term_screen u (upd_term t f T) = term_screen u T" "term_ok u (upd_term t f T) = term_ok u T"
proof -
  have "shown u (upd_term t f T) = shown u T" using assms(1) by (auto simp: shown_def fun_eq_iff)
  then show "term_screen u (upd_term t f T) = term_screen u T" using assms by (simp add: term_screen_def)
  show "term_ok u (upd_term t f T) = term_ok u T" using assms by (auto simp: term_ok_def terms_ok_def cursor_ok_def)
qed

lemma scroll_up_data: "term_data_array (terminal_scroll_up t T)
    = (term_data_array T)(t := (term_data_array T t)\<lparr>cur_y := cur_y (term_data_array T t) - 1\<rparr>)"
  by (simp add: terminal_scroll_up_def Let_def for_range_frame [where g = term_data_array])

lemma scroll_up_shown: "shown t (terminal_scroll_up t T)
    = (\<lambda>k. if 0 \<le> k \<and> k < 1920 then cell (ucast (shown t T (k + 80)))
           else if 1920 \<le> k \<and> k < 2000 then cell SPACE else shown t T k)"
proof -
  let ?T1 = "for_range 0 (NUM_ROWS - 1) (\<lambda>y. for_range 0 NUM_COLS
    (\<lambda>x T. terminal_putc t (terminal_getc t x (y + 1) T) x y T)) T"
  have "shown t (terminal_scroll_up t T) = shown t (for_range 0 NUM_COLS (\<lambda>x. terminal_putc t SPACE x (NUM_ROWS - 1)) ?T1)"
    by (simp add: terminal_scroll_up_def Let_def)
  also have "\<dots> = for_range 0 NUM_COLS (\<lambda>x a. a(1920 + x := cell SPACE)) (shown t ?T1)"
    by (rule for_range_hom) (simp add: shown_putc)
  also have "shown t ?T1 = for_range 0 24 (\<lambda>y. for_range 0 80
      (\<lambda>x a. a(y * 80 + x := (cell \<circ> ucast) (a ((y + 1) * 80 + x))))) (shown t T)"
    by (simp, intro for_range_hom) (simp add: shown_putc terminal_getc_shown)
  also have "\<dots> = (\<lambda>k. if 0 \<le> k \<and> k < 24 * 80 then (cell \<circ> ucast) (shown t T (k + 80)) else shown t T k)"
    by (rule for_range_map_rows) simp
  finally show ?thesis
    unfolding for_range_fill_from by (auto simp: fun_eq_iff)
qed

lemma next_line_screen:
  assumes "term_ok t T"
  shows "term_ok t (next_line t T)" "term_screen t (next_line t T) = newline (term_screen t T)"
proof -
  note on = assms [unfolded term_ok_def cursor_ok_def on_screen_def]
  have "terms_ok (next_line t T)" using touches_terms_ok [OF touches_next_line] on by blast
  then show "term_ok t (next_line t T)"
    using on by (auto simp: term_ok_def cursor_ok_def on_screen_def next_line_def Let_def scroll_up_data)
  have "cells (term_screen t (next_line t T)) = cells (newline (term_screen t T))"
  proof (cases "cur_y (term_data_array T t) = 24")
    case True
    then show ?thesis
      by (auto simp: term_screen_def next_line_def Let_def scroll_up_shown newline_def scroll_def grid_def on_screen_def
          fun_eq_iff algebra_simps)
  next
    case False
    then show ?thesis using on by (simp add: term_screen_def next_line_def newline_def)
  qed
  then show "term_screen t (next_line t T) = newline (term_screen t T)"
    using on by (auto simp: term_screen_def next_line_def newline_def Let_def scroll_up_data)
qed

lemma print_key_screen:
  assumes "term_ok t T"
  shows "term_ok t (print_key t c T)" "term_screen t (print_key t c T) = type_char c (term_screen t T)"
proof -
  let ?d = "term_data_array T t"
  let ?T1 = "terminal_putc t c (cur_x ?d) (cur_y ?d) T"
  note on = assms [unfolded term_ok_def cursor_ok_def on_screen_def]
  have "terms_ok ?T1" "terms_ok (print_key t c T)"
    using touches_terms_ok [OF touches_putc] touches_terms_ok [OF touches_print_key] assms
    by (simp_all add: term_ok_def cursor_ok_def)
  then have ok1: "term_ok t ?T1" using assms by (simp add: term_ok_def)
  have pos: "r * NUM_COLS + k = cur_y ?d * NUM_COLS + cur_x ?d \<longleftrightarrow> r = cur_y ?d \<and> k = cur_x ?d" if "on_screen r k" for r k
    using row_major_eq_iff [of k "cur_x ?d" r "cur_y ?d"] on that by (simp add: on_screen_def mult.commute)
  have put: "term_screen t ?T1 = (term_screen t T)\<lparr>cells := (cells (term_screen t T))(cur_y ?d :=
      (cells (term_screen t T) (cur_y ?d))(cur_x ?d := c))\<rparr>"
    using on by (auto simp: term_screen_def grid_def shown_putc fun_eq_iff pos) (auto simp: on_screen_def)
  show "term_ok t (print_key t c T)"
    using next_line_screen(1) [OF ok1] \<open>terms_ok (print_key t c T)\<close> on
    by (auto simp: print_key_def Let_def term_ok_def cursor_ok_def on_screen_def)
  show "term_screen t (print_key t c T) = type_char c (term_screen t T)"
  proof (cases "cur_x ?d = NUM_COLS - 1")
    case True
    then show ?thesis
      using next_line_screen(2) [OF ok1] put by (simp add: print_key_def Let_def type_char_def term_screen_def)
  next
    case False
    then show ?thesis
      using put on by (simp add: print_key_def Let_def type_char_def) (simp add: term_screen_def)
  qed
qed

definition plain_key :: "u8 \<Rightarrow> bool" where
  "plain_key c \<longleftrightarrow> c \<noteq> 0 \<and> c \<noteq> KEY_BACKSPACE \<and> c \<noteq> KEY_DELETE \<and> c \<noteq> KEY_TAB"

definition term_put :: "int \<Rightarrow> u8 \<Rightarrow> terminals \<Rightarrow> terminals" where
  "term_put t c T = snd (terminal_handle_key t c 0xFF 0 0 T)"

lemma term_screen_refresh [simp]: "term_screen u (terminal_refresh t T) = term_screen u T"
  by (simp add: term_screen_def)

lemma term_ok_refresh [simp]: "term_ok u (terminal_refresh t T) = term_ok u T"
  by (simp add: term_ok_def terms_ok_def)

interpretation trm: text_screen "term_put t" "term_screen t" "term_ok t" plain_key for t
proof unfold_locales
  fix T c
  show "term_ok t T \<Longrightarrow> cursor_on_screen (term_screen t T)"
    by (simp add: term_ok_def cursor_ok_def cursor_on_screen_def term_screen_def)
  assume "term_ok t T" "plain_key c"
  then show "term_ok t (term_put t c T)" "term_screen t (term_put t c T) = show_char c (term_screen t T)"
    by (simp_all add: term_put_def terminal_handle_key_def Let_def plain_key_def show_char_def
        next_line_screen print_key_screen)
qed

lemma terminal_write_loop_fold:
  "i \<le> int n \<Longrightarrow> 0 \<le> i \<Longrightarrow> terminal_write_loop m t buf (int n) i T
    = (int n, fold (term_put t) (map (\<lambda>k. m (buf + of_int k)) [i..int n - 1]) T)"
proof (induction "nat (int n - i)" arbitrary: i T)
  case 0
  then have "i = int n" by simp
  then show ?case by (subst terminal_write_loop.simps) simp
next
  case (Suc d)
  then have "i < int n" by simp
  moreover have "terminal_write_loop m t buf (int n) (i + 1) (term_put t (m (buf + of_int i)) T)
      = (int n, fold (term_put t) (map (\<lambda>k. m (buf + of_int k)) [i + 1..int n - 1]) (term_put t (m (buf + of_int i)) T))"
    using Suc.hyps(2) Suc.prems by (intro Suc.hyps(1)) auto
  moreover have "terminal_handle_key t c 0xFF 0 0 T = (0, term_put t c T)" for c
    by (simp add: term_put_def terminal_handle_key_def Let_def)
  ultimately show ?case
    by (subst terminal_write_loop.simps) (simp add: upto_rec1)
qed

lemma terminal_write_fold:
  "terminal_write m cur pcbs buf (int n) T = (int n, fold (term_put (pcb_term (pcbs cur))) (load m buf n) T)"
proof -
  have "map (\<lambda>k. m (buf + of_int k)) [0..int n - 1] = load m buf n"
    by (auto simp: load_def intro!: nth_equalityI)
  then show ?thesis
    using terminal_write_loop_fold [of 0 n m "pcb_term (pcbs cur)" buf T] by (simp add: terminal_write_def)
qed

section \<open>Switching terminals\<close>

lemma save_loop:
  assumes "0 \<le> n"
  shows "for_range 0 n (\<lambda>i T. T\<lparr>screen_buffers := (screen_buffers T)(b + i := video_cell (video_mem (display T)) i)\<rparr>) T
    = T\<lparr>screen_buffers := (\<lambda>k. if b \<le> k \<and> k < b + n then video_cell (video_mem (display T)) (k - b) else screen_buffers T k)\<rparr>"
  using assms
proof (induction n rule: int_ge_induct)
  case base
  have "(\<lambda>k. if b \<le> k \<and> k < b + 0 then video_cell (video_mem (display T)) (k - b) else screen_buffers T k) = screen_buffers T"
    by (rule ext) auto
  then show ?case by simp
next
  case (step n)
  then show ?case
    by (simp add: for_range_last) (auto simp: fun_eq_iff intro!: arg_cong [where f = "\<lambda>f. T\<lparr>screen_buffers := f\<rparr>"])
qed

lemma restore_loop:
  assumes "0 \<le> n"
  shows "\<exists>v. for_range 0 n (\<lambda>i T. T\<lparr>display := (display T)\<lparr>video_mem := set_video_cell i (screen_buffers T (b + i)) (video_mem (display T))\<rparr>\<rparr>) T
      = T\<lparr>display := (display T)\<lparr>video_mem := v\<rparr>\<rparr>
    \<and> video_cell v = (\<lambda>k. if 0 \<le> k \<and> k < n then screen_buffers T (b + k) else video_cell (video_mem (display T)) k)
    \<and> in_bounds (2 * n) (video_mem (display T)) v"
  using assms
proof (induction n rule: int_ge_induct)
  case base
  show ?case by (intro exI [of _ "video_mem (display T)"]) (auto simp: fun_eq_iff)
next
  case (step n)
  then obtain v where v: "for_range 0 n (\<lambda>i T. T\<lparr>display := (display T)\<lparr>video_mem := set_video_cell i (screen_buffers T (b + i)) (video_mem (display T))\<rparr>\<rparr>) T
    = T\<lparr>display := (display T)\<lparr>video_mem := v\<rparr>\<rparr>"
    "video_cell v = (\<lambda>k. if 0 \<le> k \<and> k < n then screen_buffers T (b + k) else video_cell (video_mem (display T)) k)"
    "in_bounds (2 * n) (video_mem (display T)) v" by blast
  have "in_bounds (2 * (n + 1)) (video_mem (display T)) (set_video_cell n (screen_buffers T (b + n)) v)"
    using v(3) step(1) by (simp add: in_bounds_def set_video_cell_def)
  then show ?case
    using v step(1) by (intro exI [of _ "set_video_cell n (screen_buffers T (b + n)) v"]) (auto simp: for_range_last fun_eq_iff)
qed

lemma terminal_switch_shown:
  assumes "terms_ok T" "t \<in> {0..<NR_TERM}" "u \<in> {0..<NR_TERM}" "k \<in> {0..<2000}"
  shows "shown u (terminal_switch t T) k = shown u T k"
proof (cases "t = active_term T")
  case True
  then show ?thesis by (simp add: terminal_switch_def)
next
  case False
  let ?a = "active_term T"
  have sb: "screen_buf (term_data_array T i) = 2000 * i" if "i \<in> {0..<NR_TERM}" for i
    using assms(1) that by (simp add: terms_ok_def)
  have a: "?a \<in> {0..<NR_TERM}" using assms(1) by (simp add: terms_ok_def)
  let ?T1 = "T\<lparr>screen_buffers := (\<lambda>k. if 2000 * ?a \<le> k \<and> k < 2000 * ?a + 2000
    then video_cell (video_mem (display T)) (k - 2000 * ?a) else screen_buffers T k)\<rparr>"
  obtain v where v: "for_range 0 2000 (\<lambda>i T. T\<lparr>display := (display T)\<lparr>video_mem := set_video_cell i (screen_buffers T (2000 * t + i)) (video_mem (display T))\<rparr>\<rparr>) ?T1
      = ?T1\<lparr>display := (display ?T1)\<lparr>video_mem := v\<rparr>\<rparr>"
    "video_cell v = (\<lambda>k. if 0 \<le> k \<and> k < 2000 then screen_buffers ?T1 (2000 * t + k) else video_cell (video_mem (display ?T1)) k)"
    using restore_loop [of 2000 "2000 * t" ?T1] by auto
  have row: "2000 * ?a \<le> 2000 * i + k \<and> 2000 * i + k < 2000 * ?a + 2000 \<longleftrightarrow> i = ?a" for i
    using assms(4) by auto
  show ?thesis
    using assms(2-4) a False v row
    by (auto simp: terminal_switch_def save_loop shown_def Let_def sb)
qed

lemma terminal_switch_data:
  "active_term (terminal_switch t T) = t"
  "term_data_array (terminal_switch t T) u = (if t = active_term T then term_data_array T u else
     (term_data_array T u)\<lparr>is_active := (if u = t then 1 else if u = active_term T then 0 else is_active (term_data_array T u))\<rparr>)"
  by (auto simp: terminal_switch_def Let_def for_range_frame [where g = term_data_array] for_range_frame [where g = active_term])

section \<open>The input buffer as a list\<close>

definition pending :: "term_data \<Rightarrow> u8 list" where
  "pending d = map (\<lambda>i. in_buf d (int i)) [0..<nat (in_dat_end d)]"

definition input_ok :: "term_data \<Rightarrow> bool" where
  "input_ok d \<longleftrightarrow> 0 \<le> in_dat_end d \<and> in_dat_end d \<le> IN_BUF_SIZE \<and> in_dat_index d = in_dat_end d
     \<and> int (count_list (pending d) NEWLINE) \<le> in_dat_nr_ret d"

text \<open>A key as an edit of the pending characters.\<close>

definition edit :: "u8 \<Rightarrow> u8 list \<Rightarrow> u8 list" where
  "edit key xs = (if key = KEY_BACKSPACE then butlast xs
     else if key = 0 \<or> key = KEY_DELETE \<or> 128 \<le> length xs then xs else xs @ [key])"

lemma pending_insert:
  assumes "input_ok d" "in_dat_end d < IN_BUF_SIZE"
  shows "pending (input_insert key d) = pending d @ [key]" "input_ok (input_insert key d)"
proof -
  have "nat (in_dat_end d + 1) = Suc (nat (in_dat_end d))" using assms unfolding input_ok_def by linarith
  then show p: "pending (input_insert key d) = pending d @ [key]"
    using assms by (auto simp: pending_def input_insert_def input_ok_def Let_def)
  show "input_ok (input_insert key d)"
    using assms p by (auto simp: input_ok_def) (auto simp: input_insert_def Let_def)
qed

lemma pending_backspace:
  assumes "input_ok d" "in_dat_index d \<noteq> 0"
  shows "pending (input_backspace d) = butlast (pending d)" "input_ok (input_backspace d)"
proof -
  have "nat (in_dat_end d) = Suc (nat (in_dat_end d - 1))" using assms unfolding input_ok_def by linarith
  then show p: "pending (input_backspace d) = butlast (pending d)"
    using assms by (auto simp: pending_def input_backspace_def input_ok_def Let_def map_butlast [symmetric])
  have "count_list (butlast xs) x \<le> count_list xs x" for x and xs :: "u8 list"
    by (induction xs) auto
  from this [of "pending d" NEWLINE] show "input_ok (input_backspace d)"
    using assms p by (auto simp: input_ok_def) (auto simp: input_backspace_def Let_def)
qed

lemma length_pending [simp]: "length (pending d) = nat (in_dat_end d)"
  by (simp add: pending_def)

lemma pending_cursor [simp]:
  "pending (d\<lparr>cur_x := x\<rparr>) = pending d" "pending (d\<lparr>cur_y := y\<rparr>) = pending d"
  "input_ok (d\<lparr>cur_x := x\<rparr>) = input_ok d" "input_ok (d\<lparr>cur_y := y\<rparr>) = input_ok d"
  by (simp_all add: pending_def input_ok_def)

text \<open>Printing moves the cursor and leaves the rest of the terminal's data.\<close>

definition strip :: "term_data \<Rightarrow> term_data" where
  "strip d = d\<lparr>cur_x := 0, cur_y := 0\<rparr>"

definition moves :: "int \<Rightarrow> terminals \<Rightarrow> terminals \<Rightarrow> bool" where
  "moves t T T' \<longleftrightarrow> active_term T' = active_term T
     \<and> (\<forall>u. strip (term_data_array T' u) = strip (term_data_array T u))
     \<and> (\<forall>u. u \<noteq> t \<longrightarrow> term_data_array T' u = term_data_array T u)"

lemma moves_putc [simp]: "moves t T (terminal_putc u c x y T') = moves t T T'"
  by (simp add: moves_def)

lemma moves_refl [simp]: "moves t T T"
  by (simp add: moves_def)

lemma moves_trans: "moves t T T' \<Longrightarrow> moves t T' T'' \<Longrightarrow> moves t T T''"
  by (simp add: moves_def)

lemma moves_refresh [simp]: "moves t T (terminal_refresh u T') = moves t T T'"
  by (simp add: moves_def)

lemma moves_frame:
  assumes "active_term T' = active_term T" "term_data_array T' = term_data_array T"
  shows "moves t T T'"
  using assms by (simp add: moves_def)

lemma moves_putc_loop: "moves t T (for_range lo hi (\<lambda>i T. terminal_putc t (f i T) (g i) (h i) T) T)"
  by (rule moves_frame) (simp_all add: for_range_frame [where g = active_term] for_range_frame [where g = term_data_array])

lemma moves_upd: "(\<And>d. strip (f d) = strip d) \<Longrightarrow> moves t T (upd_term t f T)"
  by (simp add: moves_def)

lemma moves_next_line: "moves t T (next_line t T)"
proof -
  have "active_term (terminal_scroll_up t T) = active_term T"
    using touches_scroll_up [of t T] by (simp add: touches_def)
  then have "moves t T (terminal_scroll_up t T)"
    by (simp add: moves_def scroll_up_data strip_def)
  then show ?thesis
    unfolding next_line_def Let_def by (intro moves_trans [OF _ moves_upd]) (simp_all add: strip_def)
qed

lemma moves_handle_key:
  assumes "control = 0 \<or> key \<noteq> chr CHR ''l''"
  shows "moves t T (snd (terminal_handle_key t key scancode control alt T))"
proof -
  have print: "moves t T (print_key t c T)" for c
    unfolding print_key_def Let_def
    by (rule moves_trans [of _ _ "terminal_putc t c (cur_x (term_data_array T t)) (cur_y (term_data_array T t)) T"])
      (simp_all add: moves_next_line moves_upd strip_def)
  have "moves t T (terminal_tab t T)"
    using moves_trans [OF moves_upd moves_next_line] by (simp add: terminal_tab_def Let_def moves_upd strip_def)
  moreover have "moves t T (terminal_delete t T)"
    unfolding terminal_delete_def Let_def by (simp add: moves_putc_loop)
  moreover have "moves t T (terminal_backspace t T)"
    using moves_trans [OF moves_upd moves_putc_loop] by (simp add: terminal_backspace_def Let_def moves_upd strip_def)
  ultimately show ?thesis
    using assms print moves_next_line by (auto simp: terminal_handle_key_def Let_def)
qed

lemma strip_input:
  assumes "strip d = strip e"
  shows "pending d = pending e" "input_ok d = input_ok e" "in_dat_nr_ret d = in_dat_nr_ret e"
    "is_active d = is_active e" "in_dat_index d = in_dat_index e" "in_dat_end d = in_dat_end e" "in_buf d = in_buf e"
proof -
  have "pending (strip d) = pending (strip e)" "input_ok (strip d) = input_ok (strip e)"
    "in_dat_nr_ret (strip d) = in_dat_nr_ret (strip e)" "is_active (strip d) = is_active (strip e)"
    "in_dat_index (strip d) = in_dat_index (strip e)" "in_dat_end (strip d) = in_dat_end (strip e)"
    "in_buf (strip d) = in_buf (strip e)"
    using assms by simp_all
  then show "pending d = pending e" "input_ok d = input_ok e" "in_dat_nr_ret d = in_dat_nr_ret e"
    "is_active d = is_active e" "in_dat_index d = in_dat_index e" "in_dat_end d = in_dat_end e" "in_buf d = in_buf e"
    by (simp_all add: strip_def)
qed

text \<open>The data of the active terminal after the buffer part of \<open>input_process_key\<close>.\<close>

definition keyed :: "u8 \<Rightarrow> term_data \<Rightarrow> term_data" where
  "keyed key d =
     (if key = KEY_BACKSPACE then if in_dat_index d = 0 then d else input_backspace d
      else if key = KEY_DELETE then if in_dat_index d < in_dat_end d then input_delete d else d
      else if key \<noteq> 0 \<and> in_dat_end d < IN_BUF_SIZE then input_insert key d else d)"

lemma input_process_key_handle:
  assumes "is_active (term_data_array T (active_term T)) \<noteq> 0"
  obtains k where "k = key \<or> k = 0" "snd (input_process_key key scancode control alt T)
    = snd (terminal_handle_key (active_term T) k scancode control alt
        (upd_term (active_term T) (\<lambda>_. keyed key (term_data_array T (active_term T))) T))"
proof -
  let ?d = "term_data_array T (active_term T)"
  let ?m = "if key = KEY_BACKSPACE then in_dat_index ?d \<noteq> 0 else if key = KEY_DELETE then in_dat_index ?d < in_dat_end ?d
    else key \<noteq> 0 \<and> in_dat_end ?d < IN_BUF_SIZE"
  have "snd (input_process_key key scancode control alt T)
    = snd (terminal_handle_key (active_term T) (if ?m then key else 0) scancode control alt
        (upd_term (active_term T) (\<lambda>_. keyed key ?d) T))"
    using assms by (simp add: input_process_key_def Let_def keyed_def split_beta)
  then show thesis by (intro that [of "if ?m then key else 0"]) simp_all
qed

lemma input_process_key_data:
  assumes "control = 0 \<or> key \<noteq> chr CHR ''l''" "is_active (term_data_array T (active_term T)) \<noteq> 0"
  shows "moves (active_term T) (upd_term (active_term T) (\<lambda>_. keyed key (term_data_array T (active_term T))) T)
    (snd (input_process_key key scancode control alt T))"
proof (rule input_process_key_handle [OF assms(2), of key scancode control alt])
  fix k
  assume k: "k = key \<or> k = 0" and eq: "snd (input_process_key key scancode control alt T)
    = snd (terminal_handle_key (active_term T) k scancode control alt
        (upd_term (active_term T) (\<lambda>_. keyed key (term_data_array T (active_term T))) T))"
  have "control = 0 \<or> k \<noteq> chr CHR ''l''" using k assms(1) by auto
  from moves_handle_key [OF this] show ?thesis unfolding eq .
qed

lemma keyed_input:
  assumes "input_ok d"
  shows "input_ok (keyed key d)" "pending (keyed key d) = edit key (pending d)" "is_active (keyed key d) = is_active d"
    "screen_buf (keyed key d) = screen_buf d" "cur_x (keyed key d) = cur_x d" "cur_y (keyed key d) = cur_y d"
proof -
  have [simp]: "in_dat_end d = 0 \<Longrightarrow> pending d = []" by (simp add: pending_def)
  show "input_ok (keyed key d)"
    using assms pending_insert(2) [OF assms] pending_backspace(2) [OF assms]
    by (simp add: keyed_def) (simp add: input_ok_def)
  show "pending (keyed key d) = edit key (pending d)"
    using assms pending_insert(1) [OF assms] pending_backspace(1) [OF assms]
    by (auto simp: keyed_def edit_def input_ok_def)
qed (simp_all add: keyed_def input_backspace_def input_delete_def input_insert_def Let_def)

section \<open>Reading a line\<close>

fun first_line :: "u8 list \<Rightarrow> u8 list" where
  "first_line [] = []"
| "first_line (c # cs) = (if c = NEWLINE then [c] else c # first_line cs)"

lemma length_first_line: "length (first_line xs) \<le> length xs"
  by (induction xs) auto

lemma first_line_complete: "NEWLINE \<notin> set xs \<Longrightarrow> first_line (xs @ NEWLINE # ys) = xs @ [NEWLINE]"
  by (induction xs) auto

lemma first_line_prefix: "take (length (first_line xs)) xs = first_line xs"
  by (induction xs) auto

lemma terminal_read_copy_line:
  assumes "0 \<le> in_dat_end d" "in_dat_end d \<le> IN_BUF_SIZE" "i \<le> length xs" "xs = take (nat len) (pending d)"
  shows "terminal_read_copy d buf len (int i) (store m buf (take i xs))
    = (int i + int (length (first_line (drop i xs))), if NEWLINE \<in> set (first_line (drop i xs)) then 1 else 0,
       store m buf (take i xs @ first_line (drop i xs)))"
  using assms(3)
proof (induction "length xs - i" arbitrary: i)
  case 0
  then have "\<not> (int i < in_dat_end d \<and> int i < len)" using assms(4) by auto
  then show ?case using 0 by (subst terminal_read_copy.simps) auto
next
  case (Suc k)
  then have i: "i < length xs" by simp
  have n: "length xs \<le> 128" using assms(2,4) by auto
  have lt: "int i < in_dat_end d" "int i < len" using i assms(1,4) by auto
  have x: "in_buf d (int i) = xs ! i" using i assms(4) by (simp add: pending_def)
  have upd: "(store m buf (take i xs))(buf + of_int (int i) := xs ! i) = store m buf (take (Suc i) xs)"
    using store_snoc [of "take i xs" m buf "xs ! i"] i n by (simp add: take_Suc_conv_app_nth min_def del: fun_upd_apply)
  have dr: "drop i xs = xs ! i # drop (Suc i) xs" using i by (simp add: Cons_nth_drop_Suc)
  have IH: "terminal_read_copy d buf len (int (Suc i)) (store m buf (take (Suc i) xs))
    = (int (Suc i) + int (length (first_line (drop (Suc i) xs))), if NEWLINE \<in> set (first_line (drop (Suc i) xs)) then 1 else 0,
       store m buf (take (Suc i) xs @ first_line (drop (Suc i) xs)))"
    by (rule Suc.hyps) (use Suc.hyps(2) i in auto)
  have tk: "take (Suc i) xs = take i xs @ [xs ! i]" using i by (simp add: take_Suc_conv_app_nth)
  have at: "store m buf (take (Suc i) xs) (buf + of_int (int i)) = xs ! i"
    unfolding upd [symmetric] by simp
  show ?case
    unfolding terminal_read_copy.simps [of d buf len "int i"] x upd Let_def at dr
    using lt IH tk by (auto simp: add.commute)
qed

lemma shift_loop:
  assumes "0 \<le> n" "0 \<le> i"
  shows "for_range 0 n (\<lambda>j T. upd_term (active_term T)
      (\<lambda>d. d\<lparr>in_buf := (in_buf d)(j := in_buf (term_data_array T t) (i + j))\<rparr>) T) T
    = upd_term (active_term T) (\<lambda>d. d\<lparr>in_buf := (\<lambda>k. if 0 \<le> k \<and> k < n then in_buf (term_data_array T t) (i + k) else in_buf d k)\<rparr>) T"
  using assms(1)
proof (induction n rule: int_ge_induct)
  case base
  have "(\<lambda>k. if 0 \<le> k \<and> k < 0 then f (i + k) else g k) = g" for f g :: "int \<Rightarrow> u8" by (rule ext) auto
  then show ?case by (simp add: upd_term_def)
next
  case (step n)
  let ?F = "\<lambda>n d. d\<lparr>in_buf := (\<lambda>k. if 0 \<le> k \<and> k < n then in_buf (term_data_array T t) (i + k) else in_buf d k)\<rparr>"
  have src: "in_buf (term_data_array (upd_term (active_term T) (?F n) T) t) (i + n) = in_buf (term_data_array T t) (i + n)"
    using assms(2) by simp
  have comp: "(\<lambda>d. d\<lparr>in_buf := (in_buf d)(n := in_buf (term_data_array T t) (i + n))\<rparr>) \<circ> ?F n = ?F (n + 1)"
    using step(1) by (auto simp: fun_eq_iff intro!: arg_cong [where f = "\<lambda>b. _\<lparr>in_buf := b\<rparr>"])
  show ?case
    unfolding for_range_last [OF step(1)] step(2) src upd_term_simps(2) upd_term_upd comp ..
qed

lemma count_first_line: "count_list (first_line xs) NEWLINE = (if NEWLINE \<in> set (first_line xs) then 1 else 0)"
  by (induction xs) auto

lemma count_rest:
  "count_list xs NEWLINE = count_list (first_line (take n xs)) NEWLINE + count_list (drop (length (first_line (take n xs))) xs) NEWLINE"
proof -
  have "first_line (take n xs) = take (length (first_line (take n xs))) xs"
    using first_line_prefix [of "take n xs"] length_first_line [of "take n xs"] by (simp add: min_def split: if_splits)
  then have "xs = first_line (take n xs) @ drop (length (first_line (take n xs))) xs"
    by (metis append_take_drop_id)
  then show ?thesis by (metis count_list_append)
qed

text \<open>The state after a read that found \<open>line\<close>.\<close>

lemma terminal_read_result:
  assumes "terminal_read_wait t arrivals T = Some Tw" "t = pcb_term (pcbs cur)"
    and "input_ok (term_data_array Tw t)" and "line = first_line (take (nat len) (pending (term_data_array Tw t)))"
  obtains T' where "terminal_read arrivals cur pcbs buf len m T = Some (int (length line), store m buf line, T')"
    and "active_term T' = active_term Tw"
    and "in_dat_nr_ret (term_data_array T' t)
      = in_dat_nr_ret (term_data_array Tw t) - int (count_list line NEWLINE)"
    and "pending (term_data_array T' t) = (if t = active_term Tw then drop (length line) (pending (term_data_array Tw t))
      else take (length (pending (term_data_array Tw t)) - length line) (pending (term_data_array Tw t)))"
    and "t = active_term Tw \<Longrightarrow> input_ok (term_data_array T' t)"
    and "is_active (term_data_array T' t) = is_active (term_data_array Tw t)"
    and "t \<noteq> active_term Tw \<Longrightarrow> \<forall>k<length (pending (term_data_array Tw t)) - length line.
      in_buf (term_data_array T' (active_term Tw)) (int k) = pending (term_data_array Tw t) ! (length line + k)"
    and "term_screen t T' = term_screen t Tw" "term_ok t T' = term_ok t Tw"
proof -
  let ?d = "term_data_array Tw t" and ?a = "active_term Tw"
  let ?i = "int (length line)"
  let ?n = "in_dat_end ?d - ?i"
  have bounds: "0 \<le> in_dat_end ?d" "in_dat_end ?d \<le> IN_BUF_SIZE" "in_dat_index ?d = in_dat_end ?d"
    "int (count_list (pending ?d) NEWLINE) \<le> in_dat_nr_ret ?d"
    using assms(3) by (simp_all add: input_ok_def)
  have "length line \<le> nat (in_dat_end ?d)"
    using length_first_line [of "take (nat len) (pending ?d)"] assms(4) by simp
  then have n: "0 \<le> ?n" "max 0 ?n = ?n" "nat ?n = nat (in_dat_end ?d) - length line" using bounds(1) by auto
  have copy: "terminal_read_copy ?d buf len 0 m = (?i, if NEWLINE \<in> set line then 1 else 0, store m buf line)"
    using terminal_read_copy_line [OF bounds(1,2) _ refl, of 0 len buf m] assms(4) by simp
  define T' where "T' = upd_term t (\<lambda>d. d\<lparr>in_dat_end := ?n, in_dat_index := in_dat_index d - ?i,
      in_dat_nr_ret := in_dat_nr_ret d - int (count_list line NEWLINE)\<rparr>)
    (upd_term ?a (\<lambda>d. d\<lparr>in_buf := (\<lambda>k. if 0 \<le> k \<and> k < ?n then in_buf ?d (?i + k) else in_buf d k)\<rparr>) Tw)"
  have cnt: "sint (if NEWLINE \<in> set line then 1 else 0 :: u8) = int (count_list line NEWLINE)"
    unfolding assms(4) count_first_line by simp
  show thesis
  proof (rule that [of T'])
    show "terminal_read arrivals cur pcbs buf len m T = Some (?i, store m buf line, T')"
      unfolding terminal_read_def Let_def assms(2) [symmetric] assms(1) option.case copy prod.case n(2)
        shift_loop [OF n(1), of ?i t Tw, simplified] T'_def cnt ..
    show "active_term T' = ?a" "in_dat_nr_ret (term_data_array T' t) = in_dat_nr_ret ?d - int (count_list line NEWLINE)"
      "is_active (term_data_array T' t) = is_active ?d"
      by (simp_all add: T'_def)
    show "term_screen t T' = term_screen t Tw" "term_ok t T' = term_ok t Tw"
      unfolding T'_def by (simp_all add: term_upd_input)
    show "\<forall>k<length (pending ?d) - length line. in_buf (term_data_array T' ?a) (int k) = pending ?d ! (length line + k)"
      if "t \<noteq> ?a"
      using n that by (auto simp: T'_def pending_def)
    show p: "pending (term_data_array T' t) = (if t = ?a then drop (length line) (pending ?d)
        else take (length (pending ?d) - length line) (pending ?d))"
      using n by (auto simp: T'_def pending_def intro!: nth_equalityI)
    show "input_ok (term_data_array T' t)" if "t = ?a"
      using bounds n(1) that p count_rest [of "pending ?d" "nat len"] assms(4)
      by (simp add: input_ok_def) (simp add: T'_def)
  qed
qed

section \<open>The invariant of the terminals\<close>

definition terminals_inv :: "terminals \<Rightarrow> bool" where
  "terminals_inv T \<longleftrightarrow> terms_ok T
     \<and> (\<forall>t\<in>{0..<NR_TERM}. cursor_ok (term_data_array T t) \<and> input_ok (term_data_array T t))"

lemma next_line_cursor:
  "cur_x (term_data_array (next_line t T) t) = 0"
  "cur_y (term_data_array (next_line t T) t)
     = (if cur_y (term_data_array T t) = 24 then 24 else cur_y (term_data_array T t) + 1)"
  by (auto simp: next_line_def Let_def scroll_up_data)

lemma sdiv_tab: "0 \<le> x \<Longrightarrow> x sdiv TERM_TAB_WIDTH = x div TERM_TAB_WIDTH"
  by (simp add: signed_divide_int_def sgn_if)

lemma clear_data: "term_data_array (terminal_clear t T)
    = (term_data_array T)(t := (flush_input (term_data_array T t))\<lparr>cur_x := 0, cur_y := 0\<rparr>)"
  by (simp add: terminal_clear_def Let_def for_range_frame [where g = term_data_array])

lemma flush_input_ok [simp]: "input_ok (flush_input d)" "pending (flush_input d) = []"
  by (simp_all add: input_ok_def pending_def flush_input_def)

lemma handle_key_cursor:
  assumes "key_fits key (term_data_array T t)"
  shows "cursor_ok (term_data_array (snd (terminal_handle_key t key scancode control alt T)) t)"
proof -
  let ?d = "term_data_array T t"
  have on: "0 \<le> cur_x ?d" "cur_x ?d < 80" "0 \<le> cur_y ?d" "cur_y ?d < 25"
    using assms by (simp_all add: key_fits_def cursor_ok_def on_screen_def)
  have print: "cursor_ok (term_data_array (print_key t c T) t)" for c
    using on by (auto simp: print_key_def Let_def cursor_ok_def on_screen_def next_line_cursor)
  have "cursor_ok (term_data_array (next_line t T) t)"
    using on by (auto simp: cursor_ok_def on_screen_def next_line_cursor)
  moreover have "cursor_ok (term_data_array (terminal_tab t T) t)"
    using on by (auto simp: terminal_tab_def Let_def cursor_ok_def on_screen_def next_line_cursor sdiv_tab)
  moreover have "cursor_ok (term_data_array (terminal_backspace t T) t)" if "cur_x ?d \<noteq> 0 \<or> cur_y ?d \<noteq> 0"
    using on that by (auto simp: terminal_backspace_def Let_def cursor_ok_def on_screen_def
        for_range_frame [where g = term_data_array])
  moreover have "cursor_ok (term_data_array (terminal_clear t T) t)"
    by (simp add: clear_data cursor_ok_def on_screen_def)
  ultimately show ?thesis
    using assms print by (auto simp: terminal_handle_key_def Let_def key_fits_def)
qed

lemma handle_key_input:
  assumes "input_ok (term_data_array T t)" "key_fits key (term_data_array T t)"
  shows "input_ok (term_data_array (snd (terminal_handle_key t key scancode control alt T)) t)"
proof (cases "control = 0 \<or> key \<noteq> chr CHR ''l''")
  case True
  from moves_handle_key [OF True, of t T scancode alt] show ?thesis
    using strip_input(2) assms(1) unfolding moves_def by blast
next
  case False
  then show ?thesis by (simp add: terminal_handle_key_def Let_def clear_data)
qed

lemma terminals_inv_touches:
  assumes "terminals_inv T" "touches t T T'" "cursor_ok (term_data_array T' t)" "input_ok (term_data_array T' t)"
  shows "terminals_inv T'"
  using assms touches_terms_ok [OF assms(2)] unfolding terminals_inv_def touches_def by metis

lemma inv_handle_key:
  assumes "terminals_inv T" "t \<in> {0..<NR_TERM}" "key_fits key (term_data_array T t)"
  shows "terminals_inv (snd (terminal_handle_key t key scancode control alt T))"
  using assms by (intro terminals_inv_touches [OF assms(1) touches_handle_key handle_key_cursor handle_key_input])
    (simp_all add: terminals_inv_def)

lemma inv_input_process_key:
  assumes "terminals_inv T" "key_fits key (term_data_array T (active_term T))"
  shows "terminals_inv (snd (input_process_key key scancode control alt T))"
proof -
  let ?a = "active_term T"
  let ?d = "term_data_array T ?a"
  let ?T1 = "upd_term ?a (\<lambda>_. keyed key ?d) T"
  have a: "?a \<in> {0..<NR_TERM}" "input_ok ?d" "cursor_ok ?d" using assms(1) by (auto simp: terminals_inv_def terms_ok_def)
  note k = keyed_input [OF a(2), of key]
  have inv: "terminals_inv ?T1"
    using assms(1) k a(3) by (auto simp: terminals_inv_def terms_ok_def cursor_ok_def)
  have "key_fits key (term_data_array ?T1 ?a)" "key_fits 0 (term_data_array ?T1 ?a)"
    using assms(2) by (auto simp: key_fits_def cursor_ok_def keyed_input [OF a(2)])
  note fits = inv_handle_key [OF inv a(1) this(1)] inv_handle_key [OF inv a(1) this(2)]
  show ?thesis
  proof (cases "is_active ?d = 0")
    case True
    then show ?thesis using assms(1) by (simp add: input_process_key_def Let_def)
  next
    case False
    then show ?thesis
      by (rule input_process_key_handle [of T key scancode control alt]) (use fits in auto)
  qed
qed

lemma inv_terminal_open:
  assumes "terminals_inv T" "t \<in> {0..<NR_TERM}"
  shows "terminals_inv (snd (terminal_open t T))"
proof -
  have "terminals_inv (terminal_clear t T)"
    using assms by (intro terminals_inv_touches [OF assms(1) touches_clear]) (simp_all add: clear_data cursor_ok_def on_screen_def input_ok_def pending_def flush_input_def)
  then show ?thesis
    using assms(1) by (simp add: terminal_open_def Let_def terminals_inv_def terms_ok_def cursor_ok_def input_ok_def
        pending_def flush_input_def)
qed

lemma inv_terminal_switch:
  assumes "terminals_inv T" "t \<in> {0..<NR_TERM}"
  shows "terminals_inv (terminal_switch t T)"
  using assms by (simp add: terminals_inv_def terms_ok_def terminal_switch_data cursor_ok_def input_ok_def pending_def)

lemma terminal_init_data:
  "i \<in> {0..<NR_TERM} \<Longrightarrow> term_data_array (terminal_init T) i = zero_term_data\<lparr>screen_buf := 2000 * i\<rparr>"
  "active_term (terminal_init T) = 0"
  unfolding terminal_init_def Let_def by (simp_all add: for_range_unfold)

lemma inv_terminal_init: "terminals_inv (terminal_init T)"
  by (simp add: terminals_inv_def terms_ok_def terminal_init_data cursor_ok_def on_screen_def input_ok_def pending_def
      zero_term_data_def)

section \<open>Typing a line\<close>

lemma keyed_insert:
  assumes "input_ok d" "in_dat_end d < IN_BUF_SIZE" "key \<noteq> 0" "key \<noteq> KEY_BACKSPACE" "key \<noteq> KEY_DELETE"
  shows "in_dat_nr_ret (keyed key d) = (if key = KEY_ENTER then in_dat_nr_ret d + 1 else in_dat_nr_ret d)"
    and "in_dat_end (keyed key d) = in_dat_end d + 1"
  using assms by (simp_all add: keyed_def input_insert_def Let_def)

text \<open>A terminal that is active and accepts input, with the given characters pending.\<close>

definition accepts :: "int \<Rightarrow> u8 list \<Rightarrow> int \<Rightarrow> terminals \<Rightarrow> bool" where
  "accepts t xs n T \<longleftrightarrow> active_term T = t \<and> is_active (term_data_array T t) \<noteq> 0 \<and> input_ok (term_data_array T t)
     \<and> pending (term_data_array T t) = xs \<and> in_dat_nr_ret (term_data_array T t) = n"

definition typed :: "u8 \<Rightarrow> u8 \<Rightarrow> terminals \<Rightarrow> terminals" where
  "typed scancode key T = snd (input_process_key key scancode 0 0 T)"

definition char_key :: "u8 \<Rightarrow> bool" where
  "char_key c \<longleftrightarrow> c \<noteq> 0 \<and> c \<noteq> KEY_BACKSPACE \<and> c \<noteq> KEY_DELETE"

lemma accepts_typed:
  assumes "accepts t xs n T" "char_key c" "length xs < 128"
  shows "accepts t (xs @ [c]) (if c = KEY_ENTER then n + 1 else n) (typed scancode c T)"
proof -
  let ?d = "term_data_array T t" and ?T1 = "upd_term t (\<lambda>_. keyed c (term_data_array T t)) T"
  have a: "active_term T = t" "is_active ?d \<noteq> 0" "input_ok ?d" "pending ?d = xs" "in_dat_nr_ret ?d = n"
    using assms(1) by (simp_all add: accepts_def)
  have e: "in_dat_end ?d < IN_BUF_SIZE" using assms(3) a(3,4) length_pending [of ?d] by (auto simp: input_ok_def)
  have mv: "moves t ?T1 (typed scancode c T)"
    using input_process_key_data [of 0 c T scancode 0] a(1,2) by (simp add: typed_def)
  then have s: "strip (term_data_array (typed scancode c T) t) = strip (keyed c ?d)" "active_term (typed scancode c T) = t"
    using a(1) by (simp_all add: moves_def)
  show ?thesis
    using keyed_input [OF a(3), of c] keyed_insert [OF a(3) e, of c] assms(2,3) a strip_input [OF s(1)] s(2)
    by (simp add: accepts_def char_key_def edit_def)
qed

text \<open>A typed character is echoed; the tab key is not one of them.\<close>

lemma typed_echo:
  assumes "accepts t xs n T" "plain_key c" "length xs < 128" "term_ok t T"
  shows "term_ok t (typed scancode c T)" "term_screen t (typed scancode c T) = show_char c (term_screen t T)"
proof -
  let ?d = "term_data_array T t" and ?T1 = "upd_term t (\<lambda>_. keyed c (term_data_array T t)) T"
  have a: "active_term T = t" "is_active ?d \<noteq> 0" "input_ok ?d" "pending ?d = xs"
    using assms(1) by (simp_all add: accepts_def)
  have e: "in_dat_end ?d < IN_BUF_SIZE" using assms(3) a(3,4) length_pending [of ?d] by (auto simp: input_ok_def)
  have eq: "typed scancode c T = term_put t c ?T1"
    using a(1,2) e assms(2)
    by (simp add: typed_def term_put_def input_process_key_def terminal_handle_key_def Let_def keyed_def plain_key_def split_beta)
  have same: "term_screen t ?T1 = term_screen t T" "term_ok t ?T1"
    using term_upd_input [of "\<lambda>_. keyed c ?d" T t t] keyed_input(4-6) [OF a(3)] assms(4) by simp_all
  show "term_ok t (typed scancode c T)" "term_screen t (typed scancode c T) = show_char c (term_screen t T)"
    unfolding eq using trm.put_ok [OF same(2) assms(2)] trm.put_abs [OF same(2) assms(2)] same(1) by simp_all
qed

lemma read_wait_line:
  assumes "accepts t xs 0 T" "\<forall>c\<in>set cs. char_key c \<and> c \<noteq> KEY_ENTER" "length xs + length cs < 128"
  shows "\<exists>T1. terminal_read_wait t (map (typed scancode) (cs @ [KEY_ENTER]) @ later) T = Some T1
    \<and> accepts t (xs @ cs @ [KEY_ENTER]) 1 T1
    \<and> (term_ok t T \<and> KEY_TAB \<notin> set cs \<longrightarrow> term_ok t T1 \<and> term_screen t T1 = fold show_char (cs @ [KEY_ENTER]) (term_screen t T))"
  using assms
proof (induction cs arbitrary: xs T)
  case Nil
  have "accepts t (xs @ [KEY_ENTER]) 1 (typed scancode KEY_ENTER T)"
    using accepts_typed [OF Nil(1), of KEY_ENTER] Nil(3) by (simp add: char_key_def)
  then show ?case
    using Nil(1,3) typed_echo [OF Nil(1), of KEY_ENTER scancode]
    by (subst terminal_read_wait.simps, subst terminal_read_wait.simps) (simp add: accepts_def plain_key_def)
next
  case (Cons c cs)
  have c: "accepts t (xs @ [c]) 0 (typed scancode c T)" "length (xs @ [c]) + length cs < 128"
    using accepts_typed [OF Cons.prems(1), of c scancode] Cons.prems(2,3) by auto
  obtain T1 where 1: "terminal_read_wait t (map (typed scancode) (cs @ [KEY_ENTER]) @ later) (typed scancode c T) = Some T1"
    "accepts t ((xs @ [c]) @ cs @ [KEY_ENTER]) 1 T1"
    and echo: "term_ok t (typed scancode c T) \<and> KEY_TAB \<notin> set cs \<longrightarrow> term_ok t T1
      \<and> term_screen t T1 = fold show_char (cs @ [KEY_ENTER]) (term_screen t (typed scancode c T))"
    using Cons.IH [OF c(1) _ c(2)] Cons.prems(2) by auto
  have "terminal_read_wait t (map (typed scancode) ((c # cs) @ [KEY_ENTER]) @ later) T = Some T1"
    using 1(1) Cons.prems(1) by (subst terminal_read_wait.simps) (simp add: accepts_def)
  moreover have "plain_key c" if "KEY_TAB \<notin> set (c # cs)" using that Cons.prems(2) by (auto simp: plain_key_def char_key_def)
  ultimately show ?case
    using 1(2) echo typed_echo [OF Cons.prems(1), of c scancode] Cons.prems(3) by auto
qed

lemma fold_touches:
  assumes "term_ok t T" "\<forall>b\<in>set bs. plain_key b"
  shows "touches t T (fold (term_put t) bs T)"
  using assms
proof (induction bs arbitrary: T)
  case (Cons b bs)
  have "touches t T (term_put t b T)"
    unfolding term_put_def using Cons.prems by (intro touches_handle_key) (simp add: key_fits_def term_ok_def plain_key_def)
  moreover have "touches t (term_put t b T) (fold (term_put t) bs (term_put t b T))"
    using Cons.prems trm.put_ok by (intro Cons.IH) simp_all
  ultimately show ?case using touches_trans [of t T "term_put t b T"] by simp
qed simp

text \<open>The terminals after \<open>terminal_init\<close> and opening the first one.\<close>

definition sample_terms :: terminals where
  "sample_terms = snd (terminal_open 0 (terminal_init
     \<lparr>term_data_array = (\<lambda>_. zero_term_data), active_term = 0, screen_buffers = (\<lambda>_. 0),
      display = \<lparr>screen_x = 0, screen_y = 0, video_mem = (\<lambda>_. 0), ports = []\<rparr>\<rparr>))"

lemma sample_inv: "terminals_inv sample_terms"
  unfolding sample_terms_def by (intro inv_terminal_open inv_terminal_init) simp

lemma sample_active [simp]: "active_term sample_terms = 0"
proof -
  have "active_term (terminal_clear t T) = active_term T" for t T
    using touches_clear [of t T] by (simp add: touches_def)
  then show ?thesis by (simp add: sample_terms_def terminal_open_def Let_def terminal_init_data)
qed

lemma sample_accepts: "accepts 0 [] 0 sample_terms"
proof -
  have "input_ok (term_data_array sample_terms 0)" using sample_inv by (simp add: terminals_inv_def)
  moreover have "term_data_array sample_terms 0 = (flush_input ((flush_input zero_term_data)\<lparr>screen_buf := 0\<rparr>))\<lparr>is_active := 1\<rparr>"
    by (simp add: sample_terms_def terminal_open_def Let_def clear_data terminal_init_data zero_term_data_def flush_input_def)
  ultimately show ?thesis by (simp add: accepts_def) (simp add: pending_def flush_input_def)
qed

lemma read_typed_line:
  assumes "accepts t [] 0 T" "t = pcb_term (pcbs cur)"
    and "\<forall>c\<in>set cs. char_key c \<and> c \<noteq> KEY_ENTER" "length cs < 128" "int (length cs) < len"
  obtains T' where "terminal_read (map (typed scancode) (cs @ [KEY_ENTER]) @ later) cur pcbs buf len m T
      = Some (int (length cs) + 1, store m buf (cs @ [KEY_ENTER]), T')" "accepts t [] 0 T'"
    and "term_ok t T \<and> KEY_TAB \<notin> set cs \<longrightarrow> term_ok t T' \<and> term_screen t T' = fold show_char (cs @ [KEY_ENTER]) (term_screen t T)"
proof -
  obtain T1 where 1: "terminal_read_wait t (map (typed scancode) (cs @ [KEY_ENTER]) @ later) T = Some T1"
    and acc: "accepts t (cs @ [KEY_ENTER]) 1 T1"
    and echo: "term_ok t T \<and> KEY_TAB \<notin> set cs \<longrightarrow> term_ok t T1 \<and> term_screen t T1 = fold show_char (cs @ [KEY_ENTER]) (term_screen t T)"
    using read_wait_line [OF assms(1,3), of scancode later] assms(4) by auto
  have "KEY_ENTER \<notin> set cs" using assms(3) by auto
  then have line: "cs @ [KEY_ENTER] = first_line (take (nat len) (pending (term_data_array T1 t)))"
    using first_line_complete [of cs "[]"] acc assms(5) by (simp add: accepts_def)
  have ok: "input_ok (term_data_array T1 t)" using acc by (simp add: accepts_def)
  show thesis
  proof (rule terminal_read_result [where pcbs = pcbs and cur = cur and buf = buf and m = m, OF 1 assms(2) ok line])
    fix T'
    assume eq: "terminal_read (map (typed scancode) (cs @ [KEY_ENTER]) @ later) cur pcbs buf len m T
        = Some (int (length (cs @ [KEY_ENTER])), store m buf (cs @ [KEY_ENTER]), T')"
      and r: "active_term T' = active_term T1"
        "in_dat_nr_ret (term_data_array T' t) = in_dat_nr_ret (term_data_array T1 t) - int (count_list (cs @ [KEY_ENTER]) NEWLINE)"
        "pending (term_data_array T' t) = (if t = active_term T1 then drop (length (cs @ [KEY_ENTER])) (pending (term_data_array T1 t))
          else take (length (pending (term_data_array T1 t)) - length (cs @ [KEY_ENTER])) (pending (term_data_array T1 t)))"
        "t = active_term T1 \<Longrightarrow> input_ok (term_data_array T' t)" "is_active (term_data_array T' t) = is_active (term_data_array T1 t)"
        "term_screen t T' = term_screen t T1" "term_ok t T' = term_ok t T1"
    have "accepts t [] 0 T'" using acc \<open>KEY_ENTER \<notin> set cs\<close> r(1-5) by (auto simp: accepts_def)
    moreover have "int (length (cs @ [KEY_ENTER])) = int (length cs) + 1" by simp
    ultimately show thesis using that [OF eq [unfolded \<open>int (length (cs @ [KEY_ENTER])) = _\<close>]] echo r(6,7) by simp
  qed
qed

section \<open>Properties\<close>



text \<open>C18: \<open>terminal_write\<close> prints on the caller's terminal and nowhere else.  For text without
  control characters other than newlines it returns the number of characters, its effect
  on the process's terminal is that of typing the text on the abstract screen, the cursor
  stays on the screen, the screens of all other terminals are unchanged, and a write to a
  terminal in the background leaves video memory alone.\<close>

theorem terminal_write_refines:
  assumes "term_ok (pcb_term (pcbs cur)) T" "\<forall>b\<in>set (load m buf n). plain_key b"
  shows "\<exists>T'. terminal_write m cur pcbs buf (int n) T = (int n, T')
    \<and> term_ok (pcb_term (pcbs cur)) T'
    \<and> term_screen (pcb_term (pcbs cur)) T' = fold show_char (load m buf n) (term_screen (pcb_term (pcbs cur)) T)
    \<and> (\<forall>u\<in>{0..<NR_TERM} - {pcb_term (pcbs cur)}. term_screen u T' = term_screen u T)
    \<and> (pcb_term (pcbs cur) \<noteq> active_term T \<longrightarrow> video_mem (display T') = video_mem (display T))"
proof -
  let ?t = "pcb_term (pcbs cur)" and ?T = "fold (term_put (pcb_term (pcbs cur))) (load m buf n) T"
  have tch: "touches ?t T ?T" by (rule fold_touches [OF assms])
  have "\<forall>u\<in>{0..<NR_TERM} - {?t}. term_screen u ?T = term_screen u T"
    using touches_other_screen [OF tch] assms(1) by (simp add: term_ok_def)
  moreover have "?t \<noteq> active_term T \<longrightarrow> video_mem (display ?T) = video_mem (display T)"
    using tch by (simp add: touches_def)
  ultimately show ?thesis
    using terminal_write_fold [of m cur pcbs buf n T] trm.puts_refines [OF assms] by blast
qed

theorem terminal_write_refines_witness:
  "fst (terminal_write (\<lambda>_. 0x41) 0 (\<lambda>_. sample_pcb\<lparr>pcb_term := 0\<rparr>) 0 (int 5) sample_terms) = 5"
proof -
  have "term_ok 0 sample_terms" using sample_inv by (simp add: term_ok_def terminals_inv_def)
  then show ?thesis
    using terminal_write_refines [of "\<lambda>_. sample_pcb\<lparr>pcb_term := 0\<rparr>" 0 sample_terms "\<lambda>_. 0x41" 0 5]
    by (auto simp: load_def plain_key_def)
qed

text \<open>C22: Switching terminals shows each terminal its own screen.  After \<open>terminal_switch t\<close> terminal
  \<open>t\<close> is active, and what every terminal shows, its cursor and its pending input are what they
  were; switching back restores the cells of video memory.\<close>

theorem terminal_switch_keeps_screens:
  assumes "terms_ok T" "t \<in> {0..<NR_TERM}"
  shows "active_term (terminal_switch t T) = t
    \<and> (\<forall>u\<in>{0..<NR_TERM}. term_screen u (terminal_switch t T) = term_screen u T
         \<and> pending (term_data_array (terminal_switch t T) u) = pending (term_data_array T u))
    \<and> (\<forall>k\<in>{0..<2000}. video_cell (video_mem (display (terminal_switch (active_term T) (terminal_switch t T)))) k
         = video_cell (video_mem (display T)) k)"
proof -
  let ?T1 = "terminal_switch t T" and ?a = "active_term T"
  have a: "?a \<in> {0..<NR_TERM}" using assms(1) by (simp add: terms_ok_def)
  have ok: "terms_ok ?T1" using assms by (simp add: terms_ok_def terminal_switch_data)
  have "term_screen u ?T1 = term_screen u T" if "u \<in> {0..<NR_TERM}" for u
  proof -
    have "shown u ?T1 (r * NUM_COLS + c) = shown u T (r * NUM_COLS + c)" if "on_screen r c" for r c
      using terminal_switch_shown [OF assms \<open>u \<in> _\<close>] that by (simp add: on_screen_def)
    then show ?thesis by (auto simp: term_screen_def grid_def fun_eq_iff terminal_switch_data)
  qed
  moreover have "video_cell (video_mem (display (terminal_switch ?a ?T1))) k = video_cell (video_mem (display T)) k"
    if "k \<in> {0..<2000}" for k
    using terminal_switch_shown [OF ok a a that] terminal_switch_shown [OF assms a that]
    by (simp add: shown_def terminal_switch_data)
  moreover have "pending (term_data_array ?T1 u) = pending (term_data_array T u)" for u
    by (simp add: terminal_switch_data pending_def)
  ultimately show ?thesis by (simp add: terminal_switch_data)
qed

theorem terminal_switch_keeps_screens_witness:
  "term_screen 0 (terminal_switch 3 sample_terms) = term_screen 0 sample_terms"
  using terminal_switch_keeps_screens [of sample_terms 3] sample_inv by (simp add: terminals_inv_def)

text \<open>C23: The input buffer is a line editor.  On an active terminal whose buffer is well formed, a
  key without control edits the pending characters as specified: backspace removes the
  last one, any other character is appended while fewer than 128 are pending, NUL and
  delete change nothing; the other terminals' data is untouched.  With control, \<open>l\<close> empties
  the buffer unless it is full.\<close>

theorem input_buffer_edits:
  assumes "input_ok (term_data_array T (active_term T))" "is_active (term_data_array T (active_term T)) \<noteq> 0"
  shows "(let T' = snd (input_process_key key scancode 0 alt T) in
      pending (term_data_array T' (active_term T)) = edit key (pending (term_data_array T (active_term T)))
    \<and> input_ok (term_data_array T' (active_term T)) \<and> active_term T' = active_term T
    \<and> (\<forall>u. u \<noteq> active_term T \<longrightarrow> term_data_array T' u = term_data_array T u))
    \<and> (control \<noteq> 0 \<and> length (pending (term_data_array T (active_term T))) < 128 \<longrightarrow>
        pending (term_data_array (snd (input_process_key (of_char CHR ''l'') scancode control alt T)) (active_term T)) = [])"
proof -
  let ?a = "active_term T" and ?T' = "snd (input_process_key key scancode 0 alt T)"
  have mv: "moves ?a (upd_term ?a (\<lambda>_. keyed key (term_data_array T ?a)) T) ?T'"
    by (rule input_process_key_data) (simp_all add: assms(2))
  then have s: "strip (term_data_array ?T' ?a) = strip (keyed key (term_data_array T ?a))"
    by (simp add: moves_def)
  have "pending (term_data_array ?T' ?a) = edit key (pending (term_data_array T ?a)) \<and> input_ok (term_data_array ?T' ?a)"
    using strip_input [OF s] keyed_input [OF assms(1)] by simp
  moreover have "active_term ?T' = ?a \<and> (\<forall>u. u \<noteq> ?a \<longrightarrow> term_data_array ?T' u = term_data_array T u)"
    using mv by (simp add: moves_def)
  moreover have "pending (term_data_array (snd (input_process_key (of_char CHR ''l'') scancode control alt T)) ?a) = []"
    if "control \<noteq> 0" "length (pending (term_data_array T ?a)) < 128"
    using that assms
    by (auto simp: input_process_key_def Let_def split_beta terminal_handle_key_def clear_data pending_def flush_input_def
        input_ok_def nat_less_iff)
  ultimately show ?thesis by (simp add: Let_def)
qed

theorem input_buffer_edits_witness:
  "pending (term_data_array (snd (input_process_key 0x41 0x1E 0 0 sample_terms)) 0) = [0x41]"
  using input_buffer_edits [of sample_terms "0x41" "0x1E" 0] sample_accepts
  by (simp add: accepts_def edit_def Let_def del: length_pending)

text \<open>C19: A typed line is read.  When the process's terminal is the active one with an empty
  input buffer, and a line of fewer than 128 characters is typed, followed by the enter
  key and whatever comes later, \<open>terminal_read\<close> with a large enough buffer returns, delivers exactly the line
  with its newline, and leaves the input buffer empty for the next line; the line is echoed on the
  terminal's screen, unless it has tabs.\<close>

theorem typed_line_is_read:
  assumes "accepts t [] 0 T" "t = pcb_term (pcbs cur)"
    and "\<forall>c\<in>set cs. char_key c \<and> c \<noteq> KEY_ENTER" "length cs < 128" "int (length cs) < len"
  shows "\<exists>T'. terminal_read (map (typed scancode) (cs @ [KEY_ENTER]) @ later) cur pcbs buf len m T
      = Some (int (length cs) + 1, store m buf (cs @ [KEY_ENTER]), T') \<and> accepts t [] 0 T'
      \<and> (term_ok t T \<and> KEY_TAB \<notin> set cs \<longrightarrow> term_screen t T' = fold show_char (cs @ [KEY_ENTER]) (term_screen t T))"
  by (rule read_typed_line [where pcbs = pcbs and cur = cur and scancode = scancode and later = later and buf = buf and m = m, OF assms]) blast

theorem typed_line_is_read_witness:
  "\<exists>T'. terminal_read (map (typed 0x1E) ([0x6C, 0x73] @ [KEY_ENTER]) @ []) 0 (\<lambda>_. sample_pcb\<lparr>pcb_term := 0\<rparr>) 0x600000 128 (\<lambda>_. 0) sample_terms
    = Some (int (length [0x6C, 0x73 :: u8]) + 1, store (\<lambda>_. 0) 0x600000 ([0x6C, 0x73] @ [KEY_ENTER]), T') \<and> accepts 0 [] 0 T'
    \<and> (term_ok 0 sample_terms \<and> KEY_TAB \<notin> set [0x6C, 0x73] \<longrightarrow>
        term_screen 0 T' = fold show_char ([0x6C, 0x73] @ [KEY_ENTER]) (term_screen 0 sample_terms))"
  by (rule typed_line_is_read) (simp_all add: sample_accepts char_key_def)

text \<open>C40: Reading from a terminal in the background mixes up the input.  The characters behind the
  line that was read are moved to the front of the \<^emph>\<open>active\<close> terminal's buffer, so the
  reader's own buffer keeps its first characters instead of the last ones.\<close>

theorem terminal_read_background:
  assumes "terminal_read_wait t arrivals T = Some T1" "t = pcb_term (pcbs cur)" "t \<noteq> active_term T1"
    and "input_ok (term_data_array T1 t)" and "line = first_line (take (nat len) (pending (term_data_array T1 t)))"
    and "n = length (pending (term_data_array T1 t)) - length line"
  shows "\<exists>T'. terminal_read arrivals cur pcbs buf len m T = Some (int (length line), store m buf line, T')
    \<and> pending (term_data_array T' t) = take n (pending (term_data_array T1 t))
    \<and> (\<forall>k<n. in_buf (term_data_array T' (active_term T1)) (int k) = pending (term_data_array T1 t) ! (length line + k))"
  by (rule terminal_read_result [where pcbs = pcbs and cur = cur and buf = buf and m = m, OF assms(1,2,4,5)]) (use assms(3,6) in auto)

theorem terminal_read_background_witness:
  "\<exists>T'. terminal_read [] 0 (\<lambda>_. sample_pcb\<lparr>pcb_term := 1\<rparr>) 0x600000 128 (\<lambda>_. 0) (upd_term 1 (\<lambda>d. d\<lparr>in_buf := (\<lambda>_. 0x78)(1 := 0x0A, 2 := 0x79, 3 := 0x0A), in_dat_end := 4, in_dat_index := 4, in_dat_nr_ret := 2\<rparr>) sample_terms)
    = Some (2, store (\<lambda>_. 0) 0x600000 [0x78, 0x0A], T') \<and> pending (term_data_array T' 1) = [0x78, 0x0A]"
proof -
  let ?T = "upd_term 1 (\<lambda>d. d\<lparr>in_buf := (\<lambda>_. 0x78)(1 := 0x0A, 2 := 0x79, 3 := 0x0A), in_dat_end := 4, in_dat_index := 4, in_dat_nr_ret := 2\<rparr>) sample_terms"
  have p: "pending (term_data_array ?T 1) = [0x78, 0x0A, 0x79, 0x0A]" by (simp add: pending_def upt_rec)
  have "terminal_read_wait 1 [] ?T = Some ?T" by (subst terminal_read_wait.simps) simp
  moreover have "input_ok (term_data_array ?T 1)" using p by (simp add: input_ok_def)
  ultimately show ?thesis
    using terminal_read_background [of 1 "[]" ?T ?T "\<lambda>_. sample_pcb\<lparr>pcb_term := 1\<rparr>" 0 _ 128 _ "0x600000" "\<lambda>_. 0", OF _ _ _ _ refl refl] unfolding p by auto
qed

text \<open>A backspace at the upper left corner leaves the screen.  The cursor moves to column -1 and
  the first character of the row is copied in front of the screen; for a terminal in the
  background that is the last cell of the preceding terminal's screen.\<close>

theorem backspace_at_origin:
  assumes "cur_x (term_data_array T t) = 0" "cur_y (term_data_array T t) = 0"
  shows "(let T' = snd (terminal_handle_key t KEY_BACKSPACE scancode control alt T) in
      cur_x (term_data_array T' t) = -1 \<and> shown t T' (-1) = cell (ucast (shown t T 0))
    \<and> (terms_ok T \<and> {t - 1, t} \<subseteq> {0..<NR_TERM} - {active_term T} \<longrightarrow> shown (t - 1) T' 1999 = cell (ucast (shown t T 0))))"
proof -
  let ?T1 = "upd_term t (\<lambda>d. d\<lparr>cur_x := -1\<rparr>) T"
  let ?T2 = "for_range (-1) 79 (\<lambda>i T. terminal_putc t (terminal_getc t (i + 1) 0 T) i 0 T) ?T1"
  let ?T3 = "terminal_putc t SPACE 79 0 ?T2" and ?T' = "snd (terminal_handle_key t KEY_BACKSPACE scancode control alt T)"
  have T': "?T' = terminal_refresh t ?T3"
    using assms by (simp add: terminal_handle_key_def Let_def terminal_backspace_def)
  have data: "term_data_array ?T' = (term_data_array T)(t := (term_data_array T t)\<lparr>cur_x := -1\<rparr>)" "active_term ?T' = active_term T"
    unfolding T' by (simp_all add: for_range_frame [where g = term_data_array] for_range_frame [where g = active_term])
  have "shown t ?T2 = for_range (-1) 79 (\<lambda>i a. a(0 + i := (cell \<circ> ucast) (a (0 + i + 1)))) (shown t ?T1)"
    by (rule for_range_hom) (simp add: shown_putc terminal_getc_shown)
  also have "\<dots> = (\<lambda>k. if 0 + -1 \<le> k \<and> k < 0 + 79 then (cell \<circ> ucast) (shown t ?T1 (k + 1)) else shown t ?T1 k)"
    by (rule for_range_map_down) simp
  finally have before: "shown t ?T' (-1) = cell (ucast (shown t T 0))"
    unfolding T' by (simp add: shown_putc)
  moreover have "shown (t - 1) ?T' 1999 = shown t ?T' (-1)" if "terms_ok T" "{t - 1, t} \<subseteq> {0..<NR_TERM} - {active_term T}"
    using that by (auto simp: shown_def data terms_ok_def)
  ultimately show ?thesis using data by (simp add: Let_def)
qed

theorem backspace_at_origin_witness:
  "shown 1 (snd (terminal_handle_key 2 KEY_BACKSPACE 0xFF 0 0 sample_terms)) 1999 = cell (ucast (shown 2 sample_terms 0))"
proof -
  have "terms_ok sample_terms" using sample_inv by (simp add: terminals_inv_def)
  moreover have "cur_x (term_data_array sample_terms 2) = 0" "cur_y (term_data_array sample_terms 2) = 0"
    by (simp_all add: sample_terms_def terminal_open_def Let_def clear_data terminal_init_data zero_term_data_def)
  ultimately show ?thesis using backspace_at_origin [of sample_terms 2 "0xFF" 0 0] by (simp add: Let_def)
qed

end
