(* ===== verification/Kernel.thy ===== *)
theory Kernel
  imports Scheduling Rtc Paging Fs Termios
begin

text \<open>
  The state of the whole kernel and the context switch: \<^verbatim>\<open>scheduler_tick\<close> of
  \<^verbatim>\<open>student-distrib/kernel/scheduling.c\<close> and \<^verbatim>\<open>pit_handler\<close> of \<^verbatim>\<open>drivers/pit.c\<close>.  The state
  collects the components' states, the two stack registers, the task state segment's kernel
  stack and physical memory.  The running process is known to the code only through the
  stack pointer (\<open>pcb_process\<close>), and so it is here.
\<close>

abbreviation KERNEL_DS :: u16 where "KERNEL_DS \<equiv> 0x0018"
abbreviation VIDEO_MEM :: u32 where "VIDEO_MEM \<equiv> 0xB8000"
abbreviation PIT_IRQ_LINE :: u32 where "PIT_IRQ_LINE \<equiv> 0"

section \<open>The machine\<close>

record machine =
  k_fs :: fs
  k_pids :: "u8 arr"
  k_sched :: "u8 arr"
  k_paging :: paging
  k_pcbs :: pcbs
  k_terms :: terminals
  k_rtc :: bool
  k_phys :: mem
  k_ss0 :: u16
  k_esp0 :: u32
  k_esp :: u32
  k_ebp :: u32

text \<open>What is fixed when the kernel is linked or not under its control: where the linker puts
  its tables and string literals, the devices, the addresses of local arrays and structures
  on the kernel stack, and the values of uninitialised locals.\<close>

record env =
  e_lay :: layout
  e_dev :: device
  e_screens :: u32
  e_rtc_name :: u32
  e_shell_name :: u32
  e_fname :: u32
  e_fargs :: u32
  e_dentry :: u32
  e_magic :: u32
  e_load_dentry :: u32
  e_load_entry :: u32
  e_dir_dentry :: u32
  e_junk :: int
  e_byte :: u8
  e_tbl :: u32
  e_arg :: u32
  e_pcb :: u32
  e_term :: int

definition KERNEL_STACK :: "u32 \<Rightarrow> u32" where
  "KERNEL_STACK next_pid = 0x800000 - 0x2000 * next_pid - 4"

abbreviation curr :: "machine \<Rightarrow> u32" where
  "curr M \<equiv> pcb_process (k_esp M)"

definition upd_pcb :: "u32 \<Rightarrow> (pcb \<Rightarrow> pcb) \<Rightarrow> machine \<Rightarrow> machine" where
  "upd_pcb a f M = M\<lparr>k_pcbs := (k_pcbs M)(a := f (k_pcbs M a))\<rparr>"

definition on_display :: "(console \<Rightarrow> console) \<Rightarrow> machine \<Rightarrow> machine" where
  "on_display f M = M\<lparr>k_terms := (k_terms M)\<lparr>display := f (display (k_terms M))\<rparr>\<rparr>"

section \<open>The context switch\<close>

definition set_tss :: "u32 \<Rightarrow> machine \<Rightarrow> machine" where
  "set_tss esp0 M = M\<lparr>k_ss0 := KERNEL_DS, k_esp0 := esp0\<rparr>"

definition save_context :: "machine \<Rightarrow> machine" where
  "save_context M = upd_pcb (curr M) (\<lambda>p. p\<lparr>ebp_reg := k_ebp M, esp_reg := k_esp M\<rparr>) M"

definition load_context :: "u32 \<Rightarrow> machine \<Rightarrow> machine" where
  "load_context a M = M\<lparr>k_esp := esp_reg (k_pcbs M a), k_ebp := ebp_reg (k_pcbs M a)\<rparr>"

definition switch_video :: "env \<Rightarrow> u32 \<Rightarrow> machine \<Rightarrow> machine" where
  "switch_video env a M =
     (let p = k_pcbs M a; t = uint (of_int (pcb_term p) :: u8) in
      if pcb_vidmap p = 1 then
        if is_active_term t (k_terms M) \<noteq> 0
        then M\<lparr>k_paging := update_video_paging (e_lay env) (pcb_pid p) VIDEO_MEM (k_paging M)\<rparr>
        else M\<lparr>k_paging := update_video_paging (e_lay env) (pcb_pid p)
                 (term_data_ptr (e_screens env) t (k_terms M)) (k_paging M)\<rparr>
      else M)"

definition switch_to :: "env \<Rightarrow> u32 \<Rightarrow> machine \<Rightarrow> machine" where
  "switch_to env next_pid M =
     (let next_context = get_pcb (ucast next_pid);
          M = save_context M;
          M = set_tss (KERNEL_STACK next_pid) M;
          M = M\<lparr>k_paging := snd (paging_update_control (e_lay env) next_pid (k_paging M))\<rparr>;
          M = switch_video env next_context M
      in load_context next_context M)"

text \<open>\<open>None\<close> would be a search that never ends.\<close>

definition scheduler_tick :: "env \<Rightarrow> machine \<Rightarrow> machine option" where
  "scheduler_tick env M =
     (if \<not> any_scheduled (k_sched M) then Some M
      else case find_next_pid (uint (pcb_pid (k_pcbs M (curr M)))) (k_sched M) (e_junk env) of
             None \<Rightarrow> None
           | Some next_pid \<Rightarrow> Some (switch_to env (of_int next_pid) M))"

definition pit_handler :: "env \<Rightarrow> machine \<Rightarrow> machine option" where
  "pit_handler env M = scheduler_tick env (on_display (on_ports (send_eoi PIT_IRQ_LINE)) M)"

section \<open>Processes in the machine\<close>

text \<open>The control block of process \<open>p\<close>, and the 8 kB slice that holds it and its kernel
  stack.\<close>

definition pcb_of :: "int \<Rightarrow> machine \<Rightarrow> pcb" where
  "pcb_of p M = k_pcbs M (get_pcb (of_int p))"

definition on_stack :: "int \<Rightarrow> u32 \<Rightarrow> bool" where
  "on_stack p a \<longleftrightarrow> pcb_process a = get_pcb (of_int p)"

text \<open>Process \<open>p\<close> runs: the stack pointer is on its kernel stack, its page directory is loaded
  and its control block knows its number.\<close>

definition runs :: "env \<Rightarrow> int \<Rightarrow> machine \<Rightarrow> bool" where
  "runs env p M \<longleftrightarrow> p \<in> {0..<MAX_PID} \<and> on_stack p (k_esp M) \<and> running (e_lay env) (k_paging M) p
     \<and> uint (pcb_pid (pcb_of p M)) = p"

text \<open>Process \<open>p\<close> is suspended: its saved stack pointer is on its own kernel stack.\<close>

definition suspended :: "int \<Rightarrow> machine \<Rightarrow> bool" where
  "suspended p M \<longleftrightarrow> on_stack p (esp_reg (pcb_of p M)) \<and> uint (pcb_pid (pcb_of p M)) = p"

lemma get_pcb_ucast: "0 \<le> p \<Longrightarrow> p < MAX_PID \<Longrightarrow> get_pcb (ucast (of_int p :: u32)) = get_pcb (of_int p)"
  by (simp add: unsigned_of_int take_bit_int_eq_self)

lemma get_pcb_nat:
  assumes "0 \<le> p" "p < MAX_PID"
  obtains n where "p = int n" "n < 16" "get_pcb (of_int p) = get_pcb (of_nat n)"
  using assms by (intro that [of "nat p"]) auto

lemma get_pcb_eq_iff:
  assumes "0 \<le> p" "p < MAX_PID" "0 \<le> q" "q < MAX_PID"
  shows "get_pcb (of_int p) = get_pcb (of_int q) \<longleftrightarrow> p = q"
proof -
  obtain n m where "p = int n" "n < 16" "q = int m" "m < 16"
    using assms get_pcb_nat by metis
  then show ?thesis using unat_get_pcb [of n] unat_get_pcb [of m] by auto
qed

lemma on_stack_offset:
  assumes "0 \<le> p" "p < MAX_PID" "unat k < 0x2000"
  shows "on_stack p (get_pcb (of_int p) + k)"
proof -
  obtain n where "p = int n" "n < 16" using assms get_pcb_nat by metis
  then show ?thesis
    using pcb_mask_offset [OF get_pcb_aligned assms(3)] by (simp add: on_stack_def pcb_process_def)
qed

lemma on_stack_KERNEL_STACK:
  assumes "0 \<le> p" "p < MAX_PID"
  shows "on_stack p (KERNEL_STACK (of_int p))"
proof -
  obtain n where n: "p = int n" "n < 16" using assms get_pcb_nat by metis
  have "get_pcb (of_int p) = of_nat (0x800000 - 0x2000 * (n + 1))"
    using arg_cong [OF unat_get_pcb [OF n(2)], of "of_nat :: nat \<Rightarrow> u32"] n(1) by simp
  then have "KERNEL_STACK (of_int p) = get_pcb (of_int p) + 0x1FFC"
    using n by (simp add: KERNEL_STACK_def of_nat_diff)
  then show ?thesis using on_stack_offset [OF assms, of "0x1FFC"] by simp
qed

lemma upd_pcb_simps [simp]:
  "k_pcbs (upd_pcb a f M) = (k_pcbs M)(a := f (k_pcbs M a))"
  "k_esp (upd_pcb a f M) = k_esp M" "k_ebp (upd_pcb a f M) = k_ebp M" "k_paging (upd_pcb a f M) = k_paging M"
  "k_sched (upd_pcb a f M) = k_sched M" "k_terms (upd_pcb a f M) = k_terms M" "k_phys (upd_pcb a f M) = k_phys M"
  "k_esp0 (upd_pcb a f M) = k_esp0 M" "k_fs (upd_pcb a f M) = k_fs M" "k_pids (upd_pcb a f M) = k_pids M"
  by (simp_all add: upd_pcb_def)

lemma switch_video_frame [simp]:
  "k_pcbs (switch_video env a M) = k_pcbs M" "k_esp0 (switch_video env a M) = k_esp0 M"
  "k_sched (switch_video env a M) = k_sched M" "k_phys (switch_video env a M) = k_phys M"
  "k_terms (switch_video env a M) = k_terms M" "k_pids (switch_video env a M) = k_pids M" "k_fs (switch_video env a M) = k_fs M"
  by (simp_all add: switch_video_def Let_def)

lemma switch_video_running:
  assumes "running (e_lay env) (k_paging M) p" "uint (pcb_pid (k_pcbs M a)) = p"
  shows "running (e_lay env) (k_paging (switch_video env a M)) p"
  using assms by (simp add: switch_video_def Let_def update_video_paging_def running_def load_cr3_def)

text \<open>One context switch.\<close>

lemma switch_to_runs:
  assumes "runs env p M" "0 \<le> q" "q < MAX_PID" "q = p \<or> suspended q M"
  shows "runs env q (switch_to env (of_int q) M)"
    and "k_esp (switch_to env (of_int q) M) = (if q = p then k_esp M else esp_reg (pcb_of q M))"
    and "k_ebp (switch_to env (of_int q) M) = (if q = p then k_ebp M else ebp_reg (pcb_of q M))"
    and "pcb_of p (switch_to env (of_int q) M) = (pcb_of p M)\<lparr>ebp_reg := k_ebp M, esp_reg := k_esp M\<rparr>"
    and "\<forall>r\<in>{0..<MAX_PID} - {p}. pcb_of r (switch_to env (of_int q) M) = pcb_of r M"
    and "on_stack q (k_esp0 (switch_to env (of_int q) M))"
    and "k_sched (switch_to env (of_int q) M) = k_sched M" "k_phys (switch_to env (of_int q) M) = k_phys M"
    and "k_terms (switch_to env (of_int q) M) = k_terms M" "k_pids (switch_to env (of_int q) M) = k_pids M"
proof -
  let ?M' = "switch_to env (of_int q) M"
  have p: "0 \<le> p" "p < MAX_PID" "curr M = get_pcb (of_int p)" "uint (pcb_pid (pcb_of p M)) = p"
    using assms(1) by (simp_all add: runs_def on_stack_def)
  note defs = switch_to_def Let_def load_context_def set_tss_def save_context_def get_pcb_ucast [OF assms(2,3)]
  have pcbs: "k_pcbs ?M' = (k_pcbs M)(get_pcb (of_int p) := (pcb_of p M)\<lparr>ebp_reg := k_ebp M, esp_reg := k_esp M\<rparr>)"
    by (simp add: defs p(3) pcb_of_def)
  show regs: "k_esp ?M' = (if q = p then k_esp M else esp_reg (pcb_of q M))"
    "k_ebp ?M' = (if q = p then k_ebp M else ebp_reg (pcb_of q M))"
    using get_pcb_eq_iff [OF assms(2,3) p(1,2)] by (simp_all add: defs p(3) pcb_of_def)
  show "pcb_of p ?M' = (pcb_of p M)\<lparr>ebp_reg := k_ebp M, esp_reg := k_esp M\<rparr>"
    "\<forall>r\<in>{0..<MAX_PID} - {p}. pcb_of r ?M' = pcb_of r M"
    using get_pcb_eq_iff p(1,2) by (auto simp: pcb_of_def pcbs)
  have qpid: "uint (pcb_pid (pcb_of q ?M')) = q"
    using assms(4) p(4) by (auto simp: pcb_of_def pcbs suspended_def)
  have "uint (of_int q :: u32) = q" using assms(2,3) by (intro uint_of_int_u32) auto
  then have "running (e_lay env) (k_paging ?M') q"
    using assms(2,3) qpid
    by (auto simp: defs pcb_of_def intro!: switch_video_running paging_update_control_ok)
      (simp_all add: paging_update_control_def running_def load_cr3_def)
  moreover have "on_stack q (k_esp ?M')"
    using regs(1) assms(1,4) by (auto simp: runs_def suspended_def)
  ultimately show "runs env q ?M'" using qpid assms(2,3) by (simp add: runs_def)
  show "on_stack q (k_esp0 ?M')" using on_stack_KERNEL_STACK [OF assms(2,3)] by (simp add: defs)
  show "k_sched ?M' = k_sched M" "k_phys ?M' = k_phys M" "k_terms ?M' = k_terms M" "k_pids ?M' = k_pids M"
    by (simp_all add: defs)
qed

lemma scheduler_tick_switch:
  assumes "runs env p M" "runnable (k_sched M) \<noteq> {}"
  shows "scheduler_tick env M = Some (switch_to env (of_int (next_runnable p (k_sched M))) M)"
proof -
  have "curr M = get_pcb (of_int p)" "uint (pcb_pid (pcb_of p M)) = p" "0 \<le> p" "p < MAX_PID"
    using assms(1) by (simp_all add: runs_def on_stack_def)
  then show ?thesis
    using assms(2) find_next_pid_eq [of p "k_sched M" "e_junk env"]
    by (simp add: scheduler_tick_def any_scheduled_iff pcb_of_def)
qed

section \<open>A sample machine\<close>

text \<open>Processes 1 and 2 are runnable, process 1 runs; it has the command \<open>sh a\<close> at 0x8001000.\<close>

definition sample_env :: env where
  "sample_env = \<lparr>e_lay = sample_layout, e_dev = (\<lambda>_ _. 0), e_screens = 0x440000, e_rtc_name = 0x450000,
     e_shell_name = 0x450010, e_fname = 0x7fdd00, e_fargs = 0x7fdc00, e_dentry = 0x7fdb00, e_magic = 0x7fda00,
     e_load_dentry = 0x7fd900, e_load_entry = 0x7fd880, e_dir_dentry = 0x7fd800, e_junk = 0, e_byte = 0, e_tbl = 0,
     e_arg = 0, e_pcb = 0x7fe000, e_term = 0\<rparr>"

definition sample_machine :: machine where
  "sample_machine = \<lparr>k_fs = sample_fs, k_pids = (\<lambda>_. 0)(1 := 1, 2 := 1), k_sched = (\<lambda>_. 0)(1 := 1, 2 := 1),
     k_paging = snd (paging_update_control sample_layout 1 (snd (paging_allocate sample_layout 1 (paging_init sample_layout zero_paging)))),
     k_pcbs = (\<lambda>a. sample_pcb\<lparr>pcb_pid := (if a = get_pcb 1 then 1 else if a = get_pcb 2 then 2 else 0), esp_reg := a + 0x1F00\<rparr>),
     k_terms = sample_terms, k_rtc = False, k_phys = store sample_image 0x801000 [0x73, 0x68, 0x20, 0x61, 0], k_ss0 = KERNEL_DS, k_esp0 = KERNEL_STACK 1,
     k_esp = get_pcb 1 + 0x1E00, k_ebp = get_pcb 1 + 0x1E40\<rparr>"

lemma sample_runs: "runs sample_env 1 sample_machine"
proof -
  have "running sample_layout (snd (paging_update_control sample_layout 1 s)) 1" for s
    by (simp add: paging_update_control_def running_def load_cr3_def)
  then show ?thesis
    using on_stack_offset [of 1 "0x1E00"] by (simp add: runs_def sample_env_def sample_machine_def pcb_of_def)
qed

lemma sample_suspended: "suspended 2 sample_machine"
proof -
  have "get_pcb 2 \<noteq> get_pcb 1" using get_pcb_eq_iff [of 2 1] by simp
  then show ?thesis
    using on_stack_offset [of 2 "0x1F00"] by (simp add: suspended_def sample_machine_def pcb_of_def)
qed

lemma sample_next: "next_runnable 1 (k_sched sample_machine) = 2" "next_runnable 2 (k_sched sample_machine) = 1"
  "runnable (k_sched sample_machine) \<noteq> {}"
proof -
  show "next_runnable 1 (k_sched sample_machine) = 2" "next_runnable 2 (k_sched sample_machine) = 1"
    by (simp_all add: next_runnable_def sample_machine_def upto_rec1)
  have "1 \<in> runnable (k_sched sample_machine)" by (simp add: runnable_def sample_machine_def)
  then show "runnable (k_sched sample_machine) \<noteq> {}" by blast
qed

section \<open>Properties\<close>

text \<open>C7: A timer tick switches to the next runnable process.  When process \<open>p\<close> runs and the next
  runnable process \<open>q\<close> in cyclic order is \<open>p\<close> itself or suspended, \<open>scheduler_tick\<close> ends, \<open>q\<close>
  runs on its own kernel stack and page directory with the registers it was suspended
  with, the kernel stack for its next interrupt is its own, \<open>p\<close> is suspended with the
  registers it had, and no other control block, nor the run queue, the terminals or
  memory have changed.\<close>

theorem context_switch:
  assumes "runs env p M" "runnable (k_sched M) \<noteq> {}"
    and "q = next_runnable p (k_sched M)" "q = p \<or> suspended q M"
  shows "\<exists>M'. scheduler_tick env M = Some M' \<and> runs env q M'
    \<and> (q \<noteq> p \<longrightarrow> k_esp M' = esp_reg (pcb_of q M) \<and> k_ebp M' = ebp_reg (pcb_of q M))
    \<and> (q = p \<longrightarrow> k_esp M' = k_esp M \<and> k_ebp M' = k_ebp M)
    \<and> on_stack q (k_esp0 M')
    \<and> suspended p M' \<and> esp_reg (pcb_of p M') = k_esp M \<and> ebp_reg (pcb_of p M') = k_ebp M
    \<and> (\<forall>r\<in>{0..<MAX_PID} - {p}. pcb_of r M' = pcb_of r M)
    \<and> k_sched M' = k_sched M \<and> k_phys M' = k_phys M \<and> k_terms M' = k_terms M"
proof -
  have p: "0 \<le> p" "p < MAX_PID" "on_stack p (k_esp M)" "uint (pcb_pid (pcb_of p M)) = p"
    using assms(1) by (simp_all add: runs_def)
  note q = next_runnable_range [OF p(1,2), of "k_sched M", folded assms(3)]
  note sw = switch_to_runs [OF assms(1) q assms(4)]
  have "suspended p (switch_to env (of_int q) M)"
    using sw(4) p by (simp add: suspended_def)
  then show ?thesis
    using scheduler_tick_switch [OF assms(1,2), folded assms(3)] sw
    by (intro exI [of _ "switch_to env (of_int q) M"] conjI impI) (simp_all only: if_True if_False, simp_all)
qed

theorem context_switch_witness:
  "\<exists>M'. scheduler_tick sample_env sample_machine = Some M' \<and> runs sample_env 2 M'"
  using context_switch [OF sample_runs sample_next(3) sample_next(1) [symmetric]] sample_suspended by auto

text \<open>A process resumes where it was interrupted.  When a tick switches from \<open>p\<close> to \<open>q\<close>, \<open>q\<close>
  then uses its own kernel stack only, and a later tick switches back to \<open>p\<close>, the stack
  registers and the page directory are those \<open>p\<close> had.\<close>

theorem switch_roundtrip:
  assumes "runs env p M" "runnable (k_sched M) \<noteq> {}"
    and "q = next_runnable p (k_sched M)" "suspended q M" "p = next_runnable q (k_sched M)" "q \<noteq> p"
    and "scheduler_tick env M = Some M1" "on_stack q e"
  shows "\<exists>M2. scheduler_tick env (M1\<lparr>k_esp := e, k_ebp := b\<rparr>) = Some M2
    \<and> k_esp M2 = k_esp M \<and> k_ebp M2 = k_ebp M \<and> runs env p M2"
proof -
  have p: "0 \<le> p" "p < MAX_PID" "on_stack p (k_esp M)" "uint (pcb_pid (pcb_of p M)) = p"
    using assms(1) by (simp_all add: runs_def)
  note q = next_runnable_range [OF p(1,2), of "k_sched M", folded assms(3)]
  have M1: "M1 = switch_to env (of_int q) M"
    using scheduler_tick_switch [OF assms(1,2)] assms(3,7) by simp
  have sw: "runs env q M1" "pcb_of p M1 = (pcb_of p M)\<lparr>ebp_reg := k_ebp M, esp_reg := k_esp M\<rparr>" "k_sched M1 = k_sched M"
    using switch_to_runs [OF assms(1) q] assms(4) unfolding M1 by simp_all
  let ?M1 = "M1\<lparr>k_esp := e, k_ebp := b\<rparr>"
  have run: "runs env q ?M1" using sw(1) assms(8) by (simp add: runs_def pcb_of_def)
  have same: "pcb_of r ?M1 = pcb_of r M1" for r by (simp add: pcb_of_def)
  have "p = q \<or> suspended p ?M1" using sw(2) p by (simp add: suspended_def same)
  note returns = switch_to_runs [OF run p(1,2) this]
  show ?thesis
    using scheduler_tick_switch [OF run] assms(2,5,6) sw(2,3) returns(1-3) same by simp
qed

theorem switch_roundtrip_witness:
  "\<exists>M1 M2. scheduler_tick sample_env sample_machine = Some M1
    \<and> scheduler_tick sample_env (M1\<lparr>k_esp := get_pcb 2 + 0x1E00, k_ebp := 0\<rparr>) = Some M2
    \<and> k_esp M2 = k_esp sample_machine"
proof -
  obtain M1 where M1: "scheduler_tick sample_env sample_machine = Some M1"
    using scheduler_tick_switch [OF sample_runs sample_next(3)] by blast
  have "on_stack 2 (get_pcb 2 + 0x1E00)" using on_stack_offset [of 2 "0x1E00"] by simp
  from switch_roundtrip [OF sample_runs sample_next(3) sample_next(1) [symmetric] sample_suspended
      sample_next(2) [symmetric] _ M1 this] M1
  show ?thesis by auto
qed

end
