(* ===== verification/Syscall.thy ===== *)
theory Syscall
  imports Kernel
begin

text \<open>
  The system calls: \<^verbatim>\<open>student-distrib/kernel/syscall.c\<close> and the dispatch of
  \<^verbatim>\<open>asm_linkage.S\<close>.  User addresses are translated through the current page directory: the
  4 MB at 0x08000000 are the running process's image, everything below 8 MB is the
  kernel's own memory at the same physical address; other addresses are not mapped, and
  accesses to them, which fault, read 0 and write nothing here.  A call either returns a value to its
  caller or, for \<open>execute\<close> and \<open>init_shell\<close>, leaves the kernel for user mode; \<open>None\<close> stands for
  a call that does not return (a wait that is not over, a string without end) or jumps
  through a pointer the code never set.
\<close>

abbreviation BUFFER_LENGTH :: u32 where "BUFFER_LENGTH \<equiv> 32"
abbreviation FD_MIN :: int where "FD_MIN \<equiv> 0"
abbreviation NEGATIVE_1 :: u16 where "NEGATIVE_1 \<equiv> 0xFFFF"
abbreviation STATUS_MASK :: u32 where "STATUS_MASK \<equiv> 0xFF"
abbreviation VIDEO_MEM_LOC :: u32 where "VIDEO_MEM_LOC \<equiv> 0x80000000 - 0x400000 + (0xB8 * 0x1000)"

section \<open>Memory as a process sees it\<close>

definition image_base :: "env \<Rightarrow> machine \<Rightarrow> u32" where
  "image_base env M =
     (case translate (e_lay env) (k_paging M) False True PROGRAM_START of Some a \<Rightarrow> a | None \<Rightarrow> PROGRAM_START)"

definition view :: "env \<Rightarrow> machine \<Rightarrow> mem" where
  "view env M a =
     (if a < KERNEL_MEM_END then k_phys M a
      else if a - PROGRAM_START < FOUR_MB then k_phys M (image_base env M + (a - PROGRAM_START))
      else 0)"

definition put_view :: "env \<Rightarrow> mem \<Rightarrow> machine \<Rightarrow> machine" where
  "put_view env m M = M\<lparr>k_phys := (\<lambda>p.
     if p < KERNEL_MEM_END then m p
     else if p - image_base env M < FOUR_MB then m (PROGRAM_START + (p - image_base env M))
     else k_phys M p)\<rparr>"

text \<open>What arrives while a call waits: the interrupts of the real-time clock, and what the
  interrupt handlers do to the terminals.\<close>

record waits =
  w_rtc :: "bool list"
  w_term :: "(terminals \<Rightarrow> terminals) list"

section \<open>File operations through the jump tables\<close>

definition driver_open :: "env \<Rightarrow> driver \<Rightarrow> machine \<Rightarrow> (int \<times> machine) option" where
  "driver_open env d M =
     (case d of
        Rtc_driver \<Rightarrow>
          let (r, log) = rtc_open (e_dev env) (e_byte env) (ports (display (k_terms M)))
          in Some (r, on_display (on_ports (\<lambda>_. log)) M)
      | File_driver \<Rightarrow>
          (case file_open (k_fs M) (e_tbl env) (e_dentry env) (e_arg env) (view env M) (curr M) (k_pcbs M) of
             None \<Rightarrow> None | Some (r, m, pcbs) \<Rightarrow> Some (r, put_view env m (M\<lparr>k_pcbs := pcbs\<rparr>)))
      | Dir_driver \<Rightarrow> Some (dir_open, M)
      | Terminal_driver \<Rightarrow>
          let (r, T) = terminal_open (sint (e_arg env)) (k_terms M) in Some (r, M\<lparr>k_terms := T\<rparr>)
      | _ \<Rightarrow> None)"

definition driver_write :: "env \<Rightarrow> driver \<Rightarrow> u32 \<Rightarrow> int \<Rightarrow> machine \<Rightarrow> (int \<times> machine) option" where
  "driver_write env d buf nbytes M =
     (case d of
        Rtc_driver \<Rightarrow>
          let (r, log) = rtc_write (e_dev env) (e_byte env) (view env M) buf (ports (display (k_terms M)))
          in Some (r, on_display (on_ports (\<lambda>_. log)) M)
      | File_driver \<Rightarrow> Some (file_write, M)
      | Dir_driver \<Rightarrow> Some (dir_write, M)
      | Terminal_driver \<Rightarrow>
          let (r, T) = terminal_write (view env M) (curr M) (k_pcbs M) buf nbytes (k_terms M)
          in Some (r, M\<lparr>k_terms := T\<rparr>)
      | _ \<Rightarrow> None)"

definition driver_read :: "env \<Rightarrow> waits \<Rightarrow> driver \<Rightarrow> int \<Rightarrow> u32 \<Rightarrow> int \<Rightarrow> machine \<Rightarrow> (int \<times> machine) option" where
  "driver_read env w d fd buf nbytes M =
     (case d of
        Rtc_driver \<Rightarrow>
          (case rtc_read (w_rtc w) (k_rtc M) of None \<Rightarrow> None | Some (r, flag, _) \<Rightarrow> Some (r, M\<lparr>k_rtc := flag\<rparr>))
      | File_driver \<Rightarrow>
          let (r, m, pcbs) = file_read (k_fs M) fd buf (of_int nbytes) (view env M) (curr M) (k_pcbs M)
          in Some (sint r, put_view env m (M\<lparr>k_pcbs := pcbs\<rparr>))
      | Dir_driver \<Rightarrow>
          (case dir_read (k_fs M) fd (e_dir_dentry env) buf (view env M) (curr M) (k_pcbs M) of
             None \<Rightarrow> None | Some (r, m, pcbs) \<Rightarrow> Some (sint r, put_view env m (M\<lparr>k_pcbs := pcbs\<rparr>)))
      | Terminal_driver \<Rightarrow>
          (case terminal_read (w_term w) (curr M) (k_pcbs M) buf nbytes (view env M) (k_terms M) of
             None \<Rightarrow> None | Some (r, m, T) \<Rightarrow> Some (r, put_view env m (M\<lparr>k_terms := T\<rparr>)))
      | _ \<Rightarrow> None)"

definition driver_close :: "env \<Rightarrow> driver \<Rightarrow> int \<Rightarrow> machine \<Rightarrow> (int \<times> machine) option" where
  "driver_close env d fd M =
     (case d of
        Rtc_driver \<Rightarrow> Some (rtc_close, M)
      | File_driver \<Rightarrow> let (r, pcbs) = file_close (e_pcb env) fd (k_pcbs M) in Some (r, M\<lparr>k_pcbs := pcbs\<rparr>)
      | Dir_driver \<Rightarrow> Some (dir_close, M)
      | Terminal_driver \<Rightarrow> let (r, T) = terminal_close (e_term env) (k_terms M) in Some (r, M\<lparr>k_terms := T\<rparr>)
      | _ \<Rightarrow> None)"

section \<open>Files\<close>

abbreviation fd_of :: "machine \<Rightarrow> int \<Rightarrow> file_descriptor_element" where
  "fd_of M fd \<equiv> elements (k_pcbs M (curr M)) fd"

definition syscall_read :: "env \<Rightarrow> waits \<Rightarrow> int \<Rightarrow> u32 \<Rightarrow> int \<Rightarrow> machine \<Rightarrow> (int \<times> machine) option" where
  "syscall_read env w fd buf nbytes M =
     (if nbytes = 0 then Some (0, M)
      else if FD_MAX \<le> fd \<or> fd < FD_MIN \<or> fd = 1 then Some (-1, M)
      else if flags (fd_of M fd) = 0 then Some (-1, M)
      else if buf = 0 then Some (-1, M)
      else driver_read env w (file_operation_jmp_tbl (fd_of M fd)) fd buf nbytes M)"

definition syscall_write :: "env \<Rightarrow> int \<Rightarrow> u32 \<Rightarrow> int \<Rightarrow> machine \<Rightarrow> (int \<times> machine) option" where
  "syscall_write env fd buf nbytes M =
     (if FD_MAX \<le> fd \<or> fd < FD_MIN \<or> nbytes = 0 \<or> fd = 0 then Some (-1, M)
      else if buf = 0 then Some (-1, M)
      else if flags (fd_of M fd) = 0 then Some (-1, M)
      else
        let M = (if fd = uint (rtc_fd (k_pcbs M (curr M)))
                 then upd_pcb (curr M) (\<lambda>p. p\<lparr>rtc_rate := sint (get32 (view env M) buf)\<rparr>) M else M)
        in driver_write env (file_operation_jmp_tbl (fd_of M fd)) buf nbytes M)"

text \<open>The open operation of the jump table is called without arguments; \<open>e_arg\<close> is what it finds
  in their place.\<close>

definition syscall_open :: "env \<Rightarrow> u32 \<Rightarrow> machine \<Rightarrow> (int \<times> machine) option" where
  "syscall_open env filename M =
     (if filename = 0 then Some (-1, M)
      else case file_open (k_fs M) (e_tbl env) (e_dentry env) filename (view env M) (curr M) (k_pcbs M) of
             None \<Rightarrow> None
           | Some (fd, m, pcbs) \<Rightarrow>
             let M = put_view env m (M\<lparr>k_pcbs := pcbs\<rparr>) in
             if fd = -1 then Some (-1, M)
             else
               let M = (if strncmp (view env M) (e_rtc_name env) filename 3 \<noteq> -1
                        then upd_pcb (curr M) (\<lambda>p. p\<lparr>rtc_fd := of_int fd\<rparr>) M else M)
               in (case driver_open env (file_operation_jmp_tbl (fd_of M fd)) M of
                     None \<Rightarrow> None | Some (_, M) \<Rightarrow> Some (fd, M)))"

definition syscall_close :: "env \<Rightarrow> int \<Rightarrow> machine \<Rightarrow> (int \<times> machine) option" where
  "syscall_close env fd M =
     (if FD_MAX \<le> fd \<or> fd < 2 then Some (-1, M)
      else if flags (fd_of M fd) = 0 then Some (-1, M)
      else
        let M = upd_pcb (curr M) (\<lambda>p. snd (pcb_close (of_int fd) p)) M
        in driver_close env (file_operation_jmp_tbl (fd_of M fd)) fd M)"

section \<open>Arguments and video memory\<close>

text \<open>The argument string of a control block as memory that starts at address 0.\<close>

definition args_mem :: "pcb \<Rightarrow> mem" where
  "args_mem p a = pcb_args p (uint a)"

definition strcpy_from :: "mem \<Rightarrow> mem \<Rightarrow> u32 \<Rightarrow> mem option" where
  "strcpy_from src m buf =
     (case strlen src 0 of None \<Rightarrow> None
      | Some n \<Rightarrow> Some (for_range 0 (uint n + 1) (\<lambda>i m. m(buf + of_int i := src (of_int i))) m))"

definition syscall_getargs :: "env \<Rightarrow> u32 \<Rightarrow> int \<Rightarrow> machine \<Rightarrow> (int \<times> machine) option" where
  "syscall_getargs env buf nbytes M =
     (if buf = 0 \<or> nbytes = 0 then Some (-1, M)
      else
        let args = args_mem (k_pcbs M (curr M)) in
        case strlen args 0 of None \<Rightarrow> None
        | Some n \<Rightarrow>
          if of_int nbytes < n then Some (-1, M)
          else (case strcpy_from args (view env M) buf of None \<Rightarrow> None
                | Some m \<Rightarrow> Some (0, put_view env m M)))"

definition syscall_vidmap :: "env \<Rightarrow> u32 \<Rightarrow> machine \<Rightarrow> int \<times> machine" where
  "syscall_vidmap env screen_start M =
     (if screen_start = 0 then (-1, M)
      else if screen_start < KERNEL_MEM_END then (-1, M)
      else
        let (r, pg, v) = paging_map_video (e_lay env) (ucast (pcb_pid (k_pcbs M (curr M)))) (k_paging M);
            M = M\<lparr>k_paging := pg\<rparr>;
            M = (case v of None \<Rightarrow> M | Some v \<Rightarrow> put_view env (put32 (view env M) screen_start v) M)
        in if r = -1 then (-1, M)
           else (sint VIDEO_MEM_LOC, upd_pcb (curr M) (\<lambda>p. p\<lparr>pcb_vidmap := 1\<rparr>) M))"

definition syscall_set_handler :: int where
  "syscall_set_handler = 0"

definition syscall_sigreturn :: int where
  "syscall_sigreturn = 0"

section \<open>Programs\<close>

text \<open>The command parser: \<open>True\<close> when the loop ran to the end of the string.\<close>

partial_function (option) parse_command ::
    "u32 \<Rightarrow> u32 \<Rightarrow> u32 \<Rightarrow> mem \<Rightarrow> u32 \<Rightarrow> u32 \<Rightarrow> bool \<Rightarrow> (bool \<times> mem \<times> u32 \<times> u32 \<times> bool) option" where
  "parse_command command fname fargs m i fname_length file_flag =
     (if m (command + i) = 0 then Some (True, m, i, fname_length, file_flag)
      else if m (command + i) = SPACE \<and> \<not> file_flag then
        parse_command command fname fargs (m(fname + i := 0)) (i + 1) i True
      else if file_flag then
        parse_command command fname fargs (m(fargs + (i - fname_length - 1) := m (command + i))) (i + 1) fname_length True
      else if BUFFER_LENGTH \<le> i then Some (False, m, i, fname_length, file_flag)
      else parse_command command fname fargs (m(fname + i := m (command + i))) (i + 1) fname_length file_flag)"

definition split_command :: "env \<Rightarrow> u32 \<Rightarrow> mem \<Rightarrow> (bool \<times> mem) option" where
  "split_command env command m =
     (case parse_command command (e_fname env) (e_fargs env) m 0 0 False of None \<Rightarrow> None
      | Some (ok, m, i, fname_length, file_flag) \<Rightarrow>
        if \<not> ok then Some (False, m)
        else
          let m = m(e_fargs env + (i - fname_length - 1) := 0);
              m = (if \<not> file_flag then m(e_fname env + i := 0) else m)
          in Some (True, m))"

datatype outcome = Return int | Enter_user u32

text \<open>From the parsed command to the loaded program: \<open>Inl\<close> when the call fails with -1.\<close>

definition new_image :: "env \<Rightarrow> machine \<Rightarrow> (machine + u32 \<times> u32 \<times> machine) option" where
  "new_image env M =
     (let (pid, usage) = tasks_pid_new (k_pids M);
          M = M\<lparr>k_pids := usage\<rparr> in
      if (of_int pid :: u16) = NEGATIVE_1 then Some (Inl M)
      else
        let p = of_int pid :: u32;
            M = M\<lparr>k_paging := snd (paging_allocate (e_lay env) p (k_paging M))\<rparr>;
            M = M\<lparr>k_paging := snd (paging_update_control (e_lay env) p (k_paging M))\<rparr> in
        case loader (k_fs M) (e_load_dentry env) (e_load_entry env) (view env M) (e_fname env) of None \<Rightarrow> None
        | Some (entry_point, m) \<Rightarrow>
          let M = put_view env m M in
          if entry_point = -1 then
            let M = M\<lparr>k_pids := tasks_pid_free pid (k_pids M)\<rparr>;
                M = M\<lparr>k_paging := snd (paging_update_control (e_lay env)
                      (ucast (pcb_pid (k_pcbs M (curr M)))) (k_paging M))\<rparr>
            in Some (Inl M)
          else Some (Inr (p, entry_point, M)))"

definition load_program :: "env \<Rightarrow> machine \<Rightarrow> (machine + u32 \<times> u32 \<times> machine) option" where
  "load_program env M =
     (case read_dentry_by_name (k_fs M) (view env M) (e_fname env) (e_dentry env) of None \<Rightarrow> None
      | Some (r, m) \<Rightarrow>
        let M = put_view env m M in
        if r \<noteq> 0 then Some (Inl M)
        else
          let (r, m) = executable_check (k_fs M) (e_magic env) (view env M) (e_dentry env);
              M = put_view env m M in
          if r \<noteq> 0 then Some (Inl M) else new_image env M)"

text \<open>\<^verbatim>\<open>strcpy\<close> of the parsed arguments into the control block.\<close>

definition store_args :: "mem \<Rightarrow> u32 \<Rightarrow> pcb \<Rightarrow> pcb option" where
  "store_args m fargs p =
     (case strlen m fargs of None \<Rightarrow> None
      | Some n \<Rightarrow> Some (p\<lparr>pcb_args := for_range 0 (uint n + 1) (\<lambda>i a. a(i := m (fargs + of_int i))) (pcb_args p)\<rparr>))"

definition syscall_execute :: "env \<Rightarrow> u32 \<Rightarrow> machine \<Rightarrow> (outcome \<times> machine) option" where
  "syscall_execute env command M =
     (if command = 0 then Some (Return (-1), M)
      else case split_command env command (view env M) of None \<Rightarrow> None
      | Some (ok, m) \<Rightarrow>
        let M = put_view env m M in
        if \<not> ok then Some (Return (-1), M)
        else
          (case load_program env M of None \<Rightarrow> None
           | Some (Inl M) \<Rightarrow> Some (Return (-1), M)
           | Some (Inr (pid, entry_point, M)) \<Rightarrow>
             let M = M\<lparr>k_sched := schedule_task (uint pid) (k_sched M)\<rparr>;
                 M = M\<lparr>k_sched := unschedule_task (uint (pcb_pid (k_pcbs M (curr M)))) (k_sched M)\<rparr>;
                 newPCB = get_pcb (ucast pid);
                 M = upd_pcb newPCB pcb_init M;
                 M = upd_pcb newPCB (\<lambda>p. p\<lparr>pcb_pid := ucast pid, esp_reg := newPCB + KERNEL_STACK_SIZE - 4,
                       pcb_term := pcb_term (k_pcbs M (curr M)), parent_pcb := curr M\<rparr>) M in
             (case store_args (view env M) (e_fargs env) (k_pcbs M newPCB) of None \<Rightarrow> None
              | Some p \<Rightarrow>
                let M = upd_pcb newPCB (\<lambda>_. p) M;
                    M = set_tss (esp_reg (k_pcbs M newPCB)) M;
                    M = save_context M
                in Some (Enter_user entry_point, M))))"

text \<open>The local array \<^verbatim>\<open>command\<close> is initialised with \<^verbatim>\<open>"shell"\<close> on every call.\<close>

definition shell_name :: "u8 list" where
  "shell_name = [0x73, 0x68, 0x65, 0x6C, 0x6C, 0]"

definition syscall_init_shell :: "env \<Rightarrow> u8 \<Rightarrow> machine \<Rightarrow> (outcome \<times> machine) option" where
  "syscall_init_shell env term_num M =
     (case split_command env (e_shell_name env) (store (view env M) (e_shell_name env) shell_name) of None \<Rightarrow> None
      | Some (ok, m) \<Rightarrow>
        let M = put_view env m M in
        if \<not> ok then Some (Return (-1), M)
        else
          (case load_program env M of None \<Rightarrow> None
           | Some (Inl M) \<Rightarrow> Some (Return (-1), M)
           | Some (Inr (pid, entry_point, M)) \<Rightarrow>
             let M = M\<lparr>k_terms := snd (terminal_open (uint term_num) (k_terms M))\<rparr>;
                 M = M\<lparr>k_sched := schedule_task (uint pid) (k_sched M)\<rparr>;
                 newPCB = get_pcb (ucast pid);
                 M = upd_pcb newPCB pcb_init M;
                 M = upd_pcb newPCB (\<lambda>p. p\<lparr>parent_pcb := 0, pcb_pid := ucast pid,
                       esp_reg := newPCB + KERNEL_STACK_SIZE - 4, pcb_term := uint term_num\<rparr>) M in
             (case store_args (view env M) (e_fargs env) (k_pcbs M newPCB) of None \<Rightarrow> None
              | Some p \<Rightarrow>
                let M = upd_pcb newPCB (\<lambda>_. p) M;
                    M = set_tss (esp_reg (k_pcbs M newPCB)) M;
                    M = save_context M
                in Some (Enter_user entry_point, M))))"

text \<open>Closing the files of a halting process; the results are ignored.\<close>

primrec close_all :: "env \<Rightarrow> int list \<Rightarrow> machine \<Rightarrow> machine option" where
  "close_all env [] M = Some M"
| "close_all env (i # is) M =
     (if flags (fd_of M i) \<noteq> 0
      then (case syscall_close env i M of None \<Rightarrow> None | Some (_, M) \<Rightarrow> close_all env is M)
      else close_all env is M)"

text \<open>A process that halts continues in its parent, at the point where the parent called
  \<open>execute\<close>; the value there is that of the last statement, 0, whatever the status.\<close>

definition syscall_halt :: "env \<Rightarrow> u8 \<Rightarrow> machine \<Rightarrow> (outcome \<times> machine) option" where
  "syscall_halt env status M =
     (let c = curr M; p = k_pcbs M c in
      if parent_pcb p = 0 then
        let M = M\<lparr>k_pids := tasks_pid_free (uint (pcb_pid p)) (k_pids M)\<rparr>;
            M = M\<lparr>k_esp := KERNEL_STACK (ucast (pcb_pid p))\<rparr> in
        (case syscall_init_shell env (of_int (pcb_term p)) M of None \<Rightarrow> None
         | Some (Return _, M) \<Rightarrow> Some (Return (-1), M)
         | Some (Enter_user e, M) \<Rightarrow> Some (Enter_user e, M))
      else
        case close_all env [2..FD_MAX - 1] M of None \<Rightarrow> None
        | Some M \<Rightarrow>
          let parent = parent_pcb p;
              M = upd_pcb parent (\<lambda>p. p\<lparr>child := 0\<rparr>) M;
              M = M\<lparr>k_pids := tasks_pid_free (uint (pcb_pid (k_pcbs M c))) (k_pids M)\<rparr>;
              M = M\<lparr>k_sched := schedule_task (uint (pcb_pid (k_pcbs M parent))) (k_sched M)\<rparr>;
              M = M\<lparr>k_sched := unschedule_task (uint (pcb_pid (k_pcbs M c))) (k_sched M)\<rparr>;
              (r, pg) = paging_update_control (e_lay env) (ucast (pcb_pid (k_pcbs M parent))) (k_paging M);
              M = M\<lparr>k_paging := pg\<rparr> in
          if r \<noteq> 0 then Some (Return (-1), M)
          else
            let M = set_tss (KERNEL_STACK (ucast (pcb_pid (k_pcbs M parent)))) M;
                M = load_context parent M
            in Some (Return 0, M))"

text \<open>The dispatch of the assembly linkage on the number in \<^verbatim>\<open>eax\<close>, with the arguments in \<^verbatim>\<open>ebx\<close>,
  \<^verbatim>\<open>ecx\<close> and \<^verbatim>\<open>edx\<close>.\<close>

definition syscall_linkage :: "env \<Rightarrow> waits \<Rightarrow> u32 \<Rightarrow> u32 \<Rightarrow> u32 \<Rightarrow> u32 \<Rightarrow> machine \<Rightarrow> (outcome \<times> machine) option" where
  "syscall_linkage env w eax ebx ecx edx M =
     (let ret = map_option (\<lambda>(r, M). (Return r, M)) in
      if sint eax < 1 \<or> 11 < sint eax then Some (Return (-1), M)
      else if eax = 1 then syscall_halt env (ucast ebx) M
      else if eax = 2 then syscall_execute env ebx M
      else if eax = 3 then ret (syscall_read env w (sint ebx) ecx (sint edx) M)
      else if eax = 4 then ret (syscall_write env (sint ebx) ecx (sint edx) M)
      else if eax = 5 then ret (syscall_open env ebx M)
      else if eax = 6 then ret (syscall_close env (sint ebx) M)
      else if eax = 7 then ret (syscall_getargs env ebx (sint ecx) M)
      else if eax = 8 then ret (Some (syscall_vidmap env ebx M))
      else if eax = 9 then Some (Return syscall_set_handler, M)
      else if eax = 10 then Some (Return syscall_sigreturn, M)
      else syscall_init_shell env (ucast ebx) M)"

section \<open>Reading and writing through the page directory\<close>

text \<open>Process \<open>p\<close>'s own directory is loaded.\<close>

definition maps_image :: "env \<Rightarrow> int \<Rightarrow> machine \<Rightarrow> bool" where
  "maps_image env p M \<longleftrightarrow> layout_ok (e_lay env) \<and> p \<in> {1..<MAX_PID} \<and> running (e_lay env) (k_paging M) p
     \<and> user_dir_ok (e_lay env) (k_paging M) p"

definition mapped :: "u32 \<Rightarrow> bool" where
  "mapped a \<longleftrightarrow> a < KERNEL_MEM_END \<or> a - PROGRAM_START < FOUR_MB"

text \<open>The \<open>n\<close> bytes from \<open>a\<close> lie in the program's 4 MB; the bytes from \<open>a\<close> lie in kernel memory.\<close>

definition in_window :: "u32 \<Rightarrow> nat \<Rightarrow> bool" where
  "in_window a n \<longleftrightarrow> 0x8000000 \<le> unat a \<and> unat a + n \<le> 0x8400000"

definition in_kernel :: "u32 \<Rightarrow> nat \<Rightarrow> bool" where
  "in_kernel a n \<longleftrightarrow> unat a + n \<le> 0x800000"

definition image_of :: "int \<Rightarrow> u32 set" where
  "image_of p = {a. 0x400000 * (p + 1) \<le> uint a \<and> uint a < 0x400000 * (p + 2)}"

lemma image_base_eq:
  assumes "maps_image env p M"
  shows "uint (image_base env M) = 0x400000 * (p + 1)"
proof -
  have ok: "layout_ok (e_lay env)" "running (e_lay env) (k_paging M) p" "0 \<le> p" "1 \<le> p" "p < MAX_PID"
    "page_dir_table (k_paging M) p P_IMG = image_pde (of_int p)"
    using assms by (auto simp: maps_image_def user_dir_ok_def)
  have "image_base env M = push_bit 22 (of_int p + 1)"
    by (simp add: image_base_def translate_def running_dir [OF ok(1,2,3,5)] ok(6) allowed_pde pde_val_bits
        image_large_frame image_pde_def [of "of_int p"] Let_def)
       (simp add: image_pde_def [symmetric] image_large_frame pde_val_bits)
  also have "\<dots> = of_int (0x400000 * (p + 1))" by (simp add: push_bit_eq_mult algebra_simps)
  finally show ?thesis using ok(4,5) uint_of_int_u32 [of "0x400000 * (p + 1)"] by simp
qed

lemma image_base_cong: "k_paging M' = k_paging M \<Longrightarrow> image_base env M' = image_base env M"
  by (simp add: image_base_def)

lemma maps_image_cong: "k_paging M' = k_paging M \<Longrightarrow> maps_image env p M' = maps_image env p M"
  by (simp add: maps_image_def)

lemma in_image_iff:
  assumes "maps_image env p M"
  shows "a - image_base env M < FOUR_MB \<longleftrightarrow> a \<in> image_of p"
proof -
  define x where "x = uint a - 0x400000 * (p + 1)"
  have p: "1 \<le> p" "p < 16" using assms by (simp_all add: maps_image_def)
  have low: "- 0x8000000 \<le> u - 0x400000 * (p + 1)" if "0 \<le> u" for u using p that by simp
  have x: "x < 0x100000000" "- 0x8000000 \<le> x"
    using p uint_lt2p [of a] low [of "uint a"] by (simp_all add: x_def)
  have "x mod 0x100000000 = (if 0 \<le> x then x else x + 0x100000000)"
    using x mod_pos_pos_trivial [of x "0x100000000"] mod_pos_pos_trivial [of "x + 0x100000000" "0x100000000"] by simp
  then have "x mod 0x100000000 < 0x400000 \<longleftrightarrow> 0 \<le> x \<and> x < 0x400000"
    using x by simp
  moreover have "uint (a - image_base env M) = x mod 0x100000000"
    using image_base_eq [OF assms] by (simp add: uint_word_ariths x_def)
  moreover have "0 \<le> x \<and> x < 0x400000 \<longleftrightarrow> a \<in> image_of p"
    by (simp add: x_def image_of_def algebra_simps)
  ultimately show ?thesis by (simp add: word_less_def)
qed

lemma image_above_kernel: "a \<in> image_of p \<Longrightarrow> 1 \<le> p \<Longrightarrow> \<not> a < KERNEL_MEM_END"
  by (simp add: image_of_def word_less_def)

lemma image_of_disjoint:
  assumes "p \<noteq> q" "a \<in> image_of p"
  shows "a \<notin> image_of q"
proof (cases "p < q")
  case True
  then have "0x400000 * (p + 2) \<le> 0x400000 * (q + 1)" by simp
  then show ?thesis using assms(2) by (simp add: image_of_def)
next
  case False
  then have "0x400000 * (q + 2) \<le> 0x400000 * (p + 1)" using assms(1) by simp
  then show ?thesis using assms(2) by (simp add: image_of_def)
qed

lemma put_view_frame [simp]:
  "k_paging (put_view env m M) = k_paging M" "k_pcbs (put_view env m M) = k_pcbs M" "k_fs (put_view env m M) = k_fs M"
  "k_esp (put_view env m M) = k_esp M" "k_ebp (put_view env m M) = k_ebp M" "k_pids (put_view env m M) = k_pids M"
  "k_sched (put_view env m M) = k_sched M" "k_terms (put_view env m M) = k_terms M" "k_esp0 (put_view env m M) = k_esp0 M"
  by (simp_all add: put_view_def)

text \<open>The 4 MB seen at the program's address are not kernel memory.  This holds for every user
  directory, and for the directory of the kernel itself, which maps no program.\<close>

definition image_apart :: "env \<Rightarrow> machine \<Rightarrow> bool" where
  "image_apart env M \<longleftrightarrow> layout_ok (e_lay env) \<and> (\<forall>k<FOUR_MB. \<not> image_base env M + k < KERNEL_MEM_END)"

lemma maps_image_apart:
  assumes "maps_image env p M"
  shows "image_apart env M"
proof -
  have p: "1 \<le> p" "layout_ok (e_lay env)" using assms by (simp_all add: maps_image_def)
  have "\<not> image_base env M + k < KERNEL_MEM_END" if "k < FOUR_MB" for k
    using that in_image_iff [OF assms, of "image_base env M + k"] image_above_kernel [OF _ p(1), of "image_base env M + k"] by simp
  with p(2) show ?thesis by (simp add: image_apart_def)
qed

lemma image_apart_unmapped:
  assumes "layout_ok (e_lay env)" "translate (e_lay env) (k_paging M) False True PROGRAM_START = None"
  shows "image_apart env M"
proof -
  have "\<not> PROGRAM_START + k < KERNEL_MEM_END" if "k < FOUR_MB" for k :: u32
  proof -
    have "unat k < 0x400000" using that by (simp add: word_less_nat_alt)
    then have "unat (PROGRAM_START + k) = 0x8000000 + unat k" by (subst unat_plus_if_size) (simp add: word_size)
    then show ?thesis by (simp add: word_less_nat_alt)
  qed
  then show ?thesis using assms by (simp add: image_apart_def image_base_def)
qed

lemma image_apart_cong: "k_paging M' = k_paging M \<Longrightarrow> image_apart env M' = image_apart env M"
  using image_base_cong [of M' M env] by (simp add: image_apart_def)

lemma view_put_view:
  assumes "image_apart env M" "\<And>a. \<not> mapped a \<Longrightarrow> m a = 0"
  shows "view env (put_view env m M) = m"
proof
  fix a
  let ?b = "image_base env M"
  have b: "image_base env (put_view env m M) = ?b" by (rule image_base_cong) simp
  have above: "\<not> ?b + k < KERNEL_MEM_END" if "k < FOUR_MB" for k
    using assms(1) that by (simp add: image_apart_def)
  show "view env (put_view env m M) a = m a"
  proof (cases "a < KERNEL_MEM_END")
    case True
    then show ?thesis by (simp add: view_def put_view_def)
  next
    case False
    show ?thesis
    proof (cases "a - PROGRAM_START < FOUR_MB")
      case True
      then have "view env (put_view env m M) a = k_phys (put_view env m M) (?b + (a - PROGRAM_START))"
        using False by (simp add: view_def b)
      also have "\<dots> = m (PROGRAM_START + (a - PROGRAM_START))"
        unfolding put_view_def using above [OF True] True by simp
      finally show ?thesis by simp
    next
      case out: False
      then show ?thesis using False assms(2) [of a] by (simp add: view_def mapped_def)
    qed
  qed
qed

lemma put_view_other:
  assumes "maps_image env p M" "\<not> a < KERNEL_MEM_END" "a \<notin> image_of p"
  shows "k_phys (put_view env m M) a = k_phys M a"
  using assms in_image_iff by (simp add: put_view_def)

lemma view_unmapped: "\<not> mapped a \<Longrightarrow> view env M a = 0"
  by (simp add: view_def mapped_def)

lemma view_cong: "k_paging M' = k_paging M \<Longrightarrow> k_phys M' = k_phys M \<Longrightarrow> view env M' = view env M"
  using image_base_cong [of M' M env] by (intro ext) (simp add: view_def)

text \<open>Blocks of memory as intervals.\<close>

lemma offset_less_iff:
  fixes x a :: u32
  assumes "unat a + n \<le> 2 ^ 32"
  shows "unat (x - a) < n \<longleftrightarrow> unat a \<le> unat x \<and> unat x < unat a + n"
proof (cases "unat a \<le> unat x")
  case True
  then have "unat (x - a) = unat x - unat a" by (intro unat_sub) (simp add: word_le_nat_alt)
  then show ?thesis using True by auto
next
  case False
  then have "uint (x - a) = uint x - uint a + 2 ^ 32"
    by (simp add: uint_sub_if' word_le_nat_alt word_le_def [symmetric] del: uint_nonnegative)
  then have "int (unat (x - a) + unat a) = int (unat x + 2 ^ 32)" by simp
  then have "unat (x - a) + unat a = unat x + 2 ^ 32" by (simp only: of_nat_eq_iff)
  then show ?thesis using assms False by simp
qed

lemma mapped_iff: "mapped x \<longleftrightarrow> unat x < 0x800000 \<or> (0x8000000 \<le> unat x \<and> unat x < 0x8400000)"
  using offset_less_iff [of PROGRAM_START "0x400000" x] by (simp add: mapped_def word_less_nat_alt)

lemma store_unmapped:
  assumes "in_kernel a (length bs) \<or> in_window a (length bs)" "\<not> mapped x"
  shows "store m a bs x = m x"
proof -
  have "unat a + length bs \<le> 2 ^ 32" using assms(1) by (auto simp: in_kernel_def in_window_def)
  from offset_less_iff [OF this] have "\<not> unat (x - a) < length bs"
    using assms by (auto simp: in_kernel_def in_window_def mapped_iff)
  then show ?thesis by (intro store_other) simp
qed

lemma clear_of_window:
  assumes "\<forall>x\<in>A. x < KERNEL_MEM_END" "in_window a n"
  shows "clear_of A a n"
  unfolding clear_of_def
proof
  fix x assume "x \<in> A"
  then have "unat x < 0x800000" using assms(1) by (simp add: word_less_nat_alt)
  then have "\<not> unat (x - a) < n"
    using offset_less_iff [of a n x] assms(2) by (simp add: in_window_def)
  then show "n \<le> unat (x - a)" by simp
qed

text \<open>Stores into the program's window change its image and nothing else.\<close>

lemma put_view_window:
  assumes "maps_image env p M" "in_window buf (length bs)"
  shows "view env (put_view env (store (view env M) buf bs) M) = store (view env M) buf bs"
    and "a \<notin> image_of p \<Longrightarrow> k_phys (put_view env (store (view env M) buf bs) M) a = k_phys M a"
proof -
  show "view env (put_view env (store (view env M) buf bs) M) = store (view env M) buf bs"
    using assms(2) store_unmapped view_unmapped by (intro view_put_view [OF maps_image_apart [OF assms(1)]]) simp
  assume a: "a \<notin> image_of p"
  show "k_phys (put_view env (store (view env M) buf bs) M) a = k_phys M a"
  proof (cases "a < KERNEL_MEM_END")
    case True
    then have "store (view env M) buf bs a = view env M a"
      using clear_of_window [of "{a}"] assms(2) by (intro store_other) (simp add: clear_of_def)
    then show ?thesis using True by (simp add: put_view_def view_def)
  qed (use a put_view_other [OF assms(1)] in blast)
qed

section \<open>The command parser\<close>

text \<open>While the name is read.\<close>

lemma parse_name:
  assumes "cstr m command cmd" "name = take n cmd" "SPACE \<notin> set name" "n \<le> 32" "i \<le> n" "n \<le> length cmd"
    and "\<forall>k<length cmd. 33 \<le> unat (command + of_nat k - fname)"
  shows "parse_command command fname fargs (store m fname (take i name)) (of_nat i) 0 False
    = parse_command command fname fargs (store m fname name) (of_nat n) 0 False"
  using assms(5)
proof (induction "n - i" arbitrary: i)
  case 0
  then show ?case using assms(2) by simp
next
  case (Suc d)
  then have i: "i < n" "i < length cmd" using assms(6) by simp_all
  let ?m = "store m fname (take i name)"
  have len: "length name = n" using assms(2,6) by simp
  have "?m (command + of_nat i) = m (command + of_nat i)"
    using assms(4,7) i len by (intro store_other) (simp add: order_trans [of i 33])
  then have c: "?m (command + of_nat i) = name ! i" using cstr_nth [OF assms(1) i(2)] assms(2) i(1) by simp
  have "name ! i \<in> set name" using i(1) len by simp
  moreover from this have "name ! i \<in> set cmd" using assms(2) by (auto dest: in_set_takeD)
  ultimately have ne: "name ! i \<noteq> 0" "name ! i \<noteq> SPACE" using assms(1,3) by (auto simp: cstr_def)
  have "\<not> BUFFER_LENGTH \<le> (of_nat i :: u32)" using i(1) assms(4) by (simp add: word_le_nat_alt unat_of_nat_u32)
  moreover have "?m(fname + of_nat i := name ! i) = store m fname (take (Suc i) name)"
    using store_snoc [of "take i name" m fname "name ! i"] i len assms(4)
    by (simp add: take_Suc_conv_app_nth min_def del: fun_upd_apply)
  moreover have "parse_command command fname fargs (store m fname (take (Suc i) name)) (of_nat (Suc i)) 0 False
      = parse_command command fname fargs (store m fname name) (of_nat n) 0 False"
    using Suc.hyps(2) i(1) by (intro Suc.hyps(1)) auto
  ultimately show ?case
    using c ne by (subst parse_command.simps) (simp add: add.commute)
qed

text \<open>While the arguments are read; \<open>a\<close> is the position of the space.\<close>

lemma parse_args:
  assumes "length args < 2 ^ 31" "a < 2 ^ 31" "j \<le> length args"
    and "\<forall>k<length args. m (command + of_nat (a + 1 + k)) = args ! k \<and> args ! k \<noteq> 0
      \<and> length args + 1 \<le> unat (command + of_nat (a + 1 + k) - fargs)"
    and "m (command + of_nat (a + 1 + length args)) = 0" "length args + 1 \<le> unat (command + of_nat (a + 1 + length args) - fargs)"
  shows "parse_command command fname fargs (store m fargs (take j args)) (of_nat (a + 1 + j)) (of_nat a) True
    = Some (True, store m fargs args, of_nat (a + 1 + length args), of_nat a, True)"
  using assms(3)
proof (induction "length args - j" arbitrary: j)
  case 0
  then have "store m fargs args (command + of_nat (a + 1 + length args)) = 0"
    using assms(5,6) by (subst store_other) simp_all
  then show ?case using 0 by (subst parse_command.simps) simp
next
  case (Suc d)
  then have j: "j < length args" by simp
  let ?m = "store m fargs (take j args)"
  have "?m (command + of_nat (a + 1 + j)) = m (command + of_nat (a + 1 + j))"
    using assms(4) j by (intro store_other) (simp add: order_trans [of j "Suc (length args)"])
  then have c: "?m (command + of_nat (a + 1 + j)) = args ! j" "args ! j \<noteq> 0" using assms(4) j by simp_all
  have off: "(of_nat (a + 1 + j) - of_nat a - 1 :: u32) = of_nat j" by simp
  have upd: "?m(fargs + of_nat j := args ! j) = store m fargs (take (Suc j) args)"
    using store_snoc [of "take j args" m fargs "args ! j"] j assms(1)
    by (simp add: take_Suc_conv_app_nth min_def del: fun_upd_apply)
  have "parse_command command fname fargs (store m fargs (take (Suc j) args)) (of_nat (a + 1 + Suc j)) (of_nat a) True
      = Some (True, store m fargs args, of_nat (a + 1 + length args), of_nat a, True)"
    using Suc.hyps(2) j by (intro Suc.hyps(1)) auto
  moreover have "(of_nat (a + 1 + j) + 1 :: u32) = of_nat (a + 1 + Suc j)" by simp
  ultimately show ?case
    using c(2) unfolding parse_command.simps [of _ _ _ ?m] off c(1) upd by (simp only: if_True if_False simp_thms)
qed

text \<open>The buffers are apart from the command and from each other.\<close>

definition command_apart :: "env \<Rightarrow> u32 \<Rightarrow> nat \<Rightarrow> nat \<Rightarrow> bool" where
  "command_apart env command n k \<longleftrightarrow>
     (\<forall>i\<le>n. 33 \<le> unat (command + of_nat i - e_fname env) \<and> k < unat (command + of_nat i - e_fargs env))
     \<and> (\<forall>i\<le>32. k < unat (e_fname env + of_nat i - e_fargs env))"

lemma split_command_args:
  assumes cmd: "cstr m command (name @ SPACE # args)" and "SPACE \<notin> set name" "length name \<le> 32" "length args < 2 ^ 31"
    and "command_apart env command (length (name @ SPACE # args)) (length args + 1)"
  shows "split_command env command m
    = Some (True, store (store m (e_fname env) (name @ [0])) (e_fargs env) (args @ [0]))"
proof -
  let ?n = "length name" and ?cmd = "name @ SPACE # args" and ?f = "e_fname env" and ?g = "e_fargs env"
  have apart: "33 \<le> unat (command + of_nat k - ?f)" "length args + 1 < unat (command + of_nat k - ?g)"
    if "k \<le> length ?cmd" for k
    using assms(5) that by (auto simp: command_apart_def)
  let ?m1 = "store m ?f name" and ?m2 = "store m ?f (name @ [0])"
  have keep: "store m ?f bs (command + of_nat k) = m (command + of_nat k)" if "k \<le> length ?cmd" "length bs \<le> 33" for k bs
    using apart(1) [OF that(1)] that(2) by (intro store_other) simp
  have 1: "parse_command command ?f ?g m 0 0 False = parse_command command ?f ?g ?m1 (of_nat ?n) 0 False"
    using parse_name [OF cmd, of name ?n 0 ?f ?g] assms(2,3) apart(1) by simp
  have space: "?m1 (command + of_nat ?n) = SPACE"
    using keep [of ?n name] assms(3) cstr_nth [OF cmd, of ?n] by simp
  have upd: "?m1(?f + of_nat ?n := 0) = ?m2" using store_snoc [of name m ?f 0] assms(3) by simp
  have 2: "parse_command command ?f ?g ?m1 (of_nat ?n) 0 False
      = parse_command command ?f ?g ?m2 (of_nat (?n + 1 + 0)) (of_nat ?n) True"
    unfolding parse_command.simps [of _ _ _ ?m1] space upd by (simp, simp add: add.commute)
  have "?m2 (command + of_nat (?n + 1 + k)) = args ! k \<and> args ! k \<noteq> 0" if "k < length args" for k
  proof -
    have "args ! k \<in> set ?cmd" using that by simp
    then have "args ! k \<noteq> 0" using cmd by (metis cstr_def)
    then show ?thesis
      using keep [of "?n + 1 + k" "name @ [0]"] that assms(3) cstr_nth [OF cmd, of "?n + 1 + k"]
      by (simp add: nth_append del: of_nat_add of_nat_Suc)
  qed
  moreover have "?m2 (command + of_nat (?n + 1 + length args)) = 0"
    using keep [of "?n + 1 + length args" "name @ [0]"] assms(3) cmd
    by (simp add: cstr_def del: of_nat_add of_nat_Suc)
  moreover have "length args + 1 \<le> unat (command + of_nat (?n + 1 + k) - ?g)" if "k \<le> length args" for k
    using apart(2) [of "?n + 1 + k"] that by simp
  ultimately have 3: "parse_command command ?f ?g ?m2 (of_nat (?n + 1 + 0)) (of_nat ?n) True
      = Some (True, store ?m2 ?g args, of_nat (?n + 1 + length args), of_nat ?n, True)"
    using parse_args [of args ?n 0 ?m2 command ?g ?f] assms(3,4) by (simp del: of_nat_add of_nat_Suc)
  have "(store ?m2 ?g args)(?g + (of_nat (?n + 1 + length args) - of_nat ?n - 1) := 0) = store ?m2 ?g (args @ [0])"
    using store_snoc [of args ?m2 ?g 0] assms(4) by simp
  then show ?thesis unfolding split_command_def 1 2 3 by simp
qed

section \<open>Arguments\<close>

text \<open>The argument string of a control block.\<close>

definition has_args :: "pcb \<Rightarrow> u8 list \<Rightarrow> bool" where
  "has_args p args \<longleftrightarrow> cstr (args_mem p) 0 args"

lemma store_args_ok:
  assumes "cstr m fargs args"
  shows "\<exists>a. store_args m fargs p = Some (p\<lparr>pcb_args := a\<rparr>) \<and> has_args (p\<lparr>pcb_args := a\<rparr>) args
    \<and> (\<forall>k. k < 0 \<or> int (length args) < k \<longrightarrow> a k = pcb_args p k)"
proof -
  let ?n = "int (length args)"
  define a where "a = (\<lambda>k. if 0 \<le> k \<and> k < ?n + 1 then m (fargs + of_int k) else pcb_args p k)"
  have n: "uint (of_nat (length args) :: u32) = ?n"
    using cstr_length [OF assms] by (simp add: unsigned_of_nat take_bit_nat_eq_self)
  have pos: "args_mem (p\<lparr>pcb_args := a\<rparr>) (0 + of_nat k) = m (fargs + of_nat k)" if "k \<le> length args" for k
  proof -
    have "uint (of_nat k :: u32) = int k"
      using that cstr_length [OF assms] by (simp add: unsigned_of_nat take_bit_nat_eq_self)
    then show ?thesis using that by (simp add: args_mem_def a_def)
  qed
  then have "load (args_mem (p\<lparr>pcb_args := a\<rparr>)) 0 (length args) = load m fargs (length args)"
    unfolding load_def by (intro map_cong) auto
  then have "has_args (p\<lparr>pcb_args := a\<rparr>) args"
    using assms pos [of "length args"] by (simp add: has_args_def cstr_def)
  then show ?thesis
    using strlen_cstr [OF assms] n by (intro exI [of _ a]) (auto simp: store_args_def loop_simps a_def)
qed

lemma strcpy_from_ok:
  assumes "cstr src 0 bs"
  shows "strcpy_from src m buf = Some (store m buf (bs @ [0]))"
proof -
  define cs where "cs = bs @ [0]"
  have cs: "length cs = length bs + 1" "length cs \<le> 2 ^ 32" using cstr_length [OF assms] by (simp_all add: cs_def)
  have step: "for_range 0 (int k) (\<lambda>i m. m(buf + of_int i := src (of_int i))) m = store m buf (take k cs)"
    if "k \<le> length bs + 1" for k
    using that
  proof (induction k)
    case 0
    then show ?case by (simp add: store_def)
  next
    case (Suc k)
    have "src (of_nat k) = cs ! k"
      using cstr_nth [OF assms, of k] cstr_end [OF assms] Suc.prems
      by (cases "k = length bs") (simp_all add: nth_append cs_def)
    moreover have "store m buf (take (Suc k) cs) = (store m buf (take k cs))(buf + of_nat k := cs ! k)"
      using store_snoc [of "take k cs" m buf "cs ! k"] Suc.prems cs
      by (simp add: take_Suc_conv_app_nth min_def del: fun_upd_apply)
    moreover have "int (Suc k) = int k + 1" by simp
    ultimately show ?case using Suc by (simp only: for_range_last) (simp del: fun_upd_apply)
  qed
  have "uint (of_nat (length bs) :: u32) + 1 = int (length bs + 1)"
    using cstr_length [OF assms] by (simp add: unsigned_of_nat take_bit_nat_eq_self)
  then show ?thesis
    using strlen_cstr [OF assms] step [of "length bs + 1"] cs by (simp add: strcpy_from_def cs_def add.commute)
qed

lemma put32_store: "put32 m a v = store m a [ucast v, ucast (drop_bit 8 v), ucast (drop_bit 16 v), ucast (drop_bit 24 v)]"
proof -
  have "store m a [x, y, z, w] = m(a := x, a + 1 := y, a + 2 := z, a + 3 := w)" for x y z w
    using store_snoc [of "[]" m a x] store_snoc [of "[x]" m a y] store_snoc [of "[x, y]" m a z] store_snoc [of "[x, y, z]" m a w]
    by (simp add: store_def [of m a "[]"] del: fun_upd_apply)
  then show ?thesis by (simp add: put32_def)
qed

lemma get32_put32: "get32 (put32 m a v) a = v"
proof -
  have "get32 (put32 m a v) a = ucast (ucast v :: u8) OR push_bit 8 (ucast (ucast (drop_bit 8 v) :: u8))
      OR push_bit 16 (ucast (ucast (drop_bit 16 v) :: u8)) OR push_bit 24 (ucast (ucast (drop_bit 24 v) :: u8))"
    by (simp add: get32_def put32_def)
  also have "\<dots> = v"
  proof (rule bit_eqI)
    fix n :: nat
    show "bit (ucast (ucast v :: u8) OR push_bit 8 (ucast (ucast (drop_bit 8 v) :: u8))
      OR push_bit 16 (ucast (ucast (drop_bit 16 v) :: u8)) OR push_bit 24 (ucast (ucast (drop_bit 24 v) :: u8)) :: u32) n = bit v n"
      by (cases "24 \<le> n"; cases "16 \<le> n"; cases "8 \<le> n") (auto simp: bit_simps dest: bit_imp_le_length)
  qed
  finally show ?thesis .
qed

section \<open>Properties\<close>

lemma sample_maps_image: "maps_image sample_env 1 sample_machine"
proof -
  let ?s = "paging_init sample_layout zero_paging"
  have "user_dir_ok sample_layout (snd (paging_allocate sample_layout 1 ?s)) 1"
    using paging_allocate_ok(3) [OF zero_paging_ok, of 1 sample_layout] by simp
  then show ?thesis
    using paging_update_control_ok [of 1 sample_layout "snd (paging_allocate sample_layout 1 ?s)"]
    by (simp add: maps_image_def sample_env_def sample_machine_def sample_layout_ok)
qed

lemma sample_view: "a < KERNEL_MEM_END \<Longrightarrow> view sample_env sample_machine a = sample_image a"
proof -
  assume a: "a < KERNEL_MEM_END"
  have "\<not> unat (a - 0x801000) < 5"
    using offset_less_iff [of "0x801000" 5 a] a by (simp add: word_less_nat_alt)
  then show ?thesis using a by (simp add: view_def sample_machine_def store_def)
qed

lemma sample_file:
  shows "file_length sample_fs (view sample_env sample_machine) 0 = 28"
    and "file_bytes sample_fs (view sample_env sample_machine) 0 = file_bytes sample_fs sample_image 0"
    and "footprint sample_fs (view sample_env sample_machine) 0 = footprint sample_fs sample_image 0"
proof -
  have *: "view sample_env sample_machine a = sample_image a" if "a \<in> footprint sample_fs sample_image 0" for a
    using sample_footprint [OF that] by (intro sample_view) (simp add: word_less_nat_alt)
  note agree = file_agree [of sample_fs sample_image 0 "view sample_env sample_machine", OF *]
  show "file_length sample_fs (view sample_env sample_machine) 0 = 28"
    "file_bytes sample_fs (view sample_env sample_machine) 0 = file_bytes sample_fs sample_image 0"
    "footprint sample_fs (view sample_env sample_machine) 0 = footprint sample_fs sample_image 0"
    using agree sample_length by simp_all
qed

lemma sint_small: "n \<le> 0x400000 \<Longrightarrow> sint (of_nat n :: u32) = int n"
  by (simp add: sint_uint signed_take_bit_int_eq_self unsigned_of_nat take_bit_nat_eq_self)

lemma read_file_result:
  assumes "maps_image env p M" "2 \<le> fd" "fd < FD_MAX" "0 < n" "in_window buf n"
    and "elements (k_pcbs M (curr M)) fd = \<lparr>file_operation_jmp_tbl = File_driver, inode_ptr = inode, file_position = pos, flags = 1\<rparr>"
    and "unat pos \<le> file_length (k_fs M) (view env M) inode" "Suc (file_length (k_fs M) (view env M) inode) < 2 ^ 32"
    and "\<forall>a\<in>footprint (k_fs M) (view env M) inode. a < KERNEL_MEM_END"
    and "k = min n (file_length (k_fs M) (view env M) inode - unat pos)"
  obtains bs M1 where "M1 = upd_pcb (curr M) (\<lambda>p. p\<lparr>elements := (elements p)(fd := (elements p fd)\<lparr>file_position := pos + of_nat k\<rparr>)\<rparr>) M"
    and "syscall_read env w fd buf (int n) M = Some (int k, put_view env (store (view env M) buf bs) M1)" "length bs \<le> n"
    and "load (store (view env M) buf bs) buf k = take n (drop (unat pos) (file_bytes (k_fs M) (view env M) inode))"
    and "maps_image env p M1" "view env M1 = view env M"
proof -
  have n: "n \<le> 0x400000" "unat (of_nat n :: u32) = n" and buf: "buf \<noteq> 0"
    using assms(5) by (auto simp: in_window_def unat_of_nat_u32)
  have clear: "clear_of (footprint (k_fs M) (view env M) inode) buf (unat (of_nat n :: u32))"
    using clear_of_window [OF assms(9,5)] n(2) by simp
  obtain m' bs where r: "read_data (k_fs M) (view env M) inode pos buf (of_nat n) = (of_nat k, m')"
    "m' = store (view env M) buf bs" "length bs \<le> n"
    "load m' buf k = take n (drop (unat pos) (file_bytes (k_fs M) (view env M) inode))"
    using read_data_delivers [OF clear assms(8) buf assms(7)] n(2) assms(10) by metis
  define M1 where "M1 = upd_pcb (curr M) (\<lambda>p. p\<lparr>elements := (elements p)(fd := (elements p fd)\<lparr>file_position := pos + of_nat k\<rparr>)\<rparr>) M"
  have img: "maps_image env p M1" "view env M1 = view env M"
    using assms(1) maps_image_cong [of M1 M] view_cong [of M1 M] by (simp_all add: M1_def upd_pcb_def)
  have "sint (of_nat k :: u32) = int k" using n(1) assms(10) by (intro sint_small) simp
  then have "syscall_read env w fd buf (int n) M = Some (int k, put_view env m' M1)"
    using assms(2,3,4,6) buf r(1) by (simp add: syscall_read_def driver_read_def file_read_def M1_def upd_pcb_def)
  then show thesis using that [OF M1_def] r img by blast
qed



lemma getargs_result:
  assumes "has_args (k_pcbs M (curr M)) args" "buf \<noteq> 0" "0 < n" "n < 2 ^ 31"
  shows "syscall_getargs env buf (int n) M = (if n < length args then Some (-1, M)
    else Some (0, put_view env (store (view env M) buf (args @ [0])) M))"
proof -
  let ?src = "args_mem (k_pcbs M (curr M))"
  have src: "cstr ?src 0 args" using assms(1) by (simp add: has_args_def)
  have "(of_int (int n) :: u32) < of_nat (length args) \<longleftrightarrow> n < length args"
    using cstr_length [OF src] assms(4) by (simp add: word_less_nat_alt unat_of_nat_u32)
  then show ?thesis
    using assms(2,3) strlen_cstr [OF src] strcpy_from_ok [OF src] by (simp add: syscall_getargs_def Let_def)
qed

text \<open>\<open>getargs\<close> hands a program its arguments.  When the caller's control block holds the
  argument string \<open>args\<close> and the buffer in its program area has room for it with its
  terminator, the call returns 0, the buffer holds exactly that string, and nothing outside the
  caller's image has changed; with fewer than \<open>length args\<close> bytes it returns -1 and changes
  nothing.\<close>

theorem getargs_delivers:
  assumes "maps_image env p M" "has_args (k_pcbs M (curr M)) args"
    and "in_window buf (length args + 1)" "0 < n" "n < 2 ^ 31"
  shows "(length args \<le> n \<longrightarrow> (\<exists>M'. syscall_getargs env buf (int n) M = Some (0, M') \<and> cstr (view env M') buf args
      \<and> k_pcbs M' = k_pcbs M \<and> (\<forall>a. a \<notin> image_of p \<longrightarrow> k_phys M' a = k_phys M a)))
    \<and> (n < length args \<longrightarrow> syscall_getargs env buf (int n) M = Some (-1, M))"
proof -
  have src: "cstr (args_mem (k_pcbs M (curr M))) 0 args" using assms(2) by (simp add: has_args_def)
  have "cstr (store (view env M) buf (args @ [0])) buf args"
    using src by (intro cstr_store) (simp_all add: cstr_def)
  moreover have "buf \<noteq> 0" using assms(3) by (auto simp: in_window_def)
  ultimately show ?thesis
    using getargs_result [OF assms(2) _ assms(4,5), of buf env] put_view_window [OF assms(1), of buf "args @ [0]"] assms(3) by simp
qed

theorem getargs_delivers_witness:
  "\<exists>M M'. syscall_getargs sample_env 0x8002000 8 M = Some (0, M') \<and> cstr (view sample_env M') 0x8002000 [0x61, 0x62]"
proof -
  let ?M = "upd_pcb (curr sample_machine) (\<lambda>p. p\<lparr>pcb_args := (\<lambda>_. 0)(0 := 0x61, 1 := 0x62)\<rparr>) sample_machine"
  have "maps_image sample_env 1 ?M" using sample_maps_image maps_image_cong [of ?M sample_machine] by simp
  moreover have "has_args (k_pcbs ?M (curr ?M)) [0x61, 0x62]"
    by (simp add: has_args_def cstr_def load_def args_mem_def upt_rec)
  ultimately have "\<exists>M'. syscall_getargs sample_env 0x8002000 8 ?M = Some (0, M') \<and> cstr (view sample_env M') 0x8002000 [0x61, 0x62]"
    using getargs_delivers [of sample_env 1 ?M "[0x61, 0x62]" "0x8002000" 8] by (auto simp: in_window_def)
  then show ?thesis by blast
qed



text \<open>C11: \<open>vidmap\<close> maps the screen.  For a process \<open>p\<close> and a pointer variable in its program area the
  call stores 0x07CB8000 there, and that user address then leads to video memory; the
  process keeps its image.  The value returned is another address, 0x7FCB8000, which is
  not mapped.\<close>

theorem vidmap_maps_screen:
  assumes "maps_image env p M" "paging_ok (e_lay env) (k_paging M)" "on_stack p (k_esp M)" "uint (pcb_pid (pcb_of p M)) = p"
    and "in_window screen_start 4"
  shows "\<exists>M'. syscall_vidmap env screen_start M = (0x7FCB8000, M') \<and> get32 (view env M') screen_start = 0x7CB8000
    \<and> translate (e_lay env) (k_paging M') True w 0x7CB8000 = Some 0xB8000
    \<and> translate (e_lay env) (k_paging M') True w 0x7FCB8000 = None
    \<and> pcb_vidmap (pcb_of p M') = 1 \<and> maps_image env p M'"
proof -
  have p: "1 \<le> p" "p < MAX_PID" "layout_ok (e_lay env)" "user_dir_ok (e_lay env) (k_paging M) p"
    using assms(1) by (simp_all add: maps_image_def)
  have cur: "curr M = get_pcb (of_int p)" using assms(3) by (simp add: on_stack_def)
  have pid: "uint (ucast (pcb_pid (pcb_of p M)) :: u32) = p" using assms(4) p(1,2) by (simp add: unsigned_ucast_eq take_bit_int_eq_self)
  obtain s' where s': "paging_map_video (e_lay env) (ucast (pcb_pid (pcb_of p M))) (k_paging M) = (0, s', Some 0x7CB8000)"
    "paging_ok (e_lay env) s'" "video_mapped (e_lay env) s' p" "running (e_lay env) s' p"
    "physical_page_addr (user_video_page s' p VIDEO_MEM_START) = 0xB8" "user_dir_ok (e_lay env) s' p"
    using paging_map_video_ok [OF assms(2), of "ucast (pcb_pid (pcb_of p M))"] p pid by auto
  let ?M1 = "M\<lparr>k_paging := s'\<rparr>"
  let ?bs = "[ucast (0x7CB8000 :: u32), ucast (drop_bit 8 (0x7CB8000 :: u32)), ucast (drop_bit 16 (0x7CB8000 :: u32)), ucast (drop_bit 24 (0x7CB8000 :: u32))] :: u8 list"
  let ?M2 = "put_view env (put32 (view env ?M1) screen_start 0x7CB8000) ?M1"
  let ?M3 = "upd_pcb (curr M) (\<lambda>p. p\<lparr>pcb_vidmap := 1\<rparr>) ?M2"
  have img: "maps_image env p ?M1" using p s' by (simp add: maps_image_def)
  have win: "in_window screen_start (length ?bs)" using assms(5) by (simp add: in_window_def)
  have start: "screen_start \<noteq> 0" "\<not> screen_start < KERNEL_MEM_END"
    using assms(5) by (auto simp: in_window_def word_less_nat_alt)
  have call: "syscall_vidmap env screen_start M = (0x7FCB8000, ?M3)"
    using s'(1) start by (simp add: syscall_vidmap_def cur pcb_of_def Let_def)
  have "view env ?M3 = view env ?M2" by (rule view_cong) simp_all
  also have "\<dots> = put32 (view env ?M1) screen_start 0x7CB8000"
    unfolding put32_store by (rule put_view_window(1) [OF img win])
  finally have "get32 (view env ?M3) screen_start = 0x7CB8000" by (simp add: get32_put32)
  moreover have "translate (e_lay env) s' True w va = user_space (e_lay env) s' p va" for va
    using s' p by (intro user_translate) (simp_all add: paging_ok_def)
  then have "translate (e_lay env) s' True w 0x7CB8000 = Some 0xB8000" "translate (e_lay env) s' True w 0x7FCB8000 = None"
    using s'(3,5) by (simp_all add: user_space_def Let_def)
  moreover have "pcb_vidmap (pcb_of p ?M3) = 1" by (simp add: pcb_of_def cur)
  moreover have "maps_image env p ?M3" using img by (simp add: maps_image_def)
  ultimately show ?thesis using call by (intro exI [of _ ?M3]) simp
qed

theorem vidmap_maps_screen_witness:
  "\<exists>M'. syscall_vidmap sample_env 0x8003000 sample_machine = (0x7FCB8000, M') \<and> get32 (view sample_env M') 0x8003000 = 0x7CB8000"
proof -
  have "paging_ok (e_lay sample_env) (k_paging sample_machine)"
    using paging_allocate_ok(2) [OF zero_paging_ok, of 1 sample_layout]
      paging_update_control_ok(3) [of 1 sample_layout "snd (paging_allocate sample_layout 1 (paging_init sample_layout zero_paging))"]
    by (simp add: sample_machine_def sample_env_def)
  then show ?thesis
    using vidmap_maps_screen [OF sample_maps_image, of "0x8003000" True] sample_runs
    by (simp add: runs_def in_window_def) blast
qed

end
