(* ===== verification/Process.thy ===== *)
theory Process
  imports Syscall
begin

text \<open>
  The life of a process: what \<open>syscall_execute\<close> does from the command line to the first
  instruction of the program, and how \<open>syscall_halt\<close> returns to the parent.  The proofs
  follow the call through the parser, the directory, the ELF check, the process table,
  the page directories and the loader, on memory as the page directory in force maps it.
\<close>

section \<open>Where the call keeps its data\<close>

text \<open>The local arrays and structures of \<open>syscall_execute\<close> and of the functions it calls, with
  their sizes; \<open>fname\<close> with the byte behind it, which the parser can reach.\<close>

definition frames :: "env \<Rightarrow> (u32 \<times> nat) list" where
  "frames env = [(e_fname env, 33), (e_fargs env, 128), (e_dentry env, 64), (e_magic env, 4),
     (e_load_dentry env, 64), (e_load_entry env, 4)]"

definition disjoint_blocks :: "u32 \<times> nat \<Rightarrow> u32 \<times> nat \<Rightarrow> bool" where
  "disjoint_blocks = (\<lambda>(a, n) (b, k). unat a + n \<le> unat b \<or> unat b + k \<le> unat a)"

definition frames_ok :: "env \<Rightarrow> bool" where
  "frames_ok env \<longleftrightarrow> (\<forall>(a, n)\<in>set (frames env). in_kernel a n \<and> a \<noteq> 0) \<and> sorted_wrt disjoint_blocks (frames env)"

text \<open>A region of kernel memory the local data does not touch.\<close>

definition safe_region :: "env \<Rightarrow> u32 set \<Rightarrow> bool" where
  "safe_region env P \<longleftrightarrow> (\<forall>x\<in>P. x < KERNEL_MEM_END) \<and> (\<forall>(a, n)\<in>set (frames env). clear_of P a n)"

text \<open>The file system image in \<open>P\<close> has an executable program as entry \<open>i\<close> of its directory.\<close>

definition stored_program :: "u32 set \<Rightarrow> fs \<Rightarrow> mem \<Rightarrow> u8 list list \<Rightarrow> nat \<Rightarrow> u32 \<Rightarrow> bool" where
  "stored_program P fs m names i inode \<longleftrightarrow> directory fs m names \<and> i < length names
     \<and> (\<forall>j<length names. length (names ! j) < 64 \<and> (\<forall>k<64. dentry_directory (boot_block fs) (of_nat j) + of_nat k \<in> P))
     \<and> inode_index_of m (dentry_directory (boot_block fs) (of_nat i)) = inode \<and> footprint fs m inode \<subseteq> P
     \<and> 28 \<le> file_length fs m inode \<and> file_length fs m inode \<le> 0x3B8000
     \<and> take 4 (file_bytes fs m inode) = [0x7f, 0x45, 0x4c, 0x46]"

lemma load_agree: "(\<And>k. k < n \<Longrightarrow> m' (e + of_nat k) = m (e + of_nat k)) \<Longrightarrow> load m' e n = load m e n"
  by (simp add: load_def)

lemma cstr_agree:
  assumes "cstr m s bs" "\<And>k. k \<le> length bs \<Longrightarrow> m' (s + of_nat k) = m (s + of_nat k)"
  shows "cstr m' s bs"
  using assms load_agree [of "length bs" m' s m] by (simp add: cstr_def)

lemma get32_agree: "(\<And>k. k < 4 \<Longrightarrow> m' (a + of_nat k) = m (a + of_nat k)) \<Longrightarrow> get32 m' a = get32 m a"
proof -
  assume *: "\<And>k. k < 4 \<Longrightarrow> m' (a + of_nat k) = m (a + of_nat k)"
  show "get32 m' a = get32 m a" using * [of 0] * [of 1] * [of 2] * [of 3] by (simp add: get32_def)
qed

lemma stored_program_agree:
  assumes "stored_program P fs m names i inode" "\<And>a. a \<in> P \<Longrightarrow> m' a = m a"
  shows "stored_program P fs m' names i inode" "file_bytes fs m' inode = file_bytes fs m inode"
    and "file_length fs m' inode = file_length fs m inode"
proof -
  note sp = assms(1) [unfolded stored_program_def]
  have sub: "footprint fs m inode \<subseteq> P" using sp by simp
  have ag: "m' a = m a" if "a \<in> footprint fs m inode" for a
    by (rule assms(2), rule subsetD [OF sub that])
  have fa: "file_length fs m' inode = file_length fs m inode" "file_bytes fs m' inode = file_bytes fs m inode"
    "footprint fs m' inode = footprint fs m inode"
    by (rule file_agree, erule ag)+
  show "file_bytes fs m' inode = file_bytes fs m inode" "file_length fs m' inode = file_length fs m inode"
    by (simp_all add: fa)
  let ?e = "\<lambda>j. dentry_directory (boot_block fs) (of_nat j)"
  have byte: "m' (?e j + of_nat k) = m (?e j + of_nat k)" if "j < length names" "k < 64" for j k
    using sp that by (intro assms(2)) simp
  have dir: "directory fs m names" and short: "\<And>j. j < length names \<Longrightarrow> length (names ! j) < 64" and i: "i < length names"
    using sp by simp_all
  have "cstr m' (?e j) (names ! j)" if j: "j < length names" for j
  proof (rule cstr_agree [of m])
    show "cstr m (?e j) (names ! j)" using dir j by (simp add: directory_def)
    fix k assume "k \<le> length (names ! j)"
    with short [OF j] show "m' (?e j + of_nat k) = m (?e j + of_nat k)" by (intro byte [OF j]) simp
  qed
  then have "directory fs m' names" using dir by (simp add: directory_def)
  moreover have "inode_index_of m' (?e i) = inode_index_of m (?e i)"
    unfolding inode_index_of_def
  proof (rule get32_agree)
    fix k :: nat assume "k < 4"
    then show "m' (?e i + 36 + of_nat k) = m (?e i + 36 + of_nat k)"
      using byte [OF i, of "36 + k"] by (simp add: add.assoc)
  qed
  ultimately show "stored_program P fs m' names i inode"
    unfolding stored_program_def fa using sp by simp
qed

lemma clear_entry:
  assumes "\<And>k. k < 64 \<Longrightarrow> e + of_nat k \<in> P" "clear_of P d n" "0 < n"
  shows "64 \<le> unat (d - e)"
proof (rule ccontr)
  assume "\<not> 64 \<le> unat (d - e)"
  then have "d \<in> P" using assms(1) [of "unat (d - e)"] by simp
  then show False using assms(2,3) by (auto simp: clear_of_def)
qed

text \<open>Stores into local data reach neither the region nor other local data.\<close>

lemma frame_block:
  assumes "frames_ok env" "(a, n) \<in> set (frames env)"
  shows "in_kernel a n" "a \<noteq> 0"
  using assms by (auto simp: frames_ok_def)

lemma region_keeps:
  assumes "safe_region env P" "(b, n) \<in> set (frames env)" "length bs \<le> n" "x \<in> P"
  shows "store m b bs x = m x"
proof (rule store_other)
  have "clear_of P b n" using assms(1,2) by (auto simp: safe_region_def)
  then show "length bs \<le> unat (x - b)" using assms(3,4) by (auto simp: clear_of_def)
qed

lemma block_keeps:
  assumes "disjoint_blocks (a, k) (b, n) \<or> disjoint_blocks (b, n) (a, k)" "in_kernel a k" "in_kernel b n" "j < k" "length bs \<le> n"
  shows "store m b bs (a + of_nat j) = m (a + of_nat j)"
proof (rule store_other)
  have "unat (a + of_nat j) = unat a + j"
    using assms(2,4) by (simp add: in_kernel_def unat_word_ariths unat_of_nat_u32)
  then have "\<not> unat (a + of_nat j - b) < length bs"
    using offset_less_iff [of b "length bs" "a + of_nat j"] assms by (auto simp: in_kernel_def disjoint_blocks_def)
  then show "length bs \<le> unat (a + of_nat j - b)" by simp
qed

lemma frames_disjoint:
  assumes "frames_ok env"
  shows "disjoint_blocks (e_fname env, 33) (e_dentry env, 64)" "disjoint_blocks (e_fname env, 33) (e_magic env, 4)"
    and "disjoint_blocks (e_fargs env, 128) (e_dentry env, 64)" "disjoint_blocks (e_fargs env, 128) (e_magic env, 4)"
    and "disjoint_blocks (e_fargs env, 128) (e_load_dentry env, 64)" "disjoint_blocks (e_fargs env, 128) (e_load_entry env, 4)"
    and "disjoint_blocks (e_fname env, 33) (e_fargs env, 128)" "disjoint_blocks (e_dentry env, 64) (e_magic env, 4)"
  using assms by (simp_all add: frames_ok_def frames_def)

lemma lookup_program:
  assumes "frames_ok env" "safe_region env P" "stored_program P fs m names i inode"
    and "find (\<lambda>i. names ! i = name) [0..<length names] = Some i" "cstr m f name" "(d, 64) \<in> set (frames env)"
  shows "read_dentry_by_name fs m f d = Some (0, store m d (load m (dentry_directory (boot_block fs) (of_nat i)) 64))"
proof -
  have clear: "clear_of P d 64" using assms(2,6) by (auto simp: safe_region_def)
  have sp: "directory fs m names" "\<And>j k. j < length names \<Longrightarrow> k < 64 \<Longrightarrow> dentry_directory (boot_block fs) (of_nat j) + of_nat k \<in> P"
    using assms(3) by (simp_all add: stored_program_def)
  have "64 \<le> unat (d - dentry_directory (boot_block fs) (of_nat j))" if "j < length names" for j
    by (rule clear_entry [OF sp(2) [OF that] clear]) simp_all
  from read_dentry_by_name_names [OF sp(1) assms(5) frame_block(2) [OF assms(1,6)] this] assms(4)
  show ?thesis by simp
qed

text \<open>Stores into kernel memory leave every image as it is.\<close>

lemma put_view_low:
  assumes "image_apart env M" "\<And>x. \<not> x < KERNEL_MEM_END \<Longrightarrow> m x = view env M x"
  shows "view env (put_view env m M) = m" "\<not> a < KERNEL_MEM_END \<Longrightarrow> k_phys (put_view env m M) a = k_phys M a"
proof -
  let ?base = "image_base env M"
  have "m x = 0" if "\<not> mapped x" for x
    using that assms(2) view_unmapped by (simp add: mapped_def)
  then show "view env (put_view env m M) = m" by (rule view_put_view [OF assms(1)])
  assume a: "\<not> a < KERNEL_MEM_END"
  show "k_phys (put_view env m M) a = k_phys M a"
  proof (cases "a - ?base < FOUR_MB")
    case True
    let ?x = "PROGRAM_START + (a - ?base)"
    have "unat (a - ?base) < 0x400000" using True by (simp add: word_less_nat_alt)
    then have "unat ?x = 0x8000000 + unat (a - ?base)"
      by (subst unat_plus_if_size) (simp add: word_size)
    then have "\<not> ?x < KERNEL_MEM_END" by (simp add: word_less_nat_alt)
    then have "m ?x = k_phys M a" using True assms(2) [of ?x] by (simp add: view_def)
    then show ?thesis using True a by (simp add: put_view_def)
  next
    case False
    then show ?thesis using a by (simp add: put_view_def)
  qed
qed

lemma store_low:
  assumes "in_kernel b (length bs)" "\<not> x < KERNEL_MEM_END"
  shows "store m b bs x = m x"
proof -
  have "\<not> unat (x - b) < length bs"
    using offset_less_iff [of b "length bs" x] assms by (simp add: in_kernel_def word_less_nat_alt)
  then show ?thesis by (simp add: store_other)
qed

lemma put_view_kernel:
  assumes "image_apart env M" "in_kernel b (length bs)"
  shows "view env (put_view env (store (view env M) b bs) M) = store (view env M) b bs"
    and "\<not> a < KERNEL_MEM_END \<Longrightarrow> k_phys (put_view env (store (view env M) b bs) M) a = k_phys M a"
  using put_view_low [OF assms(1), of "store (view env M) b bs"] store_low [OF assms(2)] by blast+

section \<open>From the name to the loaded program\<close>

lemma frames_mem:
  "(e_fname env, 33) \<in> set (frames env)" "(e_fargs env, 128) \<in> set (frames env)" "(e_dentry env, 64) \<in> set (frames env)"
  "(e_magic env, 4) \<in> set (frames env)" "(e_load_dentry env, 64) \<in> set (frames env)" "(e_load_entry env, 4) \<in> set (frames env)"
  by (simp_all add: frames_def)

lemma region_clear:
  assumes "safe_region env P" "(a, n) \<in> set (frames env)" "A \<subseteq> P"
  shows "clear_of A a n"
proof -
  have "clear_of P a n" using assms(1,2) by (auto simp: safe_region_def)
  then show ?thesis using assms(3) by (auto simp: clear_of_def)
qed

lemma check_program:
  assumes "frames_ok env" "safe_region env P" "stored_program P fs m names i inode"
    and "m1 = store m (e_dentry env) (load m (dentry_directory (boot_block fs) (of_nat i)) 64)"
  shows "\<exists>bs. length bs \<le> 4 \<and> executable_check fs (e_magic env) m1 (e_dentry env) = (0, store m1 (e_magic env) bs)"
proof -
  have "m1 a = m a" if "a \<in> P" for a
    unfolding assms(4) by (rule region_keeps [OF assms(2) frames_mem(3) _ that]) simp
  note sp = stored_program_agree(1) [OF assms(3) this]
  have "inode_index_of m1 (e_dentry env) = inode"
    unfolding assms(4) inode_index_store using assms(3) by (simp add: stored_program_def)
  moreover have "clear_of (footprint fs m1 inode) (e_magic env) 4"
    using sp by (intro region_clear [OF assms(2) frames_mem(4)]) (simp add: stored_program_def)
  moreover have "e_magic env \<noteq> 0" by (rule frame_block(2) [OF assms(1) frames_mem(4)])
  ultimately have "\<exists>bs. length bs \<le> 4 \<and> executable_check fs (e_magic env) m1 (e_dentry env)
    = (if file_bytes fs m1 inode = [] \<or> take 4 (file_bytes fs m1 inode) = [0x7f, 0x45, 0x4c, 0x46] then 0 else 1,
       store m1 (e_magic env) bs)"
    using sp by (intro executable_check_result) (simp_all add: stored_program_def)
  moreover have "take 4 (file_bytes fs m1 inode) = [0x7f, 0x45, 0x4c, 0x46]" using sp by (simp add: stored_program_def)
  ultimately show ?thesis by simp
qed

lemma program_window: "in_window 0x8048000 0x3B8000"
  by (simp add: in_window_def)

lemma loader_safe_program:
  assumes "frames_ok env" "safe_region env P" "stored_program P fs m names i inode"
  shows "loader_safe fs m (e_load_dentry env) (e_load_entry env) inode"
proof -
  have sub: "footprint fs m inode \<subseteq> P" and len: "file_length fs m inode \<le> 0x3B8000"
    using assms(3) by (simp_all add: stored_program_def)
  have ld: "in_kernel (e_load_dentry env) 64" and le: "in_kernel (e_load_entry env) 4" "e_load_entry env \<noteq> 0"
    using frame_block [OF assms(1)] frames_mem by blast+
  have low: "\<forall>x\<in>footprint fs m inode. x < KERNEL_MEM_END" using sub assms(2) by (auto simp: safe_region_def)
  have "e_load_dentry env + 36 + of_nat k < KERNEL_MEM_END" if "k < 4" for k
    using ld that by (simp add: in_kernel_def word_less_nat_alt unat_word_ariths unat_of_nat_u32)
  from this [of 0] this [of 1] this [of 2] this [of 3]
  have "\<forall>x\<in>(\<lambda>j. e_load_dentry env + 36 + j) ` {0, 1, 2, 3}. x < KERNEL_MEM_END" by simp
  note local = clear_of_window [OF this program_window]
  have "4 \<le> unat (0x8048000 + of_nat j - e_load_entry env)" if "j < file_length fs m inode" for j
  proof -
    have "unat (0x8048000 + of_nat j :: u32) = 0x8048000 + j"
      using that len by (simp add: unat_word_ariths unat_of_nat_u32)
    then have "\<not> unat (0x8048000 + of_nat j - e_load_entry env) < 4"
      using offset_less_iff [of "e_load_entry env" 4 "0x8048000 + of_nat j"] le(1) by (simp add: in_kernel_def)
    then show ?thesis by simp
  qed
  then have "clear_of ((\<lambda>j. 0x8048000 + of_nat j) ` {..<file_length fs m inode}) (e_load_entry env) 4"
    by (simp add: clear_of_def)
  with local show ?thesis
    unfolding loader_safe_def
    by (intro conjI region_clear [OF assms(2) frames_mem(5) sub] region_clear [OF assms(2) frames_mem(6) sub]
        clear_of_window [OF low program_window] le(2))
qed

lemma loader_program:
  assumes "frames_ok env" "safe_region env P" "stored_program P fs m names i inode"
    and "find (\<lambda>i. names ! i = name) [0..<length names] = Some i" "cstr m (e_fname env) name"
  obtains v m' bs1 bs2 bs3 where "loader fs (e_load_dentry env) (e_load_entry env) m (e_fname env) = Some (v, m')"
    and "load m' 0x8048000 (file_length fs m inode) = file_bytes fs m inode"
    and "map (\<lambda>j. ucast (drop_bit (8 * j) v)) [0..<4] = take 4 (drop 24 (file_bytes fs m inode))"
    and "m' = store (store (store m (e_load_dentry env) bs1) 0x8048000 bs2) (e_load_entry env) bs3"
    and "length bs1 \<le> 64" "length bs2 \<le> 0x3B8000" "length bs3 \<le> 4"
proof (rule loader_loads [OF lookup_program [OF assms frames_mem(5)] _ loader_safe_program [OF assms(1-3)]])
  show "inode_index_of m (dentry_directory (boot_block fs) (of_nat i)) = inode"
    "28 \<le> file_length fs m inode" "file_length fs m inode \<le> 0x3B8000"
    using assms(3) by (simp_all add: stored_program_def)
  let ?bs1 = "load m (dentry_directory (boot_block fs) (of_nat i)) 64"
  fix m'
  assume *: "loader fs (e_load_dentry env) (e_load_entry env) m (e_fname env) = Some (get32 m' (e_load_entry env), m')"
    "load m' 0x8048000 (file_length fs m inode) = file_bytes fs m inode"
    "load m' (e_load_entry env) 4 = take 4 (drop 24 (file_bytes fs m inode))"
    "\<exists>bs2 bs3. m' = store (store (store m (e_load_dentry env) ?bs1) 0x8048000 bs2) (e_load_entry env) bs3
      \<and> length bs2 \<le> 0x3B8000 \<and> length bs3 \<le> 4"
  then obtain bs2 bs3 where bs: "m' = store (store (store m (e_load_dentry env) ?bs1) 0x8048000 bs2) (e_load_entry env) bs3"
    "length bs2 \<le> 0x3B8000" "length bs3 \<le> 4" by blast
  show thesis
    by (rule that [OF *(1,2) _ bs(1) _ bs(2,3)]) (simp_all add: get32_bytes *(3))
qed

text \<open>The machine after a call that only wrote to memory.\<close>

definition only_memory :: "machine \<Rightarrow> machine \<Rightarrow> bool" where
  "only_memory M M' \<longleftrightarrow> M' = M\<lparr>k_phys := k_phys M'\<rparr>"

lemma put_view_only_memory: "only_memory M (put_view env m M)"
  by (simp add: only_memory_def put_view_def)

lemma only_memory_trans: "only_memory M1 M2 \<Longrightarrow> only_memory M2 M3 \<Longrightarrow> only_memory M1 M3"
  by (cases M1; cases M2; cases M3) (simp add: only_memory_def)

lemma only_memory_fields:
  assumes "only_memory M M'"
  shows "k_fs M' = k_fs M" "k_pids M' = k_pids M" "k_sched M' = k_sched M" "k_paging M' = k_paging M" "k_pcbs M' = k_pcbs M"
    and "k_terms M' = k_terms M" "k_esp M' = k_esp M" "k_ebp M' = k_ebp M"
  using assms by (cases M; cases M'; simp add: only_memory_def)+

text \<open>The frames \<open>fname\<close> and \<open>fargs\<close> survive what follows them.\<close>

definition keeps_strings :: "env \<Rightarrow> mem \<Rightarrow> mem \<Rightarrow> bool" where
  "keeps_strings env m m' \<longleftrightarrow> (\<forall>k<33. m' (e_fname env + of_nat k) = m (e_fname env + of_nat k))
     \<and> (\<forall>k<128. m' (e_fargs env + of_nat k) = m (e_fargs env + of_nat k))"

lemma keeps_strings_cstr:
  assumes "keeps_strings env m m'"
  shows "cstr m (e_fname env) name \<Longrightarrow> length name \<le> 31 \<Longrightarrow> cstr m' (e_fname env) name"
    and "cstr m (e_fargs env) args \<Longrightarrow> length args \<le> 99 \<Longrightarrow> cstr m' (e_fargs env) args"
  using assms by (auto simp: keeps_strings_def elim!: cstr_agree)

lemma load_program_check:
  assumes img: "image_apart env M" and fr: "frames_ok env" and P: "safe_region env P"
    and sp: "stored_program P (k_fs M) (view env M) names i inode"
    and find: "find (\<lambda>i. names ! i = name) [0..<length names] = Some i"
    and fname: "cstr (view env M) (e_fname env) name"
  obtains M' where "load_program env M = new_image env M'" "only_memory M M'"
    and "\<And>a. a \<in> P \<Longrightarrow> view env M' a = view env M a" "keeps_strings env (view env M) (view env M')"
    and "\<And>a. \<not> a < KERNEL_MEM_END \<Longrightarrow> k_phys M' a = k_phys M a"
proof -
  define m0 where "m0 = view env M"
  define d where "d = load m0 (dentry_directory (boot_block (k_fs M)) (of_nat i)) 64"
  have d: "length d = 64" by (simp add: d_def)
  define m1 M1 where "m1 = store m0 (e_dentry env) d" and "M1 = put_view env m1 M"
  note kd = frame_block(1) [OF fr frames_mem(3)] and km = frame_block(1) [OF fr frames_mem(4)]
    and kf = frame_block(1) [OF fr frames_mem(1)] and kg = frame_block(1) [OF fr frames_mem(2)]
  note 1 = put_view_kernel [OF img kd [folded d], folded m0_def, folded m1_def, folded M1_def]
  have look: "read_dentry_by_name (k_fs M) (view env M) (e_fname env) (e_dentry env) = Some (0, m1)"
    using lookup_program [OF fr P sp find fname frames_mem(3)] by (simp add: m1_def d_def m0_def)
  obtain bs where bs: "length bs \<le> 4" "executable_check (k_fs M) (e_magic env) m1 (e_dentry env) = (0, store m1 (e_magic env) bs)"
    using check_program [OF fr P sp refl] by (auto simp: m1_def d_def m0_def)
  define m2 M2 where "m2 = store m1 (e_magic env) bs" and "M2 = put_view env m2 M1"
  have img1: "image_apart env M1" using img image_apart_cong [of M1 M env] by (simp add: M1_def)
  have km': "in_kernel (e_magic env) (length bs)" using km bs(1) by (simp add: in_kernel_def)
  note 2 = put_view_kernel [OF img1 km', unfolded 1(1), folded m2_def, folded M2_def]
  show thesis
  proof (rule that [of M2])
    show "load_program env M = new_image env M2"
      using look bs(2) 1(1) by (simp add: load_program_def M2_def m2_def Let_def flip: M1_def)
    show "only_memory M M2" unfolding M2_def M1_def by (rule only_memory_trans [OF put_view_only_memory put_view_only_memory])
    show "view env M2 a = view env M a" if "a \<in> P" for a
      using region_keeps [OF P frames_mem(3) _ that, of d] region_keeps [OF P frames_mem(4) bs(1) that] d
      unfolding 2(1) by (simp add: m2_def m1_def m0_def)
    note dj = frames_disjoint [OF fr]
    show "keeps_strings env (view env M) (view env M2)"
      using block_keeps [OF disjI1 [OF dj(1)] kf kd] block_keeps [OF disjI1 [OF dj(2)] kf km] d bs(1)
        block_keeps [OF disjI1 [OF dj(3)] kg kd] block_keeps [OF disjI1 [OF dj(4)] kg km]
      unfolding 2(1) by (simp add: keeps_strings_def m2_def m1_def m0_def)
    show "k_phys M2 a = k_phys M a" if "\<not> a < KERNEL_MEM_END" for a
      using 1(2) 2(2) that by simp
  qed
qed

lemma view_kernel: "a < KERNEL_MEM_END \<Longrightarrow> view env M a = k_phys M a"
  by (simp add: view_def)

lemma in_kernel_below: "in_kernel a n \<Longrightarrow> k < n \<Longrightarrow> a + of_nat k < KERNEL_MEM_END"
  by (simp add: in_kernel_def word_less_nat_alt unat_word_ariths unat_of_nat_u32)

text \<open>What the loader writes keeps the strings and unmapped addresses.\<close>

lemma loader_writes:
  assumes "frames_ok env" "m' = store (store (store m (e_load_dentry env) bs1) 0x8048000 bs2) (e_load_entry env) bs3"
    and "length bs1 \<le> 64" "length bs2 \<le> 0x3B8000" "length bs3 \<le> 4"
  shows "k < 128 \<Longrightarrow> m' (e_fargs env + of_nat k) = m (e_fargs env + of_nat k)" "\<not> mapped x \<Longrightarrow> m' x = m x"
proof -
  note kl = frame_block(1) [OF assms(1) frames_mem(5)] and ke = frame_block(1) [OF assms(1) frames_mem(6)]
    and kg = frame_block(1) [OF assms(1) frames_mem(2)]
  note dj = frames_disjoint [OF assms(1)]
  have w: "in_window 0x8048000 (length bs2)" using assms(4) by (simp add: in_window_def)
  show "m' (e_fargs env + of_nat k) = m (e_fargs env + of_nat k)" if k: "k < 128" for k
  proof -
    have "length bs2 \<le> unat (e_fargs env + of_nat k - 0x8048000)"
      using clear_of_window [OF _ w, of "{e_fargs env + of_nat k}"] in_kernel_below [OF kg k] by (simp add: clear_of_def)
    then show ?thesis
      using block_keeps [OF disjI1 [OF dj(5)] kg kl k assms(3)] block_keeps [OF disjI1 [OF dj(6)] kg ke k assms(5)]
      by (simp add: assms(2) store_other)
  qed
  have "in_kernel (e_load_dentry env) (length bs1)" "in_kernel (e_load_entry env) (length bs3)"
    using kl ke assms(3,5) by (simp_all add: in_kernel_def)
  then show "\<not> mapped x \<Longrightarrow> m' x = m x" using w by (simp add: assms(2) store_unmapped)
qed

lemma minus_one_bytes: "map (\<lambda>j. ucast (drop_bit (8 * j) (-1 :: u32))) [0..<4] = replicate 4 (0xFF :: u8)"
proof -
  have "ucast (drop_bit (8 * j) (-1 :: u32)) = (0xFF :: u8)" if "j < 4" for j
  proof -
    have "ucast (drop_bit (8 * j) (-1 :: u32)) = (-1 :: u8)" using that by (intro bit_eqI) (auto simp: bit_simps)
    then show ?thesis by simp
  qed
  then show ?thesis by (intro nth_equalityI) simp_all
qed

text \<open>The program \<open>name\<close> can be started: an ELF file whose entry point is not -1 is stored
  under that name, the local data of the call is where it should be and the address
  spaces are well formed.\<close>

definition can_start :: "env \<Rightarrow> machine \<Rightarrow> u8 list \<Rightarrow> u32 set \<Rightarrow> u8 list list \<Rightarrow> nat \<Rightarrow> u32 \<Rightarrow> bool" where
  "can_start env M name P names i inode \<longleftrightarrow> frames_ok env \<and> safe_region env P
     \<and> stored_program P (k_fs M) (view env M) names i inode
     \<and> find (\<lambda>i. names ! i = name) [0..<length names] = Some i
     \<and> take 4 (drop 24 (file_bytes (k_fs M) (view env M) inode)) \<noteq> replicate 4 0xFF
     \<and> paging_ok (e_lay env) (k_paging M)"

text \<open>The parsed command is in \<open>fname\<close> and \<open>fargs\<close>.\<close>

definition parsed :: "env \<Rightarrow> mem \<Rightarrow> u8 list \<Rightarrow> u8 list \<Rightarrow> bool" where
  "parsed env m name args \<longleftrightarrow> cstr m (e_fname env) name \<and> length name \<le> 31
     \<and> cstr m (e_fargs env) args \<and> length args \<le> 99"

text \<open>Process \<open>c\<close> has the program \<open>bytes\<close> loaded at its place, with its entry point \<open>v\<close>, and nothing
  but the process table, the page directories, kernel memory and \<open>c\<close>'s image has changed.\<close>

definition loaded :: "env \<Rightarrow> machine \<Rightarrow> int \<Rightarrow> u8 arr \<Rightarrow> u8 list \<Rightarrow> u8 list \<Rightarrow> u32 \<Rightarrow> machine \<Rightarrow> bool" where
  "loaded env M c usage bytes args v M' \<longleftrightarrow>
     M' = M\<lparr>k_pids := usage, k_paging := k_paging M', k_phys := k_phys M'\<rparr>
   \<and> maps_image env c M' \<and> paging_ok (e_lay env) (k_paging M')
   \<and> (\<forall>q. user_dir_ok (e_lay env) (k_paging M) q \<longrightarrow> user_dir_ok (e_lay env) (k_paging M') q)
   \<and> load (view env M') 0x8048000 (length bytes) = bytes
   \<and> map (\<lambda>j. ucast (drop_bit (8 * j) v)) [0..<4] = take 4 (drop 24 bytes)
   \<and> cstr (view env M') (e_fargs env) args
   \<and> (\<forall>a. \<not> a < KERNEL_MEM_END \<longrightarrow> a \<notin> image_of c \<longrightarrow> k_phys M' a = k_phys M a)"

lemma can_start_agree:
  assumes "can_start env M name P names i inode" "\<And>a. a \<in> P \<Longrightarrow> view env M' a = view env M a"
    and "k_fs M' = k_fs M" "paging_ok (e_lay env) (k_paging M')"
  shows "can_start env M' name P names i inode"
    and "file_bytes (k_fs M') (view env M') inode = file_bytes (k_fs M) (view env M) inode"
proof -
  have sp: "stored_program P (k_fs M) (view env M) names i inode" using assms(1) by (simp add: can_start_def)
  have sp': "stored_program P (k_fs M) (view env M') names i inode"
    "file_bytes (k_fs M) (view env M') inode = file_bytes (k_fs M) (view env M) inode"
    by (rule stored_program_agree [OF sp], erule assms(2))+
  then show "file_bytes (k_fs M') (view env M') inode = file_bytes (k_fs M) (view env M) inode" by (simp add: assms(3))
  show "can_start env M' name P names i inode"
    using assms(1,4) sp' unfolding can_start_def assms(3) by simp
qed

lemma parsed_agree:
  assumes "parsed env m name args" "keeps_strings env m m'"
  shows "parsed env m' name args"
  using assms keeps_strings_cstr [OF assms(2)] by (simp add: parsed_def)

text \<open>The address space of the new process, before the program is loaded.\<close>

definition child_space :: "env \<Rightarrow> int \<Rightarrow> u8 arr \<Rightarrow> machine \<Rightarrow> machine" where
  "child_space env c usage M = M\<lparr>k_pids := usage, k_paging := snd (paging_update_control (e_lay env) (of_int c)
     (snd (paging_allocate (e_lay env) (of_int c) (k_paging M))))\<rparr>"

lemma child_space_ok:
  assumes "layout_ok (e_lay env)" "can_start env M name P names i inode" "parsed env (view env M) name args" "c \<in> {1..<MAX_PID}"
  shows "maps_image env c (child_space env c usage M)" "parsed env (view env (child_space env c usage M)) name args"
    and "can_start env (child_space env c usage M) name P names i inode"
    and "file_bytes (k_fs (child_space env c usage M)) (view env (child_space env c usage M)) inode
      = file_bytes (k_fs M) (view env M) inode"
    and "user_dir_ok (e_lay env) (k_paging M) q \<Longrightarrow> user_dir_ok (e_lay env) (k_paging (child_space env c usage M)) q"
proof -
  let ?M1 = "child_space env c usage M" and ?c = "of_int c :: u32"
  have fr: "frames_ok env" and P: "safe_region env P" and pg: "paging_ok (e_lay env) (k_paging M)"
    using assms(2) by (simp_all add: can_start_def)
  have c: "uint ?c = c" "1 \<le> c" "c < MAX_PID" using assms(4) uint_of_int_u32 [of c] by auto
  note al = paging_allocate_ok [OF pg, of ?c, unfolded c(1), OF c(2,3)]
  have range: "0 \<le> uint ?c" "uint ?c < MAX_PID" using c by simp_all
  note up = paging_update_control_ok [OF range, of "e_lay env" "snd (paging_allocate (e_lay env) ?c (k_paging M))", unfolded c(1)]
  show "maps_image env c ?M1"
    using assms(1) al(3) up(2,4) c(2,3) by (simp add: maps_image_def child_space_def)
  show "user_dir_ok (e_lay env) (k_paging M) q \<Longrightarrow> user_dir_ok (e_lay env) (k_paging ?M1) q"
    using al(4) up(4) by (simp add: child_space_def)
  have same: "view env ?M1 a = view env M a" if "a < KERNEL_MEM_END" for a
    using that by (simp add: view_kernel child_space_def)
  have in_P: "view env ?M1 a = view env M a" if "a \<in> P" for a
    using P that by (intro same) (simp add: safe_region_def)
  have "k_fs ?M1 = k_fs M" "paging_ok (e_lay env) (k_paging ?M1)" using al(2) up(3) by (simp_all add: child_space_def)
  then show "can_start env ?M1 name P names i inode"
    "file_bytes (k_fs ?M1) (view env ?M1) inode = file_bytes (k_fs M) (view env M) inode"
    using can_start_agree [OF assms(2) in_P] by simp_all
  have "keeps_strings env (view env M) (view env ?M1)"
    using in_kernel_below [OF frame_block(1) [OF fr frames_mem(1)]] in_kernel_below [OF frame_block(1) [OF fr frames_mem(2)]]
    by (simp add: keeps_strings_def same)
  then show "parsed env (view env ?M1) name args" by (rule parsed_agree [OF assms(3)])
qed

lemma new_image_ok:
  assumes img: "image_apart env M" and start: "can_start env M name P names i inode"
    and parsed: "parsed env (view env M) name args"
    and pid: "tasks_pid_new (k_pids M) = (c, usage)" "c \<in> {1..<MAX_PID}"
  shows "\<exists>v M'. new_image env M = Some (Inr (of_int c, v, M'))
    \<and> loaded env M c usage (file_bytes (k_fs M) (view env M) inode) args v M'"
proof -
  define M1 where "M1 = child_space env c usage M"
  have lay: "layout_ok (e_lay env)" using img by (simp add: image_apart_def)
  note M1 = child_space_ok [OF lay start parsed pid(2), where usage = usage, folded M1_def]
  note st = M1(3) [unfolded can_start_def] and strs = M1(2) [unfolded parsed_def]
  show ?thesis
  proof (rule loader_program [of env P "k_fs M1" "view env M1" names i inode name])
    show "frames_ok env" "safe_region env P" "find (\<lambda>i. names ! i = name) [0..<length names] = Some i"
      "stored_program P (k_fs M1) (view env M1) names i inode" "cstr (view env M1) (e_fname env) name"
      using st strs by simp_all
    fix v m' bs1 bs2 bs3
    assume l: "loader (k_fs M1) (e_load_dentry env) (e_load_entry env) (view env M1) (e_fname env) = Some (v, m')"
      "load m' 0x8048000 (file_length (k_fs M1) (view env M1) inode) = file_bytes (k_fs M1) (view env M1) inode"
      "map (\<lambda>j. ucast (drop_bit (8 * j) v)) [0..<4] = take 4 (drop 24 (file_bytes (k_fs M1) (view env M1) inode))"
      "m' = store (store (store (view env M1) (e_load_dentry env) bs1) 0x8048000 bs2) (e_load_entry env) bs3"
      "length bs1 \<le> 64" "length bs2 \<le> 0x3B8000" "length bs3 \<le> 4"
    define M2 where "M2 = put_view env m' M1"
    note lw = loader_writes [OF _ l(4-7)]
    have v2: "view env M2 = m'"
      unfolding M2_def using lw(2) st view_unmapped by (intro view_put_view [OF maps_image_apart [OF M1(1)]]) simp
    have "v \<noteq> -1" using l(3) st minus_one_bytes by metis
    moreover have "uint (of_int c :: u16) = c" using pid(2) by (simp add: unsigned_of_int take_bit_int_eq_self)
    then have "(of_int c :: u16) \<noteq> NEGATIVE_1" using pid(2) by auto
    ultimately have call: "new_image env M = Some (Inr (of_int c, v, M2))"
      using pid(1) l(1) by (simp add: new_image_def M2_def M1_def child_space_def Let_def)
    have "cstr m' (e_fargs env) args"
    proof (rule cstr_agree [of "view env M1"])
      show "cstr (view env M1) (e_fargs env) args" using strs by simp
      fix k assume "k \<le> length args"
      then show "m' (e_fargs env + of_nat k) = view env M1 (e_fargs env + of_nat k)" using strs st by (intro lw(1)) simp_all
    qed
    moreover have "k_phys M2 a = k_phys M a" if "\<not> a < KERNEL_MEM_END" "a \<notin> image_of c" for a
      using put_view_other [OF M1(1) that] by (simp add: M2_def M1_def child_space_def)
    moreover have "M2 = M\<lparr>k_pids := usage, k_paging := k_paging M2, k_phys := k_phys M2\<rparr>" "k_paging M2 = k_paging M1"
      by (simp_all add: M2_def M1_def put_view_def child_space_def)
    moreover have "maps_image env c M2" using M1(1) by (simp add: maps_image_def M2_def)
    ultimately have "loaded env M c usage (file_bytes (k_fs M) (view env M) inode) args v M2"
      using l(2,3) M1(4,5) st length_file_bytes [of "k_fs M1" "view env M1" inode]
      unfolding loaded_def v2 by simp
    with call show ?thesis by blast
  qed
qed

section \<open>The command line\<close>

definition command_line :: "env \<Rightarrow> machine \<Rightarrow> u32 \<Rightarrow> u8 list \<Rightarrow> u8 list \<Rightarrow> bool" where
  "command_line env M command name args \<longleftrightarrow> cstr (view env M) command (name @ SPACE # args) \<and> SPACE \<notin> set name
     \<and> length name \<le> 31 \<and> length args \<le> 99 \<and> in_window command (length (name @ SPACE # args) + 1)"

lemma split_command_line:
  assumes "frames_ok env" "command_line env M command name args"
  shows "split_command env command (view env M)
    = Some (True, store (store (view env M) (e_fname env) (name @ [0])) (e_fargs env) (args @ [0]))"
proof (rule split_command_args)
  note cl = assms(2) [unfolded command_line_def]
  note kf = frame_block(1) [OF assms(1) frames_mem(1)] and kg = frame_block(1) [OF assms(1) frames_mem(2)]
  have win: "unat (command + of_nat i) = unat command + i" if "i \<le> length (name @ SPACE # args)" for i
    using cl that by (simp add: in_window_def unat_word_ariths unat_of_nat_u32)
  have "33 \<le> unat (command + of_nat i - e_fname env)" "128 \<le> unat (command + of_nat i - e_fargs env)"
    if "i \<le> length (name @ SPACE # args)" for i
    using offset_less_iff [of "e_fname env" 33 "command + of_nat i"] offset_less_iff [of "e_fargs env" 128 "command + of_nat i"]
      win [OF that] kf kg cl by (simp_all add: in_kernel_def in_window_def linorder_not_less [symmetric])
  moreover have "128 \<le> unat (e_fname env + of_nat i - e_fargs env)" if "i \<le> 32" for i
  proof -
    have "unat (e_fname env + of_nat i) = unat (e_fname env) + i"
      using kf that by (simp add: in_kernel_def unat_word_ariths unat_of_nat_u32)
    then have "\<not> unat (e_fname env + of_nat i - e_fargs env) < 128"
      using offset_less_iff [of "e_fargs env" 128 "e_fname env + of_nat i"] frames_disjoint(7) [OF assms(1)] kf kg that
      by (auto simp: in_kernel_def disjoint_blocks_def)
    then show ?thesis by simp
  qed
  moreover have "length args + 1 < 128" using cl by simp
  ultimately show "command_apart env command (length (name @ SPACE # args)) (length args + 1)"
    unfolding command_apart_def by (meson order_less_le_trans)
qed (use assms(2) in \<open>simp_all add: command_line_def\<close>)

section \<open>execute\<close>

lemma loaded_from:
  assumes "only_memory M M1" "\<And>a. \<not> a < KERNEL_MEM_END \<Longrightarrow> k_phys M1 a = k_phys M a" "loaded env M1 c usage bytes args v M'"
  shows "loaded env M c usage bytes args v M'"
proof -
  have "M' = M1\<lparr>k_pids := usage, k_paging := k_paging M', k_phys := k_phys M'\<rparr>" using assms(3) by (simp add: loaded_def)
  with assms(1) have "M' = M\<lparr>k_pids := usage, k_paging := k_paging M', k_phys := k_phys M'\<rparr>"
    by (cases M; cases M1; cases M') (simp add: only_memory_def)
  then show ?thesis
    using assms(2,3) only_memory_fields(4) [OF assms(1)] unfolding loaded_def by metis
qed

lemma only_memory_start:
  assumes "only_memory M M1" "\<And>a. a \<in> P \<Longrightarrow> view env M1 a = view env M a" "can_start env M name P names i inode" "image_apart env M"
  shows "can_start env M1 name P names i inode" "image_apart env M1"
    and "file_bytes (k_fs M1) (view env M1) inode = file_bytes (k_fs M) (view env M) inode"
proof -
  note same = only_memory_fields [OF assms(1)]
  have pg: "paging_ok (e_lay env) (k_paging M1)" using assms(3) same by (simp add: can_start_def)
  show "can_start env M1 name P names i inode"
    "file_bytes (k_fs M1) (view env M1) inode = file_bytes (k_fs M) (view env M) inode"
    by (rule can_start_agree [OF assms(3) _ same(1) pg], erule assms(2))+
  show "image_apart env M1" using assms(4) image_apart_cong [OF same(4)] by simp
qed

lemma load_program_ok:
  assumes img: "image_apart env M" and start: "can_start env M name P names i inode"
    and parsed: "parsed env (view env M) name args"
    and pid: "tasks_pid_new (k_pids M) = (c, usage)" "c \<in> {1..<MAX_PID}"
  shows "\<exists>v M'. load_program env M = Some (Inr (of_int c, v, M'))
    \<and> loaded env M c usage (file_bytes (k_fs M) (view env M) inode) args v M'"
proof (rule load_program_check [OF img, of P names i inode name])
  fix M1
  assume 1: "load_program env M = new_image env M1" "only_memory M M1" "\<And>a. a \<in> P \<Longrightarrow> view env M1 a = view env M a"
    "keeps_strings env (view env M) (view env M1)" "\<And>a. \<not> a < KERNEL_MEM_END \<Longrightarrow> k_phys M1 a = k_phys M a"
  note st = only_memory_start [OF 1(2,3) start img]
  have "tasks_pid_new (k_pids M1) = (c, usage)" using pid(1) only_memory_fields(2) [OF 1(2)] by simp
  with new_image_ok [OF st(2,1) parsed_agree [OF parsed 1(4)] _ pid(2)] obtain v M' where
    "new_image env M1 = Some (Inr (of_int c, v, M'))"
    "loaded env M1 c usage (file_bytes (k_fs M) (view env M) inode) args v M'"
    using st(3) by auto
  then show ?thesis using loaded_from [OF 1(2,5)] 1(1) by auto
qed (use start parsed in \<open>simp_all add: can_start_def parsed_def\<close>)

text \<open>The machine after the command was parsed.\<close>

lemma parse_machine:
  assumes img: "image_apart env M" and start: "can_start env M name P names i inode"
    and cl: "command_line env M command name args"
  obtains m1 where "split_command env command (view env M) = Some (True, m1)" "parsed env (view env (put_view env m1 M)) name args"
    and "\<And>a. a \<in> P \<Longrightarrow> view env (put_view env m1 M) a = view env M a"
    and "\<And>a. \<not> a < KERNEL_MEM_END \<Longrightarrow> k_phys (put_view env m1 M) a = k_phys M a"
proof -
  have fr: "frames_ok env" and P: "safe_region env P" using start by (simp_all add: can_start_def)
  have len: "length name \<le> 31" "length args \<le> 99" and nz: "0 \<notin> set name" "0 \<notin> set args"
    using cl by (auto simp: command_line_def cstr_def)
  note kf = frame_block(1) [OF fr frames_mem(1)] and kg = frame_block(1) [OF fr frames_mem(2)]
  define m0 where "m0 = store (view env M) (e_fname env) (name @ [0])"
  define m1 where "m1 = store m0 (e_fargs env) (args @ [0])"
  have "in_kernel (e_fname env) (length (name @ [0]))" "in_kernel (e_fargs env) (length (args @ [0]))"
    using kf kg len by (simp_all add: in_kernel_def)
  then have "m1 x = view env M x" if "\<not> x < KERNEL_MEM_END" for x
    using store_low that unfolding m1_def m0_def by simp
  note low = put_view_low [OF img this]
  have v1: "view env (put_view env m1 M) = m1" by (simp add: low)
  have "cstr m1 (e_fargs env) args" using nz len unfolding m1_def by (intro cstr_store) simp_all
  moreover have "cstr m1 (e_fname env) name"
  proof (rule cstr_agree)
    show "cstr m0 (e_fname env) name" unfolding m0_def using nz len by (intro cstr_store) simp_all
    show "m1 (e_fname env + of_nat k) = m0 (e_fname env + of_nat k)" if "k \<le> length name" for k
      unfolding m1_def using that len by (intro block_keeps [OF disjI1 [OF frames_disjoint(7) [OF fr]] kf kg]) simp_all
  qed
  ultimately have "parsed env m1 name args" using len by (simp add: parsed_def)
  then have "parsed env (view env (put_view env m1 M)) name args" unfolding v1 .
  moreover have "view env (put_view env m1 M) a = view env M a" if "a \<in> P" for a
    using region_keeps [OF P frames_mem(1) _ that] region_keeps [OF P frames_mem(2) _ that] len
    unfolding v1 by (simp add: m1_def m0_def)
  ultimately show thesis
    using that [OF split_command_line [OF fr cl, folded m0_def, folded m1_def]] low(2) by simp
qed

text \<open>The new control block, and the machine when \<open>execute\<close> enters the program.\<close>

definition child_pcb :: "int \<Rightarrow> int \<Rightarrow> u8 arr \<Rightarrow> machine \<Rightarrow> pcb" where
  "child_pcb p c a M = (pcb_init (pcb_of c M))\<lparr>pcb_pid := of_int c, esp_reg := get_pcb (of_int c) + 0x1FFC,
     pcb_term := pcb_term (pcb_of p M), parent_pcb := get_pcb (of_int p), pcb_args := a\<rparr>"

definition entered :: "int \<Rightarrow> int \<Rightarrow> u8 arr \<Rightarrow> machine \<Rightarrow> machine \<Rightarrow> machine" where
  "entered p c a M M1 = M1\<lparr>k_sched := (k_sched M)(c := 1, p := 0),
     k_pcbs := (k_pcbs M)(get_pcb (of_int c) := child_pcb p c a M,
       get_pcb (of_int p) := (pcb_of p M)\<lparr>ebp_reg := k_ebp M, esp_reg := k_esp M\<rparr>),
     k_ss0 := KERNEL_DS, k_esp0 := get_pcb (of_int c) + 0x1FFC\<rparr>"

lemma loaded_fields:
  assumes "loaded env M c usage bytes args v M1"
  shows "k_sched M1 = k_sched M" "k_pcbs M1 = k_pcbs M" "k_esp M1 = k_esp M" "k_ebp M1 = k_ebp M" "k_pids M1 = usage"
    and "k_terms M1 = k_terms M" "k_fs M1 = k_fs M"
proof -
  have "M1 = M\<lparr>k_pids := usage, k_paging := k_paging M1, k_phys := k_phys M1\<rparr>" using assms by (simp add: loaded_def)
  then show "k_sched M1 = k_sched M" "k_pcbs M1 = k_pcbs M" "k_esp M1 = k_esp M" "k_ebp M1 = k_ebp M" "k_pids M1 = usage"
    "k_terms M1 = k_terms M" "k_fs M1 = k_fs M"
    by (cases M; cases M1; simp)+
qed

lemma execute_enters:
  assumes run: "runs env p M" and img: "maps_image env p M" and start: "can_start env M name P names i inode"
    and cl: "command_line env M command name args"
    and pid: "tasks_pid_new (k_pids M) = (c, usage)" "c \<in> {1..<MAX_PID}" "c \<noteq> p"
  obtains v M1 a where "loaded env M c usage (file_bytes (k_fs M) (view env M) inode) args v M1"
    and "has_args (child_pcb p c a M) args" "syscall_execute env command M = Some (Enter_user v, entered p c a M M1)"
proof (rule parse_machine [OF maps_image_apart [OF img] start cl])
  fix m1
  let ?M0 = "put_view env m1 M"
  assume 1: "split_command env command (view env M) = Some (True, m1)" "parsed env (view env ?M0) name args"
    "\<And>a. a \<in> P \<Longrightarrow> view env ?M0 a = view env M a" "\<And>a. \<not> a < KERNEL_MEM_END \<Longrightarrow> k_phys ?M0 a = k_phys M a"
  note st = only_memory_start [OF put_view_only_memory 1(3) start maps_image_apart [OF img]]
  have "tasks_pid_new (k_pids ?M0) = (c, usage)" using pid(1) by simp
  from load_program_ok [OF st(2,1) 1(2) this pid(2)] obtain v M1 where
    2: "load_program env ?M0 = Some (Inr (of_int c, v, M1))"
    and "loaded env ?M0 c usage (file_bytes (k_fs M) (view env M) inode) args v M1"
    using st(3) by auto
  then have 3: "loaded env M c usage (file_bytes (k_fs M) (view env M) inode) args v M1"
    using loaded_from [OF put_view_only_memory 1(4)] by blast
  note f = loaded_fields [OF 3]
  have p: "0 \<le> p" "p < MAX_PID" "curr M = get_pcb (of_int p)" "uint (pcb_pid (k_pcbs M (get_pcb (of_int p)))) = p"
    using run by (simp_all add: runs_def on_stack_def pcb_of_def)
  have c: "0 \<le> c" "c < MAX_PID" "uint (of_int c :: u32) = c" "ucast (of_int c :: u32) = (of_int c :: u16)"
    using pid(2) uint_of_int_u32 [of c] by (auto simp: unsigned_of_int take_bit_int_eq_self)
  have ne: "get_pcb (of_int c) \<noteq> get_pcb (of_int p)" using get_pcb_eq_iff c p pid(3) by blast
  have cmd: "command \<noteq> 0" using cl by (auto simp: command_line_def in_window_def)
  let ?new = "(pcb_init (pcb_of c M))\<lparr>pcb_pid := of_int c, esp_reg := get_pcb (of_int c) + 0x1FFC,
     pcb_term := pcb_term (pcb_of p M), parent_pcb := get_pcb (of_int p)\<rparr>"
  obtain a where a: "store_args (view env M1) (e_fargs env) ?new = Some (?new\<lparr>pcb_args := a\<rparr>)"
    "has_args (?new\<lparr>pcb_args := a\<rparr>) args"
    using store_args_ok [of "view env M1" "e_fargs env" args ?new] 3 by (auto simp: loaded_def)
  have view: "view env (M1\<lparr>k_sched := s, k_pcbs := q\<rparr>) = view env M1" for s q by (rule view_cong) simp_all
  have child: "child_pcb p c a M = ?new\<lparr>pcb_args := a\<rparr>" by (simp add: child_pcb_def)
  have "syscall_execute env command M = Some (Enter_user v, entered p c a M M1)"
    using a(1) cmd ne
    by (simp add: syscall_execute_def 1(1) 2 f p(3,4) c view set_tss_def save_context_def entered_def child
        schedule_task_def unschedule_task_def pcb_of_def Let_def upd_pcb_def add.commute [of "get_pcb _" "0x1FFC"])
  then show thesis using that [OF 3, of a] a(2) child by simp
qed

section \<open>halt\<close>

lemma close_none:
  "(\<And>i. i \<in> set is \<Longrightarrow> flags (fd_of M i) = 0) \<Longrightarrow> close_all env is M = Some M"
  by (induction "is") auto

text \<open>A process without open files that halts resumes its parent.\<close>

lemma halt_resumes:
  assumes "on_stack c (k_esp M)" "c \<in> {1..<MAX_PID}" "p \<in> {1..<MAX_PID}" "c \<noteq> p"
    and "uint (pcb_pid (pcb_of c M)) = c" "parent_pcb (pcb_of c M) = get_pcb (of_int p)" "open_fds (pcb_of c M) = {}"
    and "suspended p M"
  obtains pg where "syscall_halt env status M = Some (Return 0, M\<lparr>
      k_pcbs := (k_pcbs M)(get_pcb (of_int p) := (pcb_of p M)\<lparr>child := 0\<rparr>),
      k_pids := tasks_pid_free c (k_pids M), k_sched := (k_sched M)(p := 1, c := 0), k_paging := pg,
      k_ss0 := KERNEL_DS, k_esp0 := KERNEL_STACK (of_int p), k_esp := esp_reg (pcb_of p M), k_ebp := ebp_reg (pcb_of p M)\<rparr>)"
    and "pg = snd (paging_update_control (e_lay env) (of_int p) (k_paging M))"
proof -
  have c: "curr M = get_pcb (of_int c)" using assms(1) by (simp add: on_stack_def)
  have "close_all env [2..FD_MAX - 1] M = Some M"
    using assms(7) by (intro close_none) (auto simp: open_fds_def c pcb_of_def)
  moreover have ne: "get_pcb (of_int c) \<noteq> get_pcb (of_int p)" using get_pcb_eq_iff assms(2-4) by simp
  moreover obtain n where n: "p = int n" "n < 16" using get_pcb_nat assms(3) by (metis atLeastLessThan_iff order_trans zero_le_one)
  then have "get_pcb (of_int p) \<noteq> 0" using unat_get_pcb [of n] by auto
  moreover have pp: "uint (pcb_pid (pcb_of p M)) = p" using assms(8) by (simp add: suspended_def)
  moreover have "ucast (pcb_pid (pcb_of p M)) = (of_int p :: u32)" using pp by (metis ucast_eq)
  moreover have "fst (paging_update_control (e_lay env) (of_int p) s) = 0" for s
    using assms(3) uint_of_int_u32 [of p] by (intro paging_update_control_ok(1)) auto
  ultimately show thesis
    using assms(5,6)
    by (intro that [OF _ refl])
      (simp add: syscall_halt_def c pcb_of_def Let_def set_tss_def load_context_def upd_pcb_def schedule_task_def
        unschedule_task_def split_beta)
qed

lemma halt_effect:
  assumes "on_stack c (k_esp M)" "c \<in> {1..<MAX_PID}" "p \<in> {1..<MAX_PID}" "c \<noteq> p"
    and "uint (pcb_pid (pcb_of c M)) = c" "parent_pcb (pcb_of c M) = get_pcb (of_int p)" "open_fds (pcb_of c M) = {}"
    and "suspended p M"
  shows "\<exists>M'. syscall_halt env status M = Some (Return 0, M') \<and> runs env p M'
    \<and> k_esp M' = esp_reg (pcb_of p M) \<and> k_ebp M' = ebp_reg (pcb_of p M) \<and> on_stack p (k_esp0 M')
    \<and> live_pids (k_pids M') = live_pids (k_pids M) - {c}
    \<and> runnable (k_sched M') = insert p (runnable (k_sched M)) - {c} \<and> k_phys M' = k_phys M
    \<and> (\<forall>q. user_dir_ok (e_lay env) (k_paging M') q \<longleftrightarrow> user_dir_ok (e_lay env) (k_paging M) q)"
proof (rule halt_resumes [OF assms, where env = env and status = status])
  fix pg
  let ?M = "M\<lparr>k_pcbs := (k_pcbs M)(get_pcb (of_int p) := (pcb_of p M)\<lparr>child := 0\<rparr>),
      k_pids := tasks_pid_free c (k_pids M), k_sched := (k_sched M)(p := 1, c := 0), k_paging := pg,
      k_ss0 := KERNEL_DS, k_esp0 := KERNEL_STACK (of_int p), k_esp := esp_reg (pcb_of p M), k_ebp := ebp_reg (pcb_of p M)\<rparr>"
  assume h: "syscall_halt env status M = Some (Return 0, ?M)" and pg: "pg = snd (paging_update_control (e_lay env) (of_int p) (k_paging M))"
  have u: "uint (of_int p :: u32) = p" using assms(3) uint_of_int_u32 [of p] by auto
  have "running (e_lay env) pg p"
    using paging_update_control_ok(2) [of "of_int p" "e_lay env" "k_paging M"] assms(3) unfolding pg u by simp
  then have "runs env p ?M" using assms(3,8) by (simp add: runs_def suspended_def pcb_of_def)
  moreover have "on_stack p (k_esp0 ?M)" using on_stack_KERNEL_STACK [of p] assms(3) by simp
  moreover have "live_pids (k_pids ?M) = live_pids (k_pids M) - {c}" by (auto simp: live_pids_def tasks_pid_free_def)
  moreover have "runnable (k_sched ?M) = insert p (runnable (k_sched M)) - {c}"
    using assms(3,4) by (auto simp: runnable_def)
  moreover have "user_dir_ok (e_lay env) pg q \<longleftrightarrow> user_dir_ok (e_lay env) (k_paging M) q" for q
    using paging_update_control_ok(4) [of "of_int p" "e_lay env" "k_paging M"] assms(3) unfolding pg u by simp
  ultimately show ?thesis using h by (intro exI [of _ ?M]) simp
qed

section \<open>A sample command\<close>

lemma sample_region_clear: "0x503000 \<le> unat a \<Longrightarrow> unat a + n \<le> 2 ^ 32 \<Longrightarrow> clear_of {0x500000..<0x503000} a n"
  unfolding clear_of_def
proof
  fix x :: u32
  assume a: "0x503000 \<le> unat a" "unat a + n \<le> 2 ^ 32" and "x \<in> {0x500000..<0x503000}"
  then have "unat x < 0x503000" by (simp add: word_less_nat_alt)
  then have "\<not> unat (x - a) < n" using offset_less_iff [OF a(2), of x] a(1) by simp
  then show "n \<le> unat (x - a)" by simp
qed

lemma sample_frames: "frames_ok sample_env" "safe_region sample_env {0x500000..<0x503000}"
proof -
  show "frames_ok sample_env"
    by (simp add: frames_ok_def frames_def sample_env_def in_kernel_def disjoint_blocks_def)
  have "x < KERNEL_MEM_END" if "x \<in> {0x500000..<0x503000}" for x
    using that by (simp add: word_less_nat_alt)
  then show "safe_region sample_env {0x500000..<0x503000}"
    by (simp add: safe_region_def frames_def sample_env_def sample_region_clear)
qed

lemma sample_stored: "stored_program {0x500000..<0x503000} sample_fs sample_image [[0x73, 0x68]] 0 0"
proof -
  have "0x500040 + of_nat k \<in> {0x500000..<0x503000 :: u32}" if "k < 64" for k
    using that by (simp add: word_le_nat_alt word_less_nat_alt unat_word_ariths unat_of_nat_u32)
  then show ?thesis
    using sample_directory sample_index sample_length sample_magic sample_footprint
    by (auto simp: stored_program_def dentry_directory_def sample_fs_def)
qed

lemma sample_can_start: "can_start sample_env sample_machine [0x73, 0x68] {0x500000..<0x503000} [[0x73, 0x68]] 0 0"
proof -
  have "view sample_env sample_machine a = sample_image a" if "a \<in> {0x500000..<0x503000}" for a
    using that by (intro sample_view) (simp add: word_less_nat_alt)
  note sp = stored_program_agree(1) [OF sample_stored this]
  have "hd (take 4 (drop 24 (file_bytes sample_fs sample_image 0))) = 0x94"
    by (simp add: file_bytes_def sample_length upt_rec sample_byte_at) (simp add: sample_image_def store_def)
  moreover have "hd (replicate 4 (0xFF :: u8)) \<noteq> 0x94" by simp
  ultimately have "take 4 (drop 24 (file_bytes sample_fs sample_image 0)) \<noteq> replicate 4 0xFF" by metis
  moreover have "paging_ok sample_layout (k_paging sample_machine)"
    using paging_allocate_ok(2) [OF zero_paging_ok, of 1 sample_layout]
      paging_update_control_ok(3) [of 1 sample_layout "snd (paging_allocate sample_layout 1 (paging_init sample_layout zero_paging))"]
    by (simp add: sample_machine_def)
  moreover have "k_fs sample_machine = sample_fs" "e_lay sample_env = sample_layout"
    by (simp_all add: sample_machine_def sample_env_def)
  ultimately show ?thesis
    using sample_frames sp sample_file(2) by (simp add: can_start_def)
qed

lemma sample_command: "command_line sample_env sample_machine 0x8001000 [0x73, 0x68] [0x61]"
proof -
  have "image_base sample_env sample_machine = 0x800000"
    using image_base_eq [OF sample_maps_image] by (intro word_uint_eqI) simp
  then have "view sample_env sample_machine 0x8001000 = 0x73" "view sample_env sample_machine 0x8001001 = 0x68"
    "view sample_env sample_machine 0x8001002 = 0x20" "view sample_env sample_machine 0x8001003 = 0x61"
    "view sample_env sample_machine 0x8001004 = 0"
    by (simp_all add: view_def sample_machine_def store_def)
  then show ?thesis
    by (simp add: command_line_def cstr_def load_def upt_rec in_window_def)
qed

lemma sample_pids: "tasks_pid_new (k_pids sample_machine) = (3, (k_pids sample_machine)(3 := 1))"
  by (simp add: tasks_pid_new_def tasks_pid_new_loop.simps sample_machine_def)

section \<open>Properties\<close>

lemma child_pcb_fields [simp]:
  "pcb_pid (child_pcb p c a M) = of_int c" "parent_pcb (child_pcb p c a M) = get_pcb (of_int p)"
  "pcb_term (child_pcb p c a M) = pcb_term (pcb_of p M)" "open_fds (child_pcb p c a M) = {}"
  using pcb_init_fds [of "pcb_of c M"] by (simp_all add: child_pcb_def open_fds_def del: pcb_init_fds)

lemma entered_pcbs:
  assumes "p \<in> {0..<MAX_PID}" "c \<in> {1..<MAX_PID}" "c \<noteq> p" "k_pcbs M1 = k_pcbs M"
  shows "pcb_of c (entered p c a M M1) = child_pcb p c a M"
    and "pcb_of p (entered p c a M M1) = (pcb_of p M)\<lparr>ebp_reg := k_ebp M, esp_reg := k_esp M\<rparr>"
    and "q \<in> {0..<MAX_PID} - {p, c} \<Longrightarrow> pcb_of q (entered p c a M M1) = pcb_of q M"
proof -
  have pcbs: "k_pcbs (entered p c a M M1) = (k_pcbs M)(get_pcb (of_int c) := child_pcb p c a M,
       get_pcb (of_int p) := (pcb_of p M)\<lparr>ebp_reg := k_ebp M, esp_reg := k_esp M\<rparr>)" by (simp add: entered_def)
  have "get_pcb (of_int c) \<noteq> get_pcb (of_int p)" using get_pcb_eq_iff [of c p] assms(1-3) by simp
  moreover have "get_pcb (of_int q) \<noteq> get_pcb (of_int c)" "get_pcb (of_int q) \<noteq> get_pcb (of_int p)"
    if "q \<in> {0..<MAX_PID} - {p, c}"
    using get_pcb_eq_iff [of q c] get_pcb_eq_iff [of q p] assms(1-3) that by auto
  ultimately show "pcb_of c (entered p c a M M1) = child_pcb p c a M"
    "pcb_of p (entered p c a M M1) = (pcb_of p M)\<lparr>ebp_reg := k_ebp M, esp_reg := k_esp M\<rparr>"
    "q \<in> {0..<MAX_PID} - {p, c} \<Longrightarrow> pcb_of q (entered p c a M M1) = pcb_of q M"
    by (simp_all add: pcb_of_def pcbs)
qed

lemma entered_memory:
  "view env (entered p c a M M1) = view env M1" "k_phys (entered p c a M M1) = k_phys M1" "k_pids (entered p c a M M1) = k_pids M1"
  "maps_image env c (entered p c a M M1) = maps_image env c M1" "k_paging (entered p c a M M1) = k_paging M1"
proof -
  show "view env (entered p c a M M1) = view env M1" by (rule view_cong) (simp_all add: entered_def)
  show "maps_image env c (entered p c a M M1) = maps_image env c M1" by (rule maps_image_cong) (simp add: entered_def)
qed (simp_all add: entered_def)

lemma fresh_pid:
  assumes "fst (tasks_pid_new s) = c" "c \<noteq> -1" "p \<in> live_pids s"
  shows "c \<in> {1..<MAX_PID}" "c \<noteq> p" "live_pids (snd (tasks_pid_new s)) = insert c (live_pids s)"
  using pids.alloc_fresh [of s] assms by auto

text \<open>C5: \<open>execute\<close> starts a program.  When process \<open>p\<close> runs, the command names an ELF file of the
  directory that fits the program area, and a process identifier is free, then \<open>execute\<close>
  enters user mode at the entry point stored in the file; the new process \<open>c\<close> has its own page
  directory loaded and the whole file at 0x08048000; its control block has the argument
  string, its parent, its parent's terminal and no open file; it is runnable in
  place of \<open>p\<close>, and \<open>p\<close>'s stack registers are saved.  No other control block changes,
  nor any physical memory outside the kernel and \<open>c\<close>'s image.\<close>

theorem execute_starts_program:
  assumes "runs env p M" "maps_image env p M" "can_start env M name P names i inode"
    and "command_line env M command name args"
    and "p \<in> live_pids (k_pids M)" "fst (tasks_pid_new (k_pids M)) = c" "c \<noteq> -1"
  shows "\<exists>v M'. syscall_execute env command M = Some (Enter_user v, M')
    \<and> map (\<lambda>j. ucast (drop_bit (8 * j) v)) [0..<4] = take 4 (drop 24 (file_bytes (k_fs M) (view env M) inode))
    \<and> maps_image env c M'
    \<and> load (view env M') 0x8048000 (file_length (k_fs M) (view env M) inode) = file_bytes (k_fs M) (view env M) inode
    \<and> pcb_pid (pcb_of c M') = of_int c \<and> parent_pcb (pcb_of c M') = get_pcb (of_int p)
    \<and> pcb_term (pcb_of c M') = pcb_term (pcb_of p M) \<and> has_args (pcb_of c M') args \<and> open_fds (pcb_of c M') = {}
    \<and> live_pids (k_pids M') = insert c (live_pids (k_pids M))
    \<and> runnable (k_sched M') = insert c (runnable (k_sched M)) - {p} \<and> on_stack c (k_esp0 M')
    \<and> pcb_of p M' = (pcb_of p M)\<lparr>ebp_reg := k_ebp M, esp_reg := k_esp M\<rparr>
    \<and> (\<forall>q\<in>{0..<MAX_PID} - {p, c}. pcb_of q M' = pcb_of q M)
    \<and> (\<forall>a. \<not> a < KERNEL_MEM_END \<and> a \<notin> image_of c \<longrightarrow> k_phys M' a = k_phys M a)"
proof -
  note c = fresh_pid [OF assms(6,7,5)]
  have p: "p \<in> {0..<MAX_PID}" using assms(1) by (simp add: runs_def)
  have "tasks_pid_new (k_pids M) = (c, snd (tasks_pid_new (k_pids M)))" using assms(6) by (cases "tasks_pid_new (k_pids M)") simp
  from execute_enters [OF assms(1-4) this c(1,2)] obtain v M1 a where
    l: "loaded env M c (snd (tasks_pid_new (k_pids M))) (file_bytes (k_fs M) (view env M) inode) args v M1"
    and a: "has_args (child_pcb p c a M) args" and e: "syscall_execute env command M = Some (Enter_user v, entered p c a M M1)"
    by blast
  note f = loaded_fields [OF l] and pc = entered_pcbs [OF p c(1,2) loaded_fields(2) [OF l], where a = a]
  have "on_stack c (get_pcb (of_int c) + 0x1FFC)" using on_stack_offset [of c "0x1FFC"] c(1) by simp
  then have "on_stack c (k_esp0 (entered p c a M M1))" by (simp add: entered_def)
  moreover have "runnable (k_sched (entered p c a M M1)) = insert c (runnable (k_sched M)) - {p}"
    using c(1,2) by (auto simp: runnable_def entered_def)
  ultimately show ?thesis
    using e a l c(3) f pc(3) length_file_bytes [of "k_fs M" "view env M" inode]
    unfolding loaded_def by (intro exI [of _ v] exI [of _ "entered p c a M M1"]) (simp add: pc(1,2) entered_memory)
qed

theorem execute_starts_program_witness:
  "\<exists>v M'. syscall_execute sample_env 0x8001000 sample_machine = Some (Enter_user v, M')
    \<and> parent_pcb (pcb_of 3 M') = get_pcb 1 \<and> has_args (pcb_of 3 M') [0x61]"
proof -
  have "1 \<in> live_pids (k_pids sample_machine)" by (simp add: live_pids_def sample_machine_def)
  from execute_starts_program [OF sample_runs sample_maps_image sample_can_start sample_command this, of 3] sample_pids
  show ?thesis by auto
qed

text \<open>C9: \<open>halt\<close> resumes the parent where it called \<open>execute\<close>.  When a process \<open>c\<close> with no open files
  and a suspended parent \<open>p\<close> halts, \<open>c\<close>'s identifier is free again, \<open>p\<close> takes \<open>c\<close>'s place
  in the run queue, \<open>p\<close>'s page directory and stack registers are loaded and interrupts
  will use \<open>p\<close>'s kernel stack; memory is unchanged.  The value \<open>p\<close> sees is 0, whatever the
  status was.\<close>

theorem halt_resumes_parent:
  assumes "on_stack c (k_esp M)" "c \<in> {1..<MAX_PID}" "p \<in> {1..<MAX_PID}" "c \<noteq> p"
    and "uint (pcb_pid (pcb_of c M)) = c" "parent_pcb (pcb_of c M) = get_pcb (of_int p)" "open_fds (pcb_of c M) = {}"
    and "suspended p M"
  shows "\<exists>M'. syscall_halt env status M = Some (Return 0, M') \<and> runs env p M'
    \<and> k_esp M' = esp_reg (pcb_of p M) \<and> k_ebp M' = ebp_reg (pcb_of p M) \<and> on_stack p (k_esp0 M')
    \<and> live_pids (k_pids M') = live_pids (k_pids M) - {c}
    \<and> runnable (k_sched M') = insert p (runnable (k_sched M)) - {c} \<and> k_phys M' = k_phys M"
  using halt_effect [OF assms, of env status] by blast

theorem halt_resumes_parent_witness:
  "\<exists>M M'. syscall_halt sample_env 7 M = Some (Return 0, M') \<and> k_esp M' = get_pcb 2 + 0x1F00"
proof -
  let ?M = "upd_pcb (get_pcb 1) (\<lambda>p. (pcb_init p)\<lparr>pcb_pid := 1, parent_pcb := get_pcb 2\<rparr>) sample_machine"
  have ne: "get_pcb 2 \<noteq> get_pcb 1" using get_pcb_eq_iff [of 2 1] by simp
  have "on_stack 1 (k_esp ?M)" using sample_runs by (simp add: runs_def)
  moreover have "open_fds (pcb_of 1 ?M) = {}" using pcb_init_fds by (simp add: pcb_of_def open_fds_def del: pcb_init_fds)
  moreover have "suspended 2 ?M" using sample_suspended ne by (simp add: suspended_def pcb_of_def)
  ultimately have "\<exists>M'. syscall_halt sample_env 7 ?M = Some (Return 0, M') \<and> k_esp M' = esp_reg (pcb_of 2 ?M)"
    using halt_resumes_parent [of 1 ?M 2 sample_env 7] by (auto simp: pcb_of_def)
  moreover have "esp_reg (pcb_of 2 ?M) = get_pcb 2 + 0x1F00" using ne by (simp add: pcb_of_def sample_machine_def)
  ultimately show ?thesis by metis
qed

text \<open>C6: Starting a program and leaving it again brings the caller back.  After \<open>execute\<close> the child may
  move its stack pointer anywhere on its kernel stack; when it then halts, the caller's stack
  registers, its run-queue entry, the set of identifiers in use and the caller's address
  space are those it had before the call, and its own image is unchanged.\<close>

theorem execute_halt_roundtrip:
  assumes "runs env p M" "maps_image env p M" "can_start env M name P names i inode"
    and "command_line env M command name args"
    and "p \<in> live_pids (k_pids M)" "p \<in> runnable (k_sched M)" "fst (tasks_pid_new (k_pids M)) = c" "c \<noteq> -1"
    and "c \<notin> runnable (k_sched M)" "on_stack c e"
  shows "\<exists>v M1 M2. syscall_execute env command M = Some (Enter_user v, M1)
    \<and> syscall_halt env status (M1\<lparr>k_esp := e, k_ebp := b\<rparr>) = Some (Return 0, M2)
    \<and> k_esp M2 = k_esp M \<and> k_ebp M2 = k_ebp M \<and> runs env p M2 \<and> maps_image env p M2
    \<and> live_pids (k_pids M2) = live_pids (k_pids M) \<and> runnable (k_sched M2) = runnable (k_sched M)
    \<and> (\<forall>a\<in>image_of p. k_phys M2 a = k_phys M a)"
proof -
  note c = fresh_pid [OF assms(7,8,5)]
  have p: "p \<in> {0..<MAX_PID}" "p \<in> {1..<MAX_PID}" using assms(1,2) by (simp_all add: runs_def maps_image_def)
  have "tasks_pid_new (k_pids M) = (c, snd (tasks_pid_new (k_pids M)))" using assms(7) by (cases "tasks_pid_new (k_pids M)") simp
  from execute_enters [OF assms(1-4) this c(1,2)] obtain v M1 a where
    l: "loaded env M c (snd (tasks_pid_new (k_pids M))) (file_bytes (k_fs M) (view env M) inode) args v M1"
    and e: "syscall_execute env command M = Some (Enter_user v, entered p c a M M1)"
    by blast
  note f = loaded_fields [OF l] and pc = entered_pcbs [OF p(1) c(1,2) loaded_fields(2) [OF l], where a = a]
  let ?M = "(entered p c a M M1)\<lparr>k_esp := e, k_ebp := b\<rparr>"
  have "on_stack c (k_esp ?M)" using assms(10) by simp
  moreover have u: "uint (of_int c :: u16) = c" using c(1) by (simp add: unsigned_of_int take_bit_int_eq_self)
  have same: "pcb_of q ?M = pcb_of q (entered p c a M M1)" for q by (simp add: pcb_of_def)
  have "uint (pcb_pid (pcb_of c ?M)) = c" "parent_pcb (pcb_of c ?M) = get_pcb (of_int p)" "open_fds (pcb_of c ?M) = {}"
    by (simp_all add: same pc u)
  moreover have "suspended p ?M" using assms(1) by (simp add: suspended_def same pc runs_def)
  ultimately obtain M2 where h: "syscall_halt env status ?M = Some (Return 0, M2)" "runs env p M2"
    "k_esp M2 = esp_reg (pcb_of p ?M)" "k_ebp M2 = ebp_reg (pcb_of p ?M)" "live_pids (k_pids M2) = live_pids (k_pids ?M) - {c}"
    "runnable (k_sched M2) = insert p (runnable (k_sched ?M)) - {c}" "k_phys M2 = k_phys ?M"
    "\<And>q. user_dir_ok (e_lay env) (k_paging M2) q \<longleftrightarrow> user_dir_ok (e_lay env) (k_paging ?M) q"
    using halt_effect [OF _ c(1) p(2) c(2), of ?M env status] by blast
  have "maps_image env p M2"
    using h(2,8) assms(2) l by (simp add: maps_image_def runs_def entered_def loaded_def)
  moreover have "live_pids (k_pids M2) = live_pids (k_pids M)"
    using h(5) c(3) f(5) pids.alloc_fresh [of "k_pids M"] assms(7,8) by (auto simp: entered_memory)
  moreover have "runnable (k_sched M2) = runnable (k_sched M)"
    using h(6) assms(6,9) c(1,2) by (auto simp: runnable_def entered_def)
  moreover have "k_phys M2 a' = k_phys M a'" if "a' \<in> image_of p" for a'
    using h(7) l image_of_disjoint [OF c(2) [symmetric] that] image_above_kernel [OF that] p(2)
    by (simp add: entered_memory loaded_def)
  ultimately show ?thesis using e h(1-4) by (auto simp: same pc)
qed

theorem execute_halt_roundtrip_witness:
  "\<exists>v M1 M2. syscall_execute sample_env 0x8001000 sample_machine = Some (Enter_user v, M1)
    \<and> syscall_halt sample_env 5 (M1\<lparr>k_esp := get_pcb 3 + 0x1000, k_ebp := 0\<rparr>) = Some (Return 0, M2)
    \<and> k_esp M2 = k_esp sample_machine"
proof -
  have "1 \<in> live_pids (k_pids sample_machine)" "1 \<in> runnable (k_sched sample_machine)" "3 \<notin> runnable (k_sched sample_machine)"
    by (simp_all add: live_pids_def runnable_def sample_machine_def)
  moreover have "on_stack 3 (get_pcb 3 + 0x1000)" using on_stack_offset [of 3 "0x1000"] by simp
  ultimately show ?thesis
    using execute_halt_roundtrip [OF sample_runs sample_maps_image sample_can_start sample_command, of 3 "get_pcb 3 + 0x1000" 5 0] sample_pids
    by simp blast
qed

end
