(* ===== verification/Keyboard.thy ===== *)
theory Keyboard
  imports Process
begin

text \<open>
  The keyboard: \<^verbatim>\<open>student-distrib/drivers/keyboard.c\<close>.  The interrupt handler reads a scan code
  from the controller, keeps track of the modifier keys, translates the code with the font
  table and passes it to the active terminal; with the alt key held a function key switches
  terminals and starts a shell on a terminal that has none.  The lemmas show that the
  handler turns the strokes of a text into that text in the terminal's input buffer.
\<close>

abbreviation KEYBOARD_IRQ_NUM :: u32 where "KEYBOARD_IRQ_NUM \<equiv> 1"
abbreviation KEYBOARD_PORT :: u16 where "KEYBOARD_PORT \<equiv> 0x60"
abbreviation KEY_CAPS_LOCK :: u8 where "KEY_CAPS_LOCK \<equiv> 0x3A"
abbreviation KEY_LSHIFT_D :: u8 where "KEY_LSHIFT_D \<equiv> 0x2A"
abbreviation KEY_RSHIFT_D :: u8 where "KEY_RSHIFT_D \<equiv> 0x36"
abbreviation KEY_LSHIFT_U :: u8 where "KEY_LSHIFT_U \<equiv> 0xAA"
abbreviation KEY_RSHIFT_U :: u8 where "KEY_RSHIFT_U \<equiv> 0xB6"
abbreviation KEY_CTRL_D :: u8 where "KEY_CTRL_D \<equiv> 0x1D"
abbreviation KEY_CTRL_U :: u8 where "KEY_CTRL_U \<equiv> 0x9D"
abbreviation KEY_ALT_D :: u8 where "KEY_ALT_D \<equiv> 0x38"
abbreviation KEY_ALT_U :: u8 where "KEY_ALT_U \<equiv> 0xB8"
abbreviation KEY_F1 :: u8 where "KEY_F1 \<equiv> 0x3B"
abbreviation KEY_F2 :: u8 where "KEY_F2 \<equiv> 0x3C"
abbreviation KEY_F3 :: u8 where "KEY_F3 \<equiv> 0x3D"
abbreviation KEY_F4 :: u8 where "KEY_F4 \<equiv> 0x3E"

section \<open>State and tables\<close>

record keyboard =
  caps_lock :: int
  shift :: int
  control :: u8
  alt :: u8
  shell_active :: "u8 arr"

text \<open>The rows of the font table; the rest of each row of 128 is zero.\<close>

definition font_row :: "u8 list \<Rightarrow> u8 list" where
  "font_row xs = xs @ replicate (128 - length xs) 0"

definition font_data :: "u8 list list" where
  "font_data = [
     font_row [
       0, 0x1B, 0x31, 0x32, 0x33, 0x34, 0x35, 0x36, 0x37, 0x38, 0x39, 0x30, 0x2D, 0x3D, 0x08, 0x09, 0x71, 0x77,
       0x65, 0x72, 0x74, 0x79, 0x75, 0x69, 0x6F, 0x70, 0x5B, 0x5D, 0x0A, 0, 0x61, 0x73, 0x64, 0x66, 0x67, 0x68,
       0x6A, 0x6B, 0x6C, 0x3B, 0x27, 0x60, 0, 0x5C, 0x7A, 0x78, 0x63, 0x76, 0x62, 0x6E, 0x6D, 0x2C, 0x2E, 0x2F,
       0, 0x2A, 0, 0x20, 0, 0, 0, 0, 0, 0, 0, 0, 0, 0, 0, 0, 0, 0,
       0, 0, 0x2D, 0, 0, 0, 0x2B, 0x0A, 0, 0, 0, 0x7F, 0, 0, 0, 0, 0, 0],
     font_row [
       0, 0x1B, 0x21, 0x40, 0x23, 0x24, 0x25, 0x5E, 0x26, 0x2A, 0x28, 0x29, 0x5F, 0x2B, 0x08, 0x09, 0x51, 0x57,
       0x45, 0x52, 0x54, 0x59, 0x55, 0x49, 0x4F, 0x50, 0x7B, 0x7D, 0x0A, 0, 0x41, 0x53, 0x44, 0x46, 0x47, 0x48,
       0x4A, 0x4B, 0x4C, 0x3A, 0x22, 0x7E, 0, 0x7C, 0x5A, 0x58, 0x43, 0x56, 0x42, 0x4E, 0x4D, 0x3C, 0x3E, 0x3F,
       0, 0x2A, 0, 0x20, 0, 0, 0, 0, 0, 0, 0, 0, 0, 0, 0, 0, 0, 0,
       0, 0, 0x2D, 0, 0, 0, 0x2B, 0, 0, 0, 0, 0x7F, 0, 0, 0, 0, 0, 0],
     font_row [
       0, 0x1B, 0x31, 0x32, 0x33, 0x34, 0x35, 0x36, 0x37, 0x38, 0x39, 0x30, 0x2D, 0x3D, 0x08, 0x09, 0x51, 0x57,
       0x45, 0x52, 0x54, 0x59, 0x55, 0x49, 0x4F, 0x50, 0x5B, 0x5D, 0x0A, 0, 0x41, 0x53, 0x44, 0x46, 0x47, 0x48,
       0x4A, 0x4B, 0x4C, 0x3B, 0x27, 0x60, 0, 0x5C, 0x5A, 0x58, 0x43, 0x56, 0x42, 0x4E, 0x4D, 0x2C, 0x2E, 0x2F,
       0, 0x2A, 0, 0x20, 0, 0, 0, 0, 0, 0, 0, 0, 0, 0, 0, 0, 0, 0,
       0, 0, 0x2D, 0, 0, 0, 0x2B, 0, 0, 0, 0, 0x7F, 0, 0, 0, 0, 0, 0],
     font_row [
       0, 0x1B, 0x21, 0x40, 0x23, 0x24, 0x25, 0x5E, 0x26, 0x2A, 0x28, 0x29, 0x5F, 0x2B, 0x08, 0x09, 0x71, 0x77,
       0x65, 0x72, 0x74, 0x79, 0x75, 0x69, 0x6F, 0x70, 0x7B, 0x7D, 0x0A, 0, 0x61, 0x73, 0x64, 0x66, 0x67, 0x68,
       0x6A, 0x6B, 0x6C, 0x3A, 0x27, 0x7E, 0, 0x5C, 0x7A, 0x78, 0x63, 0x76, 0x62, 0x6E, 0x6D, 0x3C, 0x3E, 0x3F,
       0, 0x2A, 0, 0x20, 0, 0, 0, 0, 0, 0, 0, 0, 0, 0, 0, 0, 0, 0,
       0, 0, 0x2D, 0, 0, 0, 0x2B, 0, 0, 0, 0, 0x7F, 0, 0, 0, 0, 0, 0]]"

text \<open>An index of 128 reads the first cell of the next row; \<open>junk\<close> is what lies behind the
  table.\<close>

definition font_at :: "u8 \<Rightarrow> int \<Rightarrow> u8 \<Rightarrow> u8" where
  "font_at junk row key =
     (let i = row * 128 + uint key in if 0 \<le> i \<and> i < 512 then concat font_data ! nat i else junk)"

section \<open>Operations\<close>

text \<open>A function key with alt: switch to the terminal and start its shell, once.  When the shell
  starts, the handler is left for user mode.\<close>

definition alt_function :: "env \<Rightarrow> int \<Rightarrow> keyboard \<Rightarrow> machine \<Rightarrow> (outcome \<times> keyboard \<times> machine) option" where
  "alt_function env n kb M =
     (let M = M\<lparr>k_terms := terminal_switch n (k_terms M)\<rparr> in
      if shell_active kb n \<noteq> 1 then
        let kb = kb\<lparr>shell_active := (shell_active kb)(n := 1)\<rparr>;
            M = on_display (on_ports (send_eoi KEYBOARD_IRQ_NUM)) M in
        case syscall_init_shell env (of_int n) M of None \<Rightarrow> None | Some (r, M) \<Rightarrow> Some (r, kb, M)
      else Some (Return 0, kb, M))"

text \<open>The \<^verbatim>\<open>switch\<close> on the scan code.\<close>

definition key_switch :: "env \<Rightarrow> u8 \<Rightarrow> keyboard \<Rightarrow> machine \<Rightarrow> (outcome \<times> keyboard \<times> machine) option" where
  "key_switch env key_pressed kb M =
     (if key_pressed = KEY_CTRL_D then Some (Return 0, kb\<lparr>control := control kb + 1\<rparr>, M)
      else if key_pressed = KEY_CTRL_U then Some (Return 0, kb\<lparr>control := control kb - 1\<rparr>, M)
      else if key_pressed = KEY_ALT_D then Some (Return 0, kb\<lparr>alt := alt kb + 1\<rparr>, M)
      else if key_pressed = KEY_ALT_U then Some (Return 0, kb\<lparr>alt := alt kb - 1\<rparr>, M)
      else if alt kb = 0 then Some (Return 0, kb, M)
      else if key_pressed = KEY_F1 then Some (Return 0, kb, M\<lparr>k_terms := terminal_switch 0 (k_terms M)\<rparr>)
      else if key_pressed = KEY_F2 then alt_function env 1 kb M
      else if key_pressed = KEY_F3 then alt_function env 2 kb M
      else if key_pressed = KEY_F4 then alt_function env 3 kb M
      else Some (Return 0, kb, M))"

definition keyboard_handler :: "env \<Rightarrow> keyboard \<Rightarrow> machine \<Rightarrow> (outcome \<times> keyboard \<times> machine) option" where
  "keyboard_handler env kb M =
     (let (key_pressed, log) = inb (e_dev env) KEYBOARD_PORT (ports (display (k_terms M)));
          M = on_display (on_ports (\<lambda>_. log)) M;
          eoi = on_display (on_ports (send_eoi KEYBOARD_IRQ_NUM)) in
      if key_pressed = KEY_CAPS_LOCK then Some (Return 0, kb\<lparr>caps_lock := caps_lock kb XOR 1\<rparr>, eoi M)
      else if key_pressed = KEY_LSHIFT_D \<or> key_pressed = KEY_RSHIFT_D then Some (Return 0, kb\<lparr>shift := shift kb + 1\<rparr>, eoi M)
      else if key_pressed = KEY_LSHIFT_U \<or> key_pressed = KEY_RSHIFT_U then Some (Return 0, kb\<lparr>shift := shift kb - 1\<rparr>, eoi M)
      else
        let font = (if key_pressed < 0x81
                    then font_at (e_byte env) (push_bit 1 (caps_lock kb) OR (if 0 < shift kb then 1 else 0)) key_pressed else 0) in
        case key_switch env key_pressed kb M of None \<Rightarrow> None
        | Some (Enter_user e, kb, M) \<Rightarrow> Some (Enter_user e, kb, M)
        | Some (Return _, kb, M) \<Rightarrow>
          let M = M\<lparr>k_terms := snd (input_process_key font key_pressed (control kb) (alt kb) (k_terms M))\<rparr>
          in Some (Return 0, kb, eoi M))"

definition keyboard_init :: "device \<Rightarrow> keyboard \<Rightarrow> io \<Rightarrow> keyboard \<times> io" where
  "keyboard_init dev kb log =
     (kb\<lparr>shell_active := for_range 1 NR_TERM (\<lambda>i a. a(i := 0)) ((shell_active kb)(0 := 1))\<rparr>, enable_irq dev KEYBOARD_IRQ_NUM log)"

section \<open>Typing a text\<close>

text \<open>The controller delivers one scan code; a run of the handler on a list of codes.\<close>

definition with_key :: "env \<Rightarrow> u8 \<Rightarrow> env" where
  "with_key env key = env\<lparr>e_dev := \<lambda>log port. if port = KEYBOARD_PORT then key else e_dev env log port\<rparr>"

primrec strike :: "env \<Rightarrow> u8 list \<Rightarrow> keyboard \<Rightarrow> machine \<Rightarrow> (keyboard \<times> machine) option" where
  "strike env [] kb M = Some (kb, M)"
| "strike env (k # ks) kb M =
     (case keyboard_handler (with_key env k) kb M of
        Some (Return _, kb, M) \<Rightarrow> strike env ks kb M | _ \<Rightarrow> None)"

definition plain_code :: "u8 \<Rightarrow> bool" where
  "plain_code key \<longleftrightarrow> key \<notin> {KEY_CAPS_LOCK, KEY_LSHIFT_D, KEY_RSHIFT_D, KEY_LSHIFT_U, KEY_RSHIFT_U, KEY_CTRL_D, KEY_CTRL_U, KEY_ALT_D, KEY_ALT_U}"

definition unmodified :: "keyboard \<Rightarrow> bool" where
  "unmodified kb \<longleftrightarrow> caps_lock kb = 0 \<and> control kb = 0 \<and> alt kb = 0"

text \<open>The strokes of a character: its key, with shift when the first row does not have it.\<close>

definition code_for :: "int \<Rightarrow> u8 \<Rightarrow> u8 option" where
  "code_for row c = map_option of_nat (find (\<lambda>k. font_at 0 row (of_nat k) = c) [0..<128])"

definition strokes :: "u8 \<Rightarrow> u8 list option" where
  "strokes c =
     (case code_for 0 c of Some k \<Rightarrow> Some [k, k + 0x80]
      | None \<Rightarrow> (case code_for 1 c of Some k \<Rightarrow> Some [KEY_LSHIFT_D, k, k + 0x80, KEY_LSHIFT_U] | None \<Rightarrow> None))"

lemma accepts_display [simp]: "accepts t xs n (T\<lparr>display := d\<rparr>) = accepts t xs n T"
  by (simp add: accepts_def)

lemma accepts_no_key:
  assumes "accepts t xs n T"
  shows "accepts t xs n (typed scancode 0 T)"
proof -
  let ?d = "term_data_array T t"
  have a: "active_term T = t" "is_active ?d \<noteq> 0" "input_ok ?d" "pending ?d = xs" "in_dat_nr_ret ?d = n"
    using assms by (simp_all add: accepts_def)
  have k: "keyed 0 ?d = ?d" by (simp add: keyed_def)
  have "moves t (upd_term t (\<lambda>_. keyed 0 ?d) T) (typed scancode 0 T)"
    using input_process_key_data [of 0 0 T scancode 0] a(1,2) by (simp add: typed_def)
  then have s: "strip (term_data_array (typed scancode 0 T) t) = strip ?d" "active_term (typed scancode 0 T) = t"
    using a(1) unfolding k by (simp_all add: moves_def)
  show ?thesis using a strip_input [OF s(1)] s(2) by (simp add: accepts_def)
qed

lemma handler_plain:
  assumes "plain_code key" "unmodified kb"
  shows "\<exists>d d'. keyboard_handler (with_key env key) kb M = Some (Return 0, kb, M\<lparr>k_terms :=
    (typed key (if key < 0x81 then font_at (e_byte env) (if 0 < shift kb then 1 else 0) key else 0) ((k_terms M)\<lparr>display := d\<rparr>))\<lparr>display := d'\<rparr>\<rparr>)"
proof -
  let ?font = "if key < 0x81 then font_at (e_byte env) (if 0 < shift kb then 1 else 0) key else 0"
  let ?M1 = "on_display (on_ports (\<lambda>_. ports (display (k_terms M)) @ [In KEYBOARD_PORT])) M"
  have sw: "key_switch (with_key env key) key kb M' = Some (Return 0, kb, M')" for M'
    using assms by (simp add: key_switch_def plain_code_def unmodified_def)
  have key: "key \<noteq> KEY_CAPS_LOCK" "\<not> (key = KEY_LSHIFT_D \<or> key = KEY_RSHIFT_D)" "\<not> (key = KEY_LSHIFT_U \<or> key = KEY_RSHIFT_U)"
    using assms(1) by (simp_all add: plain_code_def)
  have row: "push_bit 1 (caps_lock kb) OR (if 0 < shift kb then 1 else 0) = (if 0 < shift kb then 1 else 0)"
    "control kb = 0" "alt kb = 0" "e_byte (with_key env key) = e_byte env"
    using assms(2) by (simp_all add: unmodified_def with_key_def)
  have inb: "inb (e_dev (with_key env key)) KEYBOARD_PORT log = (key, log @ [In KEYBOARD_PORT])" for log
    by (simp add: inb_def with_key_def)
  have "keyboard_handler (with_key env key) kb M = Some (Return 0, kb, on_display (on_ports (send_eoi KEYBOARD_IRQ_NUM))
      (?M1\<lparr>k_terms := typed key ?font (k_terms ?M1)\<rparr>))"
    unfolding keyboard_handler_def Let_def inb prod.case if_not_P [OF key(1)] if_not_P [OF key(2)] if_not_P [OF key(3)]
      sw row option.case outcome.case typed_def ..
  then show ?thesis unfolding on_display_def by (auto simp del: split_paired_Ex)
qed

lemma handler_shift:
  "\<exists>d. keyboard_handler (with_key env KEY_LSHIFT_D) kb M = Some (Return 0, kb\<lparr>shift := shift kb + 1\<rparr>, M\<lparr>k_terms := (k_terms M)\<lparr>display := d\<rparr>\<rparr>)"
  "\<exists>d. keyboard_handler (with_key env KEY_LSHIFT_U) kb M = Some (Return 0, kb\<lparr>shift := shift kb - 1\<rparr>, M\<lparr>k_terms := (k_terms M)\<lparr>display := d\<rparr>\<rparr>)"
  by (auto simp: keyboard_handler_def with_key_def inb_def on_display_def Let_def)

text \<open>The modifier keys have no character.\<close>

lemma modifier_font:
  assumes "row = 0 \<or> row = 1" "key \<in> {0, KEY_CAPS_LOCK, KEY_LSHIFT_D, KEY_RSHIFT_D, KEY_CTRL_D, KEY_ALT_D}"
  shows "font_at junk row key = 0"
proof -
  have "concat font_data ! 0 = 0" "concat font_data ! 29 = 0" "concat font_data ! 42 = 0" "concat font_data ! 54 = 0"
    "concat font_data ! 56 = 0" "concat font_data ! 58 = 0" "concat font_data ! 128 = 0" "concat font_data ! 157 = 0"
    "concat font_data ! 170 = 0" "concat font_data ! 182 = 0" "concat font_data ! 184 = 0" "concat font_data ! 186 = 0"
    by (simp_all add: font_data_def font_row_def nth_append)
  then have "font_at junk 0 key = 0 \<and> font_at junk 1 key = 0"
    using assms(2) by (elim insertE) (simp_all add: font_at_def)
  then show ?thesis using assms(1) by blast
qed

lemma font_at_junk: "row = 0 \<or> row = 1 \<Longrightarrow> font_at junk row key = font_at 0 row key"
  using uint_lt2p [of key] by (auto simp: font_at_def Let_def)

lemma release_plain:
  assumes "unat key < 128" "plain_code key" "key \<noteq> 0"
  shows "plain_code (key + 0x80)" "\<not> key + 0x80 < 0x81"
proof -
  have u: "unat (key + 0x80) = unat key + 128" using assms(1) by (simp add: unat_word_ariths)
  then show "\<not> key + 0x80 < 0x81" using assms(3) by (simp add: word_less_nat_alt unat_eq_0)
  have "key + 0x80 = v + 0x80 \<longleftrightarrow> key = v" for v by simp
  from this [of KEY_LSHIFT_D] this [of KEY_RSHIFT_D] this [of KEY_CTRL_D] this [of KEY_ALT_D]
  have "key + 0x80 \<notin> {KEY_LSHIFT_U, KEY_RSHIFT_U, KEY_CTRL_U, KEY_ALT_U}" using assms(2) by (simp add: plain_code_def)
  moreover have "key + 0x80 \<noteq> v" if "unat v < 128" for v using u that by auto
  ultimately show "plain_code (key + 0x80)" by (simp add: plain_code_def)
qed

lemma code_for_Some:
  assumes "code_for row c = Some k" "row = 0 \<or> row = 1" "c \<noteq> 0"
  shows "font_at junk row k = c" "k < 0x81" "plain_code k" "plain_code (k + 0x80)" "\<not> k + 0x80 < 0x81"
proof -
  obtain n where "find (\<lambda>k. font_at 0 row (of_nat k) = c) [0..<128] = Some n" and k: "k = of_nat n"
    using assms(1) by (auto simp: code_for_def)
  then have n: "n < 128" "font_at 0 row k = c" by (auto dest: find_SomeD)
  have small: "unat k < 128" using n(1) unfolding k by (simp add: unat_of_nat)
  show "font_at junk row k = c" using n(2) font_at_junk [OF assms(2)] by metis
  show "k < 0x81" using small by (simp add: word_less_nat_alt)
  have "k \<notin> {0, KEY_CAPS_LOCK, KEY_LSHIFT_D, KEY_RSHIFT_D, KEY_CTRL_D, KEY_ALT_D}"
    using modifier_font [OF assms(2), of k 0] n(2) assms(3) by blast
  moreover have "k \<noteq> v" if "128 \<le> unat v" for v using small that by auto
  ultimately have "plain_code k" "k \<noteq> 0" by (simp_all add: plain_code_def)
  then show "plain_code k" "plain_code (k + 0x80)" "\<not> k + 0x80 < 0x81" using release_plain [OF small] by simp_all
qed

lemma strike_append: "strike env (xs @ ys) kb M = (case strike env xs kb M of None \<Rightarrow> None | Some (kb, M) \<Rightarrow> strike env ys kb M)"
  by (induction xs arbitrary: kb M) (auto split: option.split outcome.split)

lemma strike_key:
  assumes "code_for (if 0 < shift kb then 1 else 0) c = Some k" "char_key c" "unmodified kb"
    and "accepts t xs n (k_terms M)" "length xs < 128"
  shows "\<exists>T. strike env [k, k + 0x80] kb M = Some (kb, M\<lparr>k_terms := T\<rparr>) \<and> accepts t (xs @ [c]) (if c = KEY_ENTER then n + 1 else n) T"
proof -
  let ?row = "if 0 < shift kb then 1 else 0 :: int"
  have row: "?row = 0 \<or> ?row = 1" by simp
  have "c \<noteq> 0" using assms(2) by (simp add: char_key_def)
  note k = code_for_Some [OF assms(1) row this]
  have c: "(if k < 0x81 then font_at (e_byte env) ?row k else 0) = c" using k(1,2) by simp
  obtain d d' where 1: "keyboard_handler (with_key env k) kb M = Some (Return 0, kb, M\<lparr>k_terms := (typed k c ((k_terms M)\<lparr>display := d\<rparr>))\<lparr>display := d'\<rparr>\<rparr>)"
    using handler_plain [OF k(3) assms(3), of env M, unfolded c] by blast
  let ?M = "M\<lparr>k_terms := (typed k c ((k_terms M)\<lparr>display := d\<rparr>))\<lparr>display := d'\<rparr>\<rparr>"
  obtain e e' where 2: "keyboard_handler (with_key env (k + 0x80)) kb ?M
      = Some (Return 0, kb, ?M\<lparr>k_terms := (typed (k + 0x80) 0 ((k_terms ?M)\<lparr>display := e\<rparr>))\<lparr>display := e'\<rparr>\<rparr>)"
    using handler_plain [OF k(4) assms(3), of env ?M, unfolded if_not_P [OF k(5)]] by blast
  let ?T = "(typed (k + 0x80) 0 ((k_terms ?M)\<lparr>display := e\<rparr>))\<lparr>display := e'\<rparr>"
  have "accepts t (xs @ [c]) (if c = KEY_ENTER then n + 1 else n) (k_terms ?M)"
    using accepts_typed [of t xs n "(k_terms M)\<lparr>display := d\<rparr>" c k] assms(2,4,5) by simp
  then have "accepts t (xs @ [c]) (if c = KEY_ENTER then n + 1 else n) ?T"
    unfolding accepts_display by (intro accepts_no_key) (simp only: accepts_display)
  moreover have "strike env [k, k + 0x80] kb M = Some (kb, ?M\<lparr>k_terms := ?T\<rparr>)"
    unfolding strike.simps 1 2 option.case prod.case outcome.case ..
  moreover have "?M\<lparr>k_terms := ?T\<rparr> = M\<lparr>k_terms := ?T\<rparr>" by simp
  ultimately show ?thesis by metis
qed

lemma strike_char:
  assumes "strokes c = Some ss" "char_key c" "unmodified kb" "shift kb = 0"
    and "accepts t xs n (k_terms M)" "length xs < 128"
  shows "\<exists>T. strike env ss kb M = Some (kb, M\<lparr>k_terms := T\<rparr>) \<and> accepts t (xs @ [c]) (if c = KEY_ENTER then n + 1 else n) T"
proof (cases "code_for 0 c")
  case (Some k)
  then have "ss = [k, k + 0x80]" using assms(1) by (simp add: strokes_def)
  then show ?thesis using strike_key [of kb c k t xs n M env] assms(2-6) Some by simp
next
  case None
  then obtain k where k: "code_for 1 c = Some k" "ss = KEY_LSHIFT_D # [k, k + 0x80] @ [KEY_LSHIFT_U]"
    using assms(1) by (auto simp: strokes_def split: option.splits)
  let ?kb = "kb\<lparr>shift := shift kb + 1\<rparr>"
  obtain d where 1: "keyboard_handler (with_key env KEY_LSHIFT_D) kb M = Some (Return 0, ?kb, M\<lparr>k_terms := (k_terms M)\<lparr>display := d\<rparr>\<rparr>)"
    using handler_shift(1) by blast
  let ?M = "M\<lparr>k_terms := (k_terms M)\<lparr>display := d\<rparr>\<rparr>"
  have "accepts t xs n (k_terms ?M)" "code_for (if 0 < shift ?kb then 1 else 0) c = Some k" "unmodified ?kb"
    using assms(3-5) k(1) by (simp_all add: unmodified_def)
  from strike_key [OF this(2) assms(2) this(3,1) assms(6)] obtain T where
    2: "strike env [k, k + 0x80] ?kb ?M = Some (?kb, ?M\<lparr>k_terms := T\<rparr>)" and T: "accepts t (xs @ [c]) (if c = KEY_ENTER then n + 1 else n) T"
    by blast
  obtain e where 3: "keyboard_handler (with_key env KEY_LSHIFT_U) ?kb (?M\<lparr>k_terms := T\<rparr>)
      = Some (Return 0, ?kb\<lparr>shift := shift ?kb - 1\<rparr>, ?M\<lparr>k_terms := T, k_terms := T\<lparr>display := e\<rparr>\<rparr>)"
    using handler_shift(2) [of env ?kb "?M\<lparr>k_terms := T\<rparr>"] by auto
  have "strike env ss kb M = strike env ([k, k + 0x80] @ [KEY_LSHIFT_U]) ?kb ?M"
    unfolding k(2) by (subst strike.simps(2)) (simp only: 1 option.case prod.case outcome.case)
  also have "\<dots> = strike env [KEY_LSHIFT_U] ?kb (?M\<lparr>k_terms := T\<rparr>)"
    unfolding strike_append 2 option.case prod.case ..
  also have "\<dots> = Some (?kb\<lparr>shift := shift ?kb - 1\<rparr>, ?M\<lparr>k_terms := T, k_terms := T\<lparr>display := e\<rparr>\<rparr>)"
    by (simp only: strike.simps 3 option.case prod.case outcome.case)
  finally show ?thesis using T by (intro exI [of _ "T\<lparr>display := e\<rparr>"]) (simp add: assms(4))
qed

lemma strike_text:
  assumes "\<forall>c\<in>set cs. char_key c \<and> strokes c \<noteq> None" "unmodified kb" "shift kb = 0"
    and "accepts t xs n (k_terms M)" "length xs + length cs \<le> 128"
  shows "\<exists>T. strike env (concat (map (\<lambda>c. the (strokes c)) cs)) kb M = Some (kb, M\<lparr>k_terms := T\<rparr>)
    \<and> accepts t (xs @ cs) (n + int (count_list cs KEY_ENTER)) T"
  using assms(1,4,5)
proof (induction cs arbitrary: xs n M)
  case Nil
  then show ?case by (intro exI [of _ "k_terms M"]) simp
next
  case (Cons c cs)
  obtain T1 where 1: "strike env (the (strokes c)) kb M = Some (kb, M\<lparr>k_terms := T1\<rparr>)"
    "accepts t (xs @ [c]) (if c = KEY_ENTER then n + 1 else n) T1"
    using strike_char [of c "the (strokes c)" kb t xs n M env] Cons.prems assms(2,3) by auto
  let ?n = "if c = KEY_ENTER then n + 1 else n"
  have "\<forall>c\<in>set cs. char_key c \<and> strokes c \<noteq> None" "accepts t (xs @ [c]) ?n (k_terms (M\<lparr>k_terms := T1\<rparr>))"
    "length (xs @ [c]) + length cs \<le> 128"
    using Cons.prems 1(2) by simp_all
  from Cons.IH [OF this] obtain T where 2: "strike env (concat (map (\<lambda>c. the (strokes c)) cs)) kb (M\<lparr>k_terms := T1\<rparr>) = Some (kb, M\<lparr>k_terms := T\<rparr>)"
    "accepts t ((xs @ [c]) @ cs) (?n + int (count_list cs KEY_ENTER)) T"
    by auto
  have "?n + int (count_list cs KEY_ENTER) = n + int (count_list (c # cs) KEY_ENTER)" by simp
  then show ?case using 1(1) 2 by (intro exI [of _ T]) (simp add: strike_append)
qed

text \<open>Every printable character has strokes.\<close>

lemma code_for_row:
  assumes "c \<in> set (take 90 (drop (nat row * 128) (concat font_data)))" "row = 0 \<or> row = 1"
  shows "code_for row c \<noteq> None"
proof -
  have len: "length (concat font_data) = 512" by (simp add: font_data_def font_row_def)
  obtain n where n: "n < 90" "concat font_data ! (nat row * 128 + n) = c"
    using assms len by (auto simp: in_set_conv_nth)
  then have "font_at 0 row (of_nat n) = c"
    using assms(2) by (auto simp: font_at_def unsigned_of_nat take_bit_nat_eq_self nat_add_distrib)
  moreover have "n \<in> set [0..<128]" using n(1) by simp
  ultimately show ?thesis unfolding code_for_def by (auto simp: find_None_iff)
qed

lemma printable_strokes:
  assumes "c \<in> set (map of_nat [0x20..<0x7F]) \<or> c = KEY_ENTER"
  shows "strokes c \<noteq> None"
proof -
  have "set (map of_nat [0x20..<0x7F]) \<union> {KEY_ENTER}
      \<subseteq> set (take 90 (drop (nat 0 * 128) (concat font_data))) \<union> set (take 90 (drop (nat 1 * 128) (concat font_data)))"
    by (simp add: font_data_def font_row_def upt_rec)
  then have "c \<in> set (take 90 (drop (nat 0 * 128) (concat font_data))) \<or> c \<in> set (take 90 (drop (nat 1 * 128) (concat font_data)))"
    using assms by blast
  then show ?thesis using code_for_row [of c 0] code_for_row [of c 1] by (auto simp: strokes_def split: option.splits)
qed

section \<open>Properties\<close>



end
