(* ===== verification/Shell.thy ===== *)
theory Shell
  imports Process
begin

text \<open>
  Starting a shell: what \<open>syscall_init_shell\<close> does when the kernel boots and when the user
  switches to a terminal without one.  It is \<open>execute\<close> of the fixed command \<^verbatim>\<open>shell\<close> with no
  parent process; at boot no program is mapped.
\<close>

section \<open>Commands without arguments\<close>

lemma cstr_exists:
  assumes "m (s + of_nat k) = 0" "k < 2 ^ 32"
  shows "\<exists>bs. cstr m s bs \<and> length bs \<le> k"
proof -
  define n where "n = (LEAST n. m (s + of_nat n) = 0)"
  have n: "m (s + of_nat n) = 0" "n \<le> k" unfolding n_def using assms(1) by (rule LeastI, rule Least_le)
  moreover have "m (s + of_nat j) \<noteq> 0" if "j < n" for j using not_less_Least [OF that [unfolded n_def]] .
  ultimately have "cstr m s (load m s n)" using assms(2) by (auto simp: cstr_def load_def)
  with n(2) show ?thesis by (intro exI [of _ "load m s n"]) simp
qed

lemma store_load_snoc:
  assumes "n < 2 ^ 32"
  shows "m(s + of_nat n := b) = store m s (load m s n @ [b])"
proof -
  have "store m s (load m s n) = m"
    by (rule ext) (auto simp: store_def)
  then show ?thesis using store_snoc [of "load m s n" m s b] assms by simp
qed

text \<open>Without a space the parser writes a terminator into \<open>fargs\<close> at the position before the
  end of the name; what is left of it is whatever the array held.\<close>

lemma split_command_name:
  assumes cmd: "cstr m command name" and "SPACE \<notin> set name" "0 < length name" "length name \<le> 31"
    and apart: "\<And>k. k \<le> length name \<Longrightarrow> 33 \<le> unat (command + of_nat k - e_fname env)"
    and ne: "e_fargs env + of_nat (length name - 1) \<noteq> e_fname env + of_nat (length name)"
  shows "split_command env command m = Some (True, (store m (e_fname env) (name @ [0]))
    (e_fargs env + of_nat (length name - 1) := 0))"
proof -
  let ?n = "length name" and ?f = "e_fname env" and ?g = "e_fargs env"
  let ?m1 = "store m ?f name"
  have 1: "parse_command command ?f ?g m 0 0 False = parse_command command ?f ?g ?m1 (of_nat ?n) 0 False"
    using parse_name [OF cmd, of name ?n 0 ?f ?g] assms(2,4) apart by simp
  have "?m1 (command + of_nat ?n) = 0"
    using apart [of ?n] assms(4) cmd by (subst store_other) (simp_all add: cstr_def)
  then have 2: "parse_command command ?f ?g ?m1 (of_nat ?n) 0 False = Some (True, ?m1, of_nat ?n, 0, False)"
    by (subst parse_command.simps) simp
  have "(of_nat ?n - 0 - 1 :: u32) = of_nat (?n - 1)" using assms(3) by (cases name) simp_all
  moreover have "?m1(?f + of_nat ?n := 0) = store m ?f (name @ [0])" using store_snoc [of name m ?f 0] assms(4) by simp
  ultimately show ?thesis
    unfolding split_command_def 1 2 using fun_upd_twist [OF ne, of ?m1 0 0] by (simp del: fun_upd_apply)
qed

section \<open>The shell\<close>

abbreviation shell_string :: "u8 list" where "shell_string \<equiv> [0x73, 0x68, 0x65, 0x6C, 0x6C]"

text \<open>The local array with the command is kernel memory of its own.\<close>

definition shell_frame :: "env \<Rightarrow> u32 set \<Rightarrow> bool" where
  "shell_frame env P \<longleftrightarrow> in_kernel (e_shell_name env) 6 \<and> disjoint_blocks (e_shell_name env, 6) (e_fname env, 33)
     \<and> disjoint_blocks (e_shell_name env, 6) (e_fargs env, 128) \<and> clear_of P (e_shell_name env) 6"

lemma parse_shell:
  assumes img: "image_apart env M" and start: "can_start env M shell_string P names i inode" and sh: "shell_frame env P"
  obtains m1 args where "split_command env (e_shell_name env) (store (view env M) (e_shell_name env) shell_name) = Some (True, m1)"
    and "parsed env (view env (put_view env m1 M)) shell_string args"
    and "\<And>a. a \<in> P \<Longrightarrow> view env (put_view env m1 M) a = view env M a"
    and "\<And>a. \<not> a < KERNEL_MEM_END \<Longrightarrow> k_phys (put_view env m1 M) a = k_phys M a"
proof -
  have fr: "frames_ok env" and P: "safe_region env P" using start by (simp_all add: can_start_def)
  let ?c = "e_shell_name env" and ?f = "e_fname env" and ?g = "e_fargs env"
  note kf = frame_block(1) [OF fr frames_mem(1)] and kg = frame_block(1) [OF fr frames_mem(2)] and dj = frames_disjoint(7) [OF fr]
  have ks: "in_kernel ?c 6" "disjoint_blocks (?c, 6) (?f, 33)" "clear_of P ?c 6" using sh by (simp_all add: shell_frame_def)
  define m0 where "m0 = store (view env M) ?c shell_name"
  define m2 where "m2 = store m0 ?f (shell_string @ [0])"
  define m1 where "m1 = store m2 ?g (load m2 ?g 4 @ [0])"
  have "33 \<le> unat (?c + of_nat k - ?f)" if "k < 6" for k
  proof -
    have "unat (?c + of_nat k) = unat ?c + k" using ks(1) that by (simp add: in_kernel_def unat_word_ariths unat_of_nat_u32)
    then have "\<not> unat (?c + of_nat k - ?f) < 33"
      using offset_less_iff [of ?f 33 "?c + of_nat k"] ks(2) kf that by (auto simp: in_kernel_def disjoint_blocks_def)
    then show ?thesis by simp
  qed
  note apart = this
  have "cstr m0 ?c shell_string" unfolding m0_def shell_name_def using cstr_store [of shell_string "view env M" ?c] by simp
  moreover have "unat (?g + 4) = unat ?g + 4" "unat (?f + 5) = unat ?f + 5"
    using kf kg by (simp_all add: in_kernel_def unat_word_ariths)
  then have "unat (?g + 4) \<noteq> unat (?f + 5)" using dj by (auto simp: disjoint_blocks_def)
  then have "?g + 4 \<noteq> ?f + 5" by metis
  ultimately have split: "split_command env ?c m0 = Some (True, m1)"
    using split_command_name [of m0 ?c shell_string env] apart store_load_snoc [of 4 m2 ?g 0]
    by (simp add: m1_def m2_def)
  have "in_kernel ?c (length shell_name)" "in_kernel ?f (length (shell_string @ [0]))" "in_kernel ?g (length (load m2 ?g 4 @ [0]))"
    using kf kg ks(1) by (simp_all add: in_kernel_def shell_name_def)
  then have "m1 x = view env M x" if "\<not> x < KERNEL_MEM_END" for x
    using store_low that unfolding m1_def m2_def m0_def by simp
  note low = put_view_low [OF img this]
  have v1: "view env (put_view env m1 M) = m1" by (simp add: low)
  have "m1 (?g + of_nat 4) = 0" using store_at [of 4 "load m2 ?g 4 @ [0]" m2 ?g] by (simp add: m1_def nth_append)
  then obtain args where args: "cstr m1 ?g args" "length args \<le> 4" using cstr_exists [of m1 ?g 4] by auto
  have "cstr m1 ?f shell_string"
  proof (rule cstr_agree)
    show "cstr m2 ?f shell_string" unfolding m2_def by (rule cstr_store) simp_all
    show "m1 (?f + of_nat k) = m2 (?f + of_nat k)" if "k \<le> length shell_string" for k
      unfolding m1_def using that by (intro block_keeps [OF disjI1 [OF dj] kf kg]) simp_all
  qed
  with args have "parsed env (view env (put_view env m1 M)) shell_string args" unfolding v1 by (simp add: parsed_def)
  moreover have "view env (put_view env m1 M) a = view env M a" if "a \<in> P" for a
  proof -
    have "6 \<le> unat (a - ?c)" using ks(3) that by (auto simp: clear_of_def)
    then have "m0 a = view env M a" unfolding m0_def by (intro store_other) (simp add: shell_name_def)
    then show ?thesis
      using region_keeps [OF P frames_mem(1) _ that] region_keeps [OF P frames_mem(2) _ that]
      unfolding v1 by (simp add: m1_def m2_def)
  qed
  ultimately show thesis using that [OF split [unfolded m0_def]] low(2) by simp
qed

text \<open>The control block of the shell on terminal \<open>n\<close>, and the machine when it is entered.\<close>

definition shell_pcb :: "int \<Rightarrow> int \<Rightarrow> u8 arr \<Rightarrow> machine \<Rightarrow> pcb" where
  "shell_pcb n c a M = (pcb_init (pcb_of c M))\<lparr>parent_pcb := 0, pcb_pid := of_int c,
     esp_reg := get_pcb (of_int c) + 0x1FFC, pcb_term := n, pcb_args := a\<rparr>"

definition shell_entered :: "int \<Rightarrow> int \<Rightarrow> int \<Rightarrow> u8 arr \<Rightarrow> machine \<Rightarrow> machine \<Rightarrow> machine" where
  "shell_entered n p c a M M1 = M1\<lparr>k_terms := snd (terminal_open n (k_terms M)), k_sched := (k_sched M)(c := 1),
     k_pcbs := (k_pcbs M)(get_pcb (of_int c) := shell_pcb n c a M,
       get_pcb (of_int p) := (pcb_of p M)\<lparr>ebp_reg := k_ebp M, esp_reg := k_esp M\<rparr>),
     k_ss0 := KERNEL_DS, k_esp0 := get_pcb (of_int c) + 0x1FFC\<rparr>"

lemma init_shell_enters:
  assumes stack: "on_stack p (k_esp M)" "p \<in> {0..<MAX_PID}" and img: "image_apart env M"
    and start: "can_start env M shell_string P names i inode" and sh: "shell_frame env P"
    and pid: "tasks_pid_new (k_pids M) = (c, usage)" "c \<in> {1..<MAX_PID}" "c \<noteq> p"
  obtains v M1 a args where "loaded env M c usage (file_bytes (k_fs M) (view env M) inode) args v M1"
    and "syscall_init_shell env n M = Some (Enter_user v, shell_entered (uint n) p c a M M1)"
proof (rule parse_shell [OF img start sh])
  fix m1 args
  let ?M0 = "put_view env m1 M"
  assume 1: "split_command env (e_shell_name env) (store (view env M) (e_shell_name env) shell_name) = Some (True, m1)"
    "parsed env (view env ?M0) shell_string args"
    "\<And>a. a \<in> P \<Longrightarrow> view env ?M0 a = view env M a" "\<And>a. \<not> a < KERNEL_MEM_END \<Longrightarrow> k_phys ?M0 a = k_phys M a"
  note st = only_memory_start [OF put_view_only_memory 1(3) start img]
  have "tasks_pid_new (k_pids ?M0) = (c, usage)" using pid(1) by simp
  from load_program_ok [OF st(2,1) 1(2) this pid(2)] obtain v M1 where
    2: "load_program env ?M0 = Some (Inr (of_int c, v, M1))"
    and "loaded env ?M0 c usage (file_bytes (k_fs M) (view env M) inode) args v M1"
    using st(3) by auto
  then have 3: "loaded env M c usage (file_bytes (k_fs M) (view env M) inode) args v M1"
    using loaded_from [OF put_view_only_memory 1(4)] by blast
  note f = loaded_fields [OF 3]
  have p: "0 \<le> p" "p < MAX_PID" "curr M = get_pcb (of_int p)" using stack by (simp_all add: on_stack_def)
  have c: "0 \<le> c" "c < MAX_PID" "uint (of_int c :: u32) = c" "ucast (of_int c :: u32) = (of_int c :: u16)"
    using pid(2) uint_of_int_u32 [of c] by (auto simp: unsigned_of_int take_bit_int_eq_self)
  have ne: "get_pcb (of_int c) \<noteq> get_pcb (of_int p)" using get_pcb_eq_iff c p pid(3) by blast
  let ?new = "(pcb_init (pcb_of c M))\<lparr>parent_pcb := 0, pcb_pid := of_int c,
     esp_reg := get_pcb (of_int c) + 0x1FFC, pcb_term := uint n\<rparr>"
  obtain a where a: "store_args (view env M1) (e_fargs env) ?new = Some (?new\<lparr>pcb_args := a\<rparr>)"
    using store_args_ok [of "view env M1" "e_fargs env" args ?new] 3 by (auto simp: loaded_def)
  have view: "view env (M1\<lparr>k_terms := t, k_sched := s, k_pcbs := q\<rparr>) = view env M1" for t s q by (rule view_cong) simp_all
  have "syscall_init_shell env n M = Some (Enter_user v, shell_entered (uint n) p c a M M1)"
    using a ne
    by (simp add: syscall_init_shell_def 1(1) 2 f p(3) c view set_tss_def save_context_def shell_entered_def shell_pcb_def
        schedule_task_def pcb_of_def Let_def upd_pcb_def add.commute [of "get_pcb _" "0x1FFC"])
  then show thesis using that [OF 3, of a] by simp
qed

end
