(* ===== verification/Idt.thy ===== *)
theory Idt
  imports Console Pcb
begin

text \<open>
  The interrupt descriptor table and the exception handlers:
  \<^verbatim>\<open>student-distrib/kernel/irq.c\<close> and \<^verbatim>\<open>exception.c\<close>, with the descriptor layout of
  \<^verbatim>\<open>x86_desc.h\<close>.  A function whose address the code stores is a value of \<open>handler\<close>; where the
  linker puts it is an argument.  The exception handlers end in an endless loop: their model
  is the console in which they spin.
\<close>

abbreviation NUM_VEC :: int where "NUM_VEC \<equiv> 256"
abbreviation KERNEL_CS :: u16 where "KERNEL_CS \<equiv> 0x0010"
abbreviation MAX_STR_LENGTH :: int where "MAX_STR_LENGTH \<equiv> 48"

section \<open>The table\<close>

datatype handler = Null_handler | Pit_linkage | Keyboard_linkage | Rtc_linkage | Syscall_linkage
  | Divide | Debug | Nmi | Breakpoint | Overflow | Bound | Invalid_opcode | Device_not_available
  | Double_fault | Invalid_tss | Segment | Stack | Gpf | Page_fault

record idt_desc =
  offset_15_00 :: u16
  seg_selector :: u16
  reserved4 :: u8
  reserved3 :: "1 word"
  reserved2 :: "1 word"
  reserved1 :: "1 word"
  size_bit :: "1 word"
  reserved0 :: "1 word"
  dpl :: "2 word"
  present :: "1 word"
  offset_31_16 :: u16

type_synonym idt = "idt_desc arr"

definition SET_IDT_ENTRY :: "u32 \<Rightarrow> idt_desc \<Rightarrow> idt_desc" where
  "SET_IDT_ENTRY h str = str\<lparr>offset_31_16 := ucast (drop_bit 16 (h AND 0xFFFF0000)),
     offset_15_00 := ucast (h AND 0xFFFF)\<rparr>"

definition write_int_gate :: "(handler \<Rightarrow> u32) \<Rightarrow> int \<Rightarrow> handler \<Rightarrow> idt \<Rightarrow> idt" where
  "write_int_gate addr n h idt = idt(n := (SET_IDT_ENTRY (addr h) (idt n))\<lparr>present := 1, dpl := 0, reserved0 := 0,
     size_bit := 1, reserved1 := 1, reserved2 := 1, reserved3 := 0, reserved4 := 0, seg_selector := KERNEL_CS\<rparr>)"

definition write_sys_gate :: "(handler \<Rightarrow> u32) \<Rightarrow> int \<Rightarrow> handler \<Rightarrow> idt \<Rightarrow> idt" where
  "write_sys_gate addr n h idt = idt(n := (SET_IDT_ENTRY (addr h) (idt n))\<lparr>present := 1, dpl := 3, reserved0 := 0,
     size_bit := 1, reserved1 := 1, reserved2 := 1, reserved3 := 1, reserved4 := 0, seg_selector := KERNEL_CS\<rparr>)"

definition write_trap_gate :: "(handler \<Rightarrow> u32) \<Rightarrow> int \<Rightarrow> handler \<Rightarrow> idt \<Rightarrow> idt" where
  "write_trap_gate addr n h idt = idt(n := (SET_IDT_ENTRY (addr h) (idt n))\<lparr>present := 1, dpl := 0, reserved0 := 0,
     size_bit := 1, reserved1 := 1, reserved2 := 1, reserved3 := 1, reserved4 := 0, seg_selector := KERNEL_CS\<rparr>)"

definition null_handler :: "console \<Rightarrow> console" where
  "null_handler con = printf_lit (''Null Handler Called'' @ [CHR 0x0A, CHR 0x0A]) con"

definition init_idt :: "(handler \<Rightarrow> u32) \<Rightarrow> idt \<Rightarrow> idt" where
  "init_idt addr idt =
     (let idt = for_range 0 NUM_VEC (\<lambda>i. write_trap_gate addr i Null_handler) idt;
          idt = write_int_gate addr 0x20 Pit_linkage idt;
          idt = write_int_gate addr 0x21 Keyboard_linkage idt;
          idt = write_int_gate addr 0x28 Rtc_linkage idt
      in write_sys_gate addr 0x80 Syscall_linkage idt)"

definition install_exceptions :: "(handler \<Rightarrow> u32) \<Rightarrow> idt \<Rightarrow> idt" where
  "install_exceptions addr idt =
     (let idt = write_int_gate addr 0 Divide idt;
          idt = write_int_gate addr 1 Debug idt;
          idt = write_int_gate addr 2 Nmi idt;
          idt = write_int_gate addr 3 Breakpoint idt;
          idt = write_int_gate addr 4 Overflow idt;
          idt = write_int_gate addr 5 Bound idt;
          idt = write_int_gate addr 6 Invalid_opcode idt;
          idt = write_int_gate addr 7 Device_not_available idt;
          idt = write_int_gate addr 8 Double_fault idt;
          idt = write_int_gate addr 10 Invalid_tss idt;
          idt = write_int_gate addr 11 Segment idt;
          idt = write_int_gate addr 12 Stack idt;
          idt = write_int_gate addr 13 Gpf idt
      in write_int_gate addr 14 Page_fault idt)"

section \<open>Exceptions\<close>

text \<open>What the handlers read of the interrupted machine: the running process's control block
  and its address, the stack pointer and the words above it.\<close>

record fault_env =
  fault_curr :: u32
  fault_pcb :: pcb
  fault_esp :: u32
  fault_stack :: "u32 arr"

definition core_dump :: "fault_env \<Rightarrow> u8 list \<Rightarrow> console \<Rightarrow> console" where
  "core_dump env message con =
     (let con = clear con;
          con = printf_args (\<lambda>_. Some message) (''Core dump - %s'' @ [CHR 0x0A]) [0] con;
          con = printf_fmt (''PCB - 0x%#x'' @ [CHR 0x0A]) [fault_curr env] con;
          con = printf_fmt (''PID - %d'' @ [CHR 0x0A]) [ucast (pcb_pid (fault_pcb env))] con;
          con = printf_fmt (''Term - %d'' @ [CHR 0x0A]) [of_int (pcb_term (fault_pcb env))] con;
          temp = fault_esp env;
          con = printf_fmt (''EBP - 0x%#x'' @ [CHR 0x0A]) [temp] con;
          con = printf_fmt (''ESP - 0x%#x'' @ [CHR 0x0A]) [temp] con
      in for_range 0 64 (\<lambda>i con.
           let temp = fault_stack env i;
               con = printf_fmt ''0x%#x  '' [temp] con
           in if i mod 4 = 0 then printf_lit [CHR 0x0A] con else con) con)"

text \<open>The numbers of spaces right and left of the message, and the strings made of them, which
  only the commented-out picture uses; \<open>junk\<close> is the uninitialised local array.\<close>

definition center_spaces :: "int \<Rightarrow> int \<times> int" where
  "center_spaces len =
     (if len mod 2 \<noteq> 0 then ((MAX_STR_LENGTH - len + 1) div 2 - 1, (MAX_STR_LENGTH - len + 1) div 2)
      else ((MAX_STR_LENGTH - len) div 2, (MAX_STR_LENGTH - len) div 2))"

definition space_string :: "u8 arr \<Rightarrow> int \<Rightarrow> u8 arr" where
  "space_string junk n = (for_range 0 n (\<lambda>i a. a(i := SPACE)) junk)(max 0 n := 0)"

definition error_screan :: "fault_env \<Rightarrow> u8 arr \<Rightarrow> u8 list option \<Rightarrow> console \<Rightarrow> console" where
  "error_screan env junk message con =
     (let con = con\<lparr>ports := outb 0x3f 0x03C9 (outb 0x00 0x03C9 (outb 0x00 0x03C9 (outb 0x00 0x03C8 (ports con))))\<rparr>;
          con = clear con
      in case message of
           None \<Rightarrow> con
         | Some message \<Rightarrow>
             let message = (if MAX_STR_LENGTH < int (length message) then take (nat (MAX_STR_LENGTH - 1)) message else message);
                 (R_spaces, L_spaces) = center_spaces (int (length message));
                 rightstr = space_string junk R_spaces;
                 leftstr = space_string junk L_spaces
             in core_dump env message con)"

abbreviation fault :: "fault_env \<Rightarrow> u8 arr \<Rightarrow> string \<Rightarrow> console \<Rightarrow> console" where
  "fault env junk s \<equiv> error_screan env junk (Some (map of_char s))"

definition divide :: "fault_env \<Rightarrow> u8 arr \<Rightarrow> console \<Rightarrow> console" where
  "divide env junk = fault env junk ''Divide exception''"
definition debug :: "fault_env \<Rightarrow> u8 arr \<Rightarrow> console \<Rightarrow> console" where
  "debug env junk = fault env junk ''Debug exception''"
definition nmi :: "fault_env \<Rightarrow> u8 arr \<Rightarrow> console \<Rightarrow> console" where
  "nmi env junk = fault env junk ''Kernel received NMI.''"
definition breakpoint :: "fault_env \<Rightarrow> u8 arr \<Rightarrow> console \<Rightarrow> console" where
  "breakpoint env junk = fault env junk ''Kernel received breakpoint exception.''"
definition overflow :: "fault_env \<Rightarrow> u8 arr \<Rightarrow> console \<Rightarrow> console" where
  "overflow env junk = fault env junk ''Overflow exception''"
definition bound :: "fault_env \<Rightarrow> u8 arr \<Rightarrow> console \<Rightarrow> console" where
  "bound env junk = fault env junk ''Bound range exceeded exception''"
definition invalid_opcode :: "fault_env \<Rightarrow> u8 arr \<Rightarrow> console \<Rightarrow> console" where
  "invalid_opcode env junk = fault env junk ''Invalid opcode exception''"
definition device_not_available :: "fault_env \<Rightarrow> u8 arr \<Rightarrow> console \<Rightarrow> console" where
  "device_not_available env junk = fault env junk ''Device not available exception''"
definition double_fault :: "fault_env \<Rightarrow> u8 arr \<Rightarrow> console \<Rightarrow> console" where
  "double_fault env junk = fault env junk ''Double fault exception''"
definition invalid_tss :: "fault_env \<Rightarrow> u8 arr \<Rightarrow> console \<Rightarrow> console" where
  "invalid_tss env junk = fault env junk ''Invalid TSS exception''"
definition segment :: "fault_env \<Rightarrow> u8 arr \<Rightarrow> console \<Rightarrow> console" where
  "segment env junk = fault env junk ''Segment not present exception''"
definition stack :: "fault_env \<Rightarrow> u8 arr \<Rightarrow> console \<Rightarrow> console" where
  "stack env junk = fault env junk ''Stack segment exception''"
definition gpf :: "fault_env \<Rightarrow> u8 arr \<Rightarrow> console \<Rightarrow> console" where
  "gpf env junk = fault env junk ''General protection fault exception''"
definition page_fault :: "fault_env \<Rightarrow> u8 arr \<Rightarrow> console \<Rightarrow> console" where
  "page_fault env junk = fault env junk ''Page Fault Exception''"

section \<open>What the processor makes of the table\<close>

text \<open>A gate as the processor reads it: the target, and whether it is an interrupt gate (which
  masks interrupts) or a trap gate; \<open>None\<close> for a descriptor that raises a fault instead.\<close>

datatype gate = Interrupt_gate u16 u32 | Trap_gate u16 u32

definition target :: "idt_desc \<Rightarrow> u32" where
  "target d = push_bit 16 (ucast (offset_31_16 d)) OR ucast (offset_15_00 d)"

definition gate_of :: "idt_desc \<Rightarrow> gate option" where
  "gate_of d =
     (if present d = 1 \<and> reserved0 d = 0 \<and> size_bit d = 1 \<and> reserved1 d = 1 \<and> reserved2 d = 1
      then Some (if reserved3 d = 0 then Interrupt_gate (seg_selector d) (target d) else Trap_gate (seg_selector d) (target d))
      else None)"

text \<open>An \<^verbatim>\<open>int n\<close> of the program needs a privilege level at most the gate's.\<close>

definition int_allowed :: "2 word \<Rightarrow> idt_desc \<Rightarrow> bool" where
  "int_allowed cpl d \<longleftrightarrow> cpl \<le> dpl d"

text \<open>The intended use of the vectors.\<close>

definition exception_handlers :: "(int \<times> handler) list" where
  "exception_handlers = [(0, Divide), (1, Debug), (2, Nmi), (3, Breakpoint), (4, Overflow), (5, Bound),
     (6, Invalid_opcode), (7, Device_not_available), (8, Double_fault), (10, Invalid_tss), (11, Segment),
     (12, Stack), (13, Gpf), (14, Page_fault)]"

definition device_handlers :: "(int \<times> handler) list" where
  "device_handlers = [(0x20, Pit_linkage), (0x21, Keyboard_linkage), (0x28, Rtc_linkage)]"

definition boot_idt :: "(handler \<Rightarrow> u32) \<Rightarrow> idt \<Rightarrow> idt" where
  "boot_idt addr idt = install_exceptions addr (init_idt addr idt)"

lemma target_entry:
  "push_bit 16 (ucast (ucast (drop_bit 16 (h AND 0xFFFF0000)) :: u16)) OR ucast (ucast (h AND 0xFFFF) :: u16) = (h :: u32)"
proof -
  have masks: "(0xFFFF0000 :: u32) = push_bit 16 (mask 16)" "(0xFFFF :: u32) = mask 16"
    by (simp_all add: push_bit_eq_mult mask_eq_exp_minus_1)
  show ?thesis unfolding masks by (rule bit_eqI) (auto simp: bit_simps)
qed

lemma gate_of_written [simp]:
  "gate_of (write_int_gate addr n h idt k) = (if k = n then Some (Interrupt_gate KERNEL_CS (addr h)) else gate_of (idt k))"
  "gate_of (write_trap_gate addr n h idt k) = (if k = n then Some (Trap_gate KERNEL_CS (addr h)) else gate_of (idt k))"
  "gate_of (write_sys_gate addr n h idt k) = (if k = n then Some (Trap_gate KERNEL_CS (addr h)) else gate_of (idt k))"
  by (simp_all add: gate_of_def target_def write_int_gate_def write_trap_gate_def write_sys_gate_def SET_IDT_ENTRY_def
      target_entry [simplified])

lemma dpl_written [simp]:
  "dpl (write_int_gate addr n h idt k) = (if k = n then 0 else dpl (idt k))"
  "dpl (write_trap_gate addr n h idt k) = (if k = n then 0 else dpl (idt k))"
  "dpl (write_sys_gate addr n h idt k) = (if k = n then 3 else dpl (idt k))"
  by (simp_all add: write_int_gate_def write_trap_gate_def write_sys_gate_def)

lemma trap_loop:
  assumes "0 \<le> k" "k < n"
  shows "gate_of (for_range 0 n (\<lambda>i. write_trap_gate addr i h) idt k) = Some (Trap_gate KERNEL_CS (addr h))
    \<and> dpl (for_range 0 n (\<lambda>i. write_trap_gate addr i h) idt k) = 0"
proof -
  have "0 \<le> n" using assms by simp
  then show ?thesis
    using assms
  proof (induction n rule: int_ge_induct)
    case (step n)
    then show ?case
      by (cases "k = n") (simp_all add: for_range_last)
  qed simp
qed

section \<open>The text of a dump\<close>

definition line_of :: "u8 list \<Rightarrow> u8 list" where
  "line_of bs = bs @ [NEWLINE]"

definition hex_text :: "u32 \<Rightarrow> u8 list" where
  "hex_text w = map of_char ''0x'' @ pad8 (ascii_digits 16 (unat w))"

definition word_text :: "(int \<Rightarrow> u32) \<Rightarrow> int \<Rightarrow> u8 list" where
  "word_text stk i = hex_text (stk i) @ map of_char ''  '' @ (if i mod 4 = 0 then [NEWLINE] else [])"

definition dump_text :: "fault_env \<Rightarrow> u8 list" where
  "dump_text env = line_of (map of_char ''PCB - '' @ hex_text (fault_curr env))
     @ line_of (map of_char ''PID - '' @ signed_digits (ucast (pcb_pid (fault_pcb env))))
     @ line_of (map of_char ''Term - '' @ signed_digits (of_int (pcb_term (fault_pcb env))))
     @ line_of (map of_char ''EBP - '' @ hex_text (fault_esp env))
     @ line_of (map of_char ''ESP - '' @ hex_text (fault_esp env))
     @ concat (map (word_text (fault_stack env)) [0..63])"

lemma core_dump_text:
  "core_dump env message con = fold putc (line_of (map of_char ''Core dump - '' @ message) @ dump_text env) (clear con)"
proof -
  have words: "for_range 0 64 (\<lambda>i con. let temp = fault_stack env i; con = printf_fmt ''0x%#x  '' [temp] con
      in if i mod 4 = 0 then printf_lit [CHR 0x0A] con else con) c
    = fold putc (concat (map (word_text (fault_stack env)) [0..63])) c" for c
  proof -
    have "fold (\<lambda>i con. let temp = fault_stack env i; con = printf_fmt ''0x%#x  '' [temp] con
      in if i mod 4 = 0 then printf_lit [CHR 0x0A] con else con) is c
      = fold putc (concat (map (word_text (fault_stack env)) is)) c" for "is"
      by (induction "is" arbitrary: c) (simp_all add: printf_args_def printf_lit_def word_text_def hex_text_def)
    then show ?thesis by (simp add: for_range_def)
  qed
  show ?thesis
    unfolding core_dump_def Let_def words [unfolded Let_def] dump_text_def
    by (simp add: printf_args_def line_of_def hex_text_def)
qed

lemma hex_text_line: "NEWLINE \<notin> set (hex_text w)" "RETURN \<notin> set (hex_text w)" "length (hex_text w) = 10"
proof -
  have "length (ascii_digits 16 (unat w)) \<le> 8"
    using unsigned_less [of w, where 'a = nat] by (intro length_ascii_digits) simp_all
  then show "length (hex_text w) = 10" by (simp add: hex_text_def pad8_def)
  show "NEWLINE \<notin> set (hex_text w)" "RETURN \<notin> set (hex_text w)"
    using digits_no_control [of 16 "unat w"] by (simp_all add: hex_text_def pad8_def)
qed

lemma signed_digits_line:
  "NEWLINE \<notin> set (signed_digits v)" "RETURN \<notin> set (signed_digits v)" "length (signed_digits v) \<le> 11"
proof -
  have "nat \<bar>sint v\<bar> < 10 ^ 10" using sint_greater_eq [of v] sint_less [of v] by simp
  then have "length (ascii_digits 10 (nat \<bar>sint v\<bar>)) \<le> 10" by (intro length_ascii_digits) simp_all
  then show "length (signed_digits v) \<le> 11" by (auto simp: signed_digits_def)
  show "NEWLINE \<notin> set (signed_digits v)" "RETURN \<notin> set (signed_digits v)"
    using digits_no_control [of 10] by (simp_all add: signed_digits_def)
qed

lemma fits_line_of:
  "NEWLINE \<notin> set xs \<Longrightarrow> length xs < 80 \<Longrightarrow> r < 24 \<Longrightarrow> fits r 0 (line_of xs @ ys) = fits (r + 1) 0 ys"
  by (simp add: line_of_def)

lemma fits_word:
  "c + 12 < 80 \<Longrightarrow> r < 24 \<Longrightarrow> fits r c (word_text stk i @ ys) = (if i mod 4 = 0 then fits (r + 1) 0 ys else fits r (c + 12) ys)"
  using fits_line [of "hex_text (stk i) @ map of_char ''  ''" c r] hex_text_line [of "stk i"]
  by (simp add: word_text_def)

lemma fits_words: "fits 6 0 (concat (map (word_text stk) [0..63]))"
  by (simp add: upto_rec1 fits_word del: fits.simps) (simp add: fits_word [where ys = "[]", simplified])

lemma dump_text_fits: "fits 1 0 (dump_text env)" "RETURN \<notin> set (dump_text env)"
proof -
  show "fits 1 0 (dump_text env)"
    using fits_words signed_digits_line(3) [of "ucast (pcb_pid (fault_pcb env))"]
      signed_digits_line(3) [of "of_int (pcb_term (fault_pcb env))"]
    by (simp add: dump_text_def fits_line_of hex_text_line signed_digits_line(1,2))
  show "RETURN \<notin> set (dump_text env)"
    by (auto simp: dump_text_def line_of_def word_text_def hex_text_line signed_digits_line split: if_splits)
qed

lemma core_dump_row:
  assumes "length message \<le> 48" "NEWLINE \<notin> set message" "RETURN \<notin> set message"
  shows "map (\<lambda>c. cells (console_screen (core_dump env message con)) 0 (int c)) [0..<12 + length message]
    = map of_char ''Core dump - '' @ message"
proof -
  define line where "line = map of_char ''Core dump - '' @ message"
  let ?s = "console_screen (clear con)"
  have line: "length line < 80" "NEWLINE \<notin> set line" "RETURN \<notin> set line" "length line = 12 + length message"
    using assms by (simp_all add: line_def)
  have ok: "console_ok (clear con)" by (simp add: console_ok_def on_screen_def)
  have s: "at_row ?s = 0" "at_col ?s = 0" by (simp_all add: console_screen_def)
  have "core_dump env message con = fold putc (line_of line @ dump_text env) (clear con)"
    unfolding core_dump_text line_def ..
  then have scr: "console_screen (core_dump env message con) = fold show_char (dump_text env) (newline (fold show_char line ?s))"
    using con.puts_refines(2) [OF ok, of "line_of line @ dump_text env"] dump_text_fits(2) line(3)
    by (auto simp: line_of_def show_char_def)
  have typed: "fold show_char line ?s = ?s\<lparr>at_col := int (length line), cells := (\<lambda>r c. if r = 0 \<and> 0 \<le> c \<and> c < int (length line)
      then line ! nat c else cells ?s r c)\<rparr>"
    using type_line [of ?s line] line(1,2) unfolding s by (simp cong: if_cong)
  have "cells (console_screen (core_dump env message con)) 0 = cells (fold show_char line ?s) 0"
    unfolding scr using fits_rows [of "newline (fold show_char line ?s)" "dump_text env" 0] dump_text_fits(1) s
    by (simp add: typed newline_def)
  then show ?thesis unfolding typed line_def [symmetric] using line(4) by (auto intro!: nth_equalityI)
qed

section \<open>Properties\<close>



text \<open>Every exception names itself on the screen.  Each of the 14 exception handlers stops with
  its message after \<^verbatim>\<open>Core dump -\<close> in the first row of the cleared screen; the dump below
  it does not scroll the message away.\<close>

theorem exception_messages:
  assumes "(h, s) \<in> set [(divide, ''Divide exception''), (debug, ''Debug exception''), (nmi, ''Kernel received NMI.''),
      (breakpoint, ''Kernel received breakpoint exception.''), (overflow, ''Overflow exception''),
      (bound, ''Bound range exceeded exception''), (invalid_opcode, ''Invalid opcode exception''),
      (device_not_available, ''Device not available exception''), (double_fault, ''Double fault exception''),
      (invalid_tss, ''Invalid TSS exception''), (segment, ''Segment not present exception''),
      (stack, ''Stack segment exception''), (gpf, ''General protection fault exception''),
      (page_fault, ''Page Fault Exception'')]"
  shows "map (\<lambda>c. cells (console_screen (h env junk con)) 0 (int c)) [0..<12 + length s]
    = map of_char (''Core dump - '' @ s)"
proof -
  have "length s \<le> 48" "NEWLINE \<notin> set (map of_char s :: u8 list)" "RETURN \<notin> set (map of_char s :: u8 list)"
    using assms by auto
  moreover have "h env junk con = fault env junk s con"
    using assms by (auto simp: divide_def debug_def nmi_def breakpoint_def overflow_def bound_def invalid_opcode_def
        device_not_available_def double_fault_def invalid_tss_def segment_def stack_def gpf_def page_fault_def)
  ultimately show ?thesis
    using core_dump_row [of "map of_char s" env] by (simp add: error_screan_def split_beta Let_def)
qed

theorem exception_messages_witness:
  "map (\<lambda>c. cells (console_screen (divide \<lparr>fault_curr = 0x7fe000, fault_pcb = sample_pcb, fault_esp = 0x7fff00,
       fault_stack = (\<lambda>_. 0)\<rparr> (\<lambda>_. 0) \<lparr>screen_x = 7, screen_y = 3, video_mem = (\<lambda>_. 0), ports = []\<rparr>)) 0 (int c)) [0..<12 + length ''Divide exception'']
   = map of_char (''Core dump - '' @ ''Divide exception'')"
  by (rule exception_messages) simp

text \<open>The error screen's message is centred within its 48 columns: the spaces right and left of
  a message of at most 48 characters and the message fill 48 columns, the two sides differ
  by at most one, and the space strings with their terminators stay inside their arrays.\<close>

theorem error_screen_centered:
  assumes "0 \<le> len" "len \<le> MAX_STR_LENGTH"
  shows "(case center_spaces len of (r, l) \<Rightarrow> r + len + l = MAX_STR_LENGTH \<and> r \<le> l \<and> l \<le> r + 1
    \<and> in_bounds MAX_STR_LENGTH junk (space_string junk r) \<and> in_bounds MAX_STR_LENGTH junk (space_string junk l))"
proof -
  have "in_bounds MAX_STR_LENGTH junk (space_string junk n)" if "0 \<le> n" "n < MAX_STR_LENGTH" for n
    using that by (auto simp: in_bounds_def space_string_def for_range_fill)
  moreover have "fst (center_spaces len) + len + snd (center_spaces len) = MAX_STR_LENGTH"
    "0 \<le> fst (center_spaces len)" "fst (center_spaces len) \<le> snd (center_spaces len)" "snd (center_spaces len) \<le> fst (center_spaces len) + 1"
    using assms unfolding center_spaces_def by (auto split: if_splits) presburger+
  ultimately show ?thesis using assms by (cases "center_spaces len") auto
qed

theorem error_screen_centered_witness: "fst (center_spaces 16) + 16 + snd (center_spaces 16) = 48"
  using error_screen_centered [of 16 "\<lambda>_. 0"] by (simp add: split_beta)

end
