(* ===== verification/Boot.thy ===== *)
theory Boot
  imports Keyboard Shell Idt
begin

text \<open>
  Booting: \<open>entry\<close> of \<^verbatim>\<open>student-distrib/kernel.c\<close>, the segment descriptors of
  \<^verbatim>\<open>student-distrib/x86_desc.h\<close> and the boot information of \<^verbatim>\<open>student-distrib/multiboot.h\<close>.
  \<open>entry\<close> reports what the boot loader passed, writes the descriptors of the local
  descriptor table and of the task state segment, initialises every component and starts
  the first shell.  Paging is off until \<open>paging_init\<close>, so the boot information is read from
  physical memory.  The interrupt flag is not modelled: \<open>entry\<close> runs as if no interrupt
  arrived before the shell is entered.  The lemmas show that the initialisation establishes the invariants of
  all components and unmasks exactly the interrupt lines that have a driver.
\<close>

abbreviation MULTIBOOT_BOOTLOADER_MAGIC :: u32 where "MULTIBOOT_BOOTLOADER_MAGIC \<equiv> 0x2BADB002"
abbreviation KERNEL_TSS :: u16 where "KERNEL_TSS \<equiv> 0x0030"
abbreviation KERNEL_LDT :: u16 where "KERNEL_LDT \<equiv> 0x0038"
abbreviation TSS_SIZE :: u32 where "TSS_SIZE \<equiv> 104"

section \<open>Boot information\<close>

text \<open>The fields of the structure at \<open>mbi\<close> and of a module entry at \<open>module\<close>.\<close>

definition mbi_flags :: "mem \<Rightarrow> u32 \<Rightarrow> u32" where "mbi_flags m mbi = get32 m mbi"
definition mem_lower :: "mem \<Rightarrow> u32 \<Rightarrow> u32" where "mem_lower m mbi = get32 m (mbi + 4)"
definition mem_upper :: "mem \<Rightarrow> u32 \<Rightarrow> u32" where "mem_upper m mbi = get32 m (mbi + 8)"
definition boot_device :: "mem \<Rightarrow> u32 \<Rightarrow> u32" where "boot_device m mbi = get32 m (mbi + 12)"
definition cmdline :: "mem \<Rightarrow> u32 \<Rightarrow> u32" where "cmdline m mbi = get32 m (mbi + 16)"
definition mods_count :: "mem \<Rightarrow> u32 \<Rightarrow> u32" where "mods_count m mbi = get32 m (mbi + 20)"
definition mods_addr :: "mem \<Rightarrow> u32 \<Rightarrow> u32" where "mods_addr m mbi = get32 m (mbi + 24)"
definition elf_sec :: "u32 \<Rightarrow> u32" where "elf_sec mbi = mbi + 28"
definition mmap_length :: "mem \<Rightarrow> u32 \<Rightarrow> u32" where "mmap_length m mbi = get32 m (mbi + 44)"
definition mmap_addr :: "mem \<Rightarrow> u32 \<Rightarrow> u32" where "mmap_addr m mbi = get32 m (mbi + 48)"
definition mod_start :: "mem \<Rightarrow> u32 \<Rightarrow> u32" where "mod_start m module = get32 m module"
definition mod_end :: "mem \<Rightarrow> u32 \<Rightarrow> u32" where "mod_end m module = get32 m (module + 4)"

definition CHECK_FLAG :: "u32 \<Rightarrow> nat \<Rightarrow> bool" where
  "CHECK_FLAG f b \<longleftrightarrow> f AND push_bit b 1 \<noteq> 0"

definition show_module :: "mem \<Rightarrow> u32 \<Rightarrow> int \<Rightarrow> console \<Rightarrow> console" where
  "show_module m module mod_count con =
     (let con = printf_fmt (''Module %d loaded at address: 0x%#x'' @ [CHR 0x0A]) [of_int mod_count, mod_start m module] con;
          con = printf_fmt (''Module %d ends at address: 0x%#x'' @ [CHR 0x0A]) [of_int mod_count, mod_end m module] con;
          con = printf_lit (''First few bytes of module:'' @ [CHR 0x0A]) con;
          con = for_range 0 16 (\<lambda>i. printf_fmt ''0x%x '' [scast (m (mod_start m module + of_int i))]) con
      in printf_lit [CHR 0x0A] con)"

definition show_modules :: "mem \<Rightarrow> u32 \<Rightarrow> console \<Rightarrow> console" where
  "show_modules m mbi = for_range 0 (uint (mods_count m mbi)) (\<lambda>i. show_module m (mods_addr m mbi + 16 * of_int i) i)"

text \<open>The walk over the memory map prints nothing; it returns the pointer it ends at.\<close>

partial_function (option) mmap_walk :: "mem \<Rightarrow> u32 \<Rightarrow> u32 \<Rightarrow> u32 option" where
  "mmap_walk m mmap map_end = (if mmap < map_end then mmap_walk m (mmap + get32 m mmap + 4) map_end else Some mmap)"

text \<open>The command line as \<^verbatim>\<open>printf\<close> reads it; \<open>None\<close> when it has no end.\<close>

definition string_at :: "mem \<Rightarrow> u32 \<Rightarrow> u8 list option" where
  "string_at m s = map_option (\<lambda>n. load m s (unat n)) (strlen m s)"

text \<open>The report of \<open>entry\<close> on the boot information: whether to go on, and the console;
  \<open>None\<close> when it does not end.\<close>

definition boot_report :: "mem \<Rightarrow> u32 \<Rightarrow> console \<Rightarrow> (bool \<times> console) option" where
  "boot_report m mbi con =
     (let flags = mbi_flags m mbi;
          con = printf_fmt (''flags = 0x%#x'' @ [CHR 0x0A]) [flags] con;
          con = (if CHECK_FLAG flags 0
                 then printf_fmt (''mem_lower = %uKB, mem_upper = %uKB'' @ [CHR 0x0A]) [mem_lower m mbi, mem_upper m mbi] con
                 else con);
          con = (if CHECK_FLAG flags 1 then printf_fmt (''boot_device = 0x%#x'' @ [CHR 0x0A]) [boot_device m mbi] con else con)
      in if CHECK_FLAG flags 2 \<and> string_at m (cmdline m mbi) = None then None
      else
        let con = (if CHECK_FLAG flags 2 then printf_args (string_at m) (''cmdline = %s'' @ [CHR 0x0A]) [cmdline m mbi] con else con);
            con = (if CHECK_FLAG flags 3 then show_modules m mbi con else con)
        in if CHECK_FLAG flags 4 \<and> CHECK_FLAG flags 5
           then Some (False, printf_lit (''Both bits 4 and 5 are set.'' @ [CHR 0x0A]) con)
           else
             let con = (if CHECK_FLAG flags 5
                        then printf_fmt (''elf_sec: num = %u, size = 0x%#x, addr = 0x%#x, shndx = 0x%#x'' @ [CHR 0x0A])
                               [get32 m (elf_sec mbi), get32 m (elf_sec mbi + 4), get32 m (elf_sec mbi + 8), get32 m (elf_sec mbi + 12)] con
                        else con)
             in if CHECK_FLAG flags 6
                then map_option (\<lambda>_. (True, con)) (mmap_walk m (mmap_addr m mbi) (mmap_addr m mbi + mmap_length m mbi))
                else Some (True, con))"

section \<open>Segment descriptors\<close>

record seg_desc =
  seg_lim_15_00 :: u16
  base_15_00 :: u16
  base_23_16 :: u8
  seg_type :: "4 word"
  seg_sys :: "1 word"
  seg_dpl :: "2 word"
  seg_present :: "1 word"
  seg_lim_19_16 :: "4 word"
  seg_avail :: "1 word"
  seg_reserved :: "1 word"
  seg_opsize :: "1 word"
  seg_granularity :: "1 word"
  base_31_24 :: u8

definition SET_LDT_PARAMS :: "u32 \<Rightarrow> u32 \<Rightarrow> seg_desc \<Rightarrow> seg_desc" where
  "SET_LDT_PARAMS addr lim str = str\<lparr>
     base_31_24 := ucast (drop_bit 24 (addr AND 0xFF000000)),
     base_23_16 := ucast (drop_bit 16 (addr AND 0x00FF0000)),
     base_15_00 := ucast (addr AND 0x0000FFFF),
     seg_lim_19_16 := ucast (drop_bit 16 (lim AND 0x000F0000)),
     seg_lim_15_00 := ucast (lim AND 0x0000FFFF)\<rparr>"

definition SET_TSS_PARAMS :: "u32 \<Rightarrow> u32 \<Rightarrow> seg_desc \<Rightarrow> seg_desc" where
  "SET_TSS_PARAMS addr lim str = str\<lparr>
     base_31_24 := ucast (drop_bit 24 (addr AND 0xFF000000)),
     base_23_16 := ucast (drop_bit 16 (addr AND 0x00FF0000)),
     base_15_00 := ucast (addr AND 0x0000FFFF),
     seg_lim_19_16 := ucast (drop_bit 16 (lim AND 0x000F0000)),
     seg_lim_15_00 := ucast (lim AND 0x0000FFFF)\<rparr>"

text \<open>The uninitialised local descriptor is \<open>junk\<close>; every field of it is assigned.\<close>

definition the_ldt_desc :: "u32 \<Rightarrow> u32 \<Rightarrow> seg_desc \<Rightarrow> seg_desc" where
  "the_ldt_desc ldt ldt_size junk = SET_LDT_PARAMS ldt ldt_size
     (junk\<lparr>seg_granularity := 0, seg_opsize := 1, seg_reserved := 0, seg_avail := 0, seg_present := 1,
        seg_dpl := 0, seg_sys := 0, seg_type := 0x2\<rparr>)"

definition the_tss_desc :: "u32 \<Rightarrow> u32 \<Rightarrow> seg_desc \<Rightarrow> seg_desc" where
  "the_tss_desc tss tss_size junk = SET_TSS_PARAMS tss tss_size
     (junk\<lparr>seg_granularity := 0, seg_opsize := 0, seg_reserved := 0, seg_avail := 0,
        seg_lim_19_16 := ucast (TSS_SIZE AND 0x000F0000), seg_present := 1, seg_dpl := 0, seg_sys := 0,
        seg_type := 0x9, seg_lim_15_00 := ucast (TSS_SIZE AND 0x0000FFFF)\<rparr>)"

section \<open>The system\<close>

text \<open>What the linker fixes, besides the environment of the machine: the addresses of the
  handlers, and address and size of the local descriptor table, the task state segment and
  the descriptor of the interrupt table.\<close>

record boot_env =
  b_env :: env
  b_handlers :: "handler \<Rightarrow> u32"
  b_ldt :: u32
  b_ldt_size :: u32
  b_tss :: u32
  b_tss_size :: u32
  b_idt_desc :: u32
  b_junk :: seg_desc

record system =
  s_machine :: machine
  s_keyboard :: keyboard
  s_idt :: idt
  s_ldt_desc :: seg_desc
  s_tss_desc :: seg_desc
  s_tss_ldt :: u16
  s_ldtr :: u16
  s_tr :: u16
  s_idtr :: u32

abbreviation s_con :: "system \<Rightarrow> console" where
  "s_con S \<equiv> display (k_terms (s_machine S))"

definition on_machine :: "(machine \<Rightarrow> machine) \<Rightarrow> system \<Rightarrow> system" where
  "on_machine f S = S\<lparr>s_machine := f (s_machine S)\<rparr>"

definition on_con :: "(console \<Rightarrow> console) \<Rightarrow> system \<Rightarrow> system" where
  "on_con f = on_machine (on_display f)"

definition init_descriptors :: "boot_env \<Rightarrow> system \<Rightarrow> system" where
  "init_descriptors benv S =
     (let S = S\<lparr>s_ldt_desc := the_ldt_desc (b_ldt benv) (b_ldt_size benv) (b_junk benv)\<rparr>;
          S = S\<lparr>s_ldtr := KERNEL_LDT\<rparr>;
          S = S\<lparr>s_tss_desc := the_tss_desc (b_tss benv) (b_tss_size benv) (b_junk benv)\<rparr>;
          S = S\<lparr>s_tss_ldt := KERNEL_LDT\<rparr>;
          S = on_machine (set_tss 0x800000) S
      in S\<lparr>s_tr := KERNEL_TSS\<rparr>)"

definition init_components :: "boot_env \<Rightarrow> u32 \<Rightarrow> system \<Rightarrow> system" where
  "init_components benv mbi S =
     (let env = b_env benv; m = k_phys (s_machine S); module = mods_addr m mbi;
          S = S\<lparr>s_idt := init_idt (b_handlers benv) (s_idt S)\<rparr>;
          S = S\<lparr>s_idt := install_exceptions (b_handlers benv) (s_idt S)\<rparr>;
          S = S\<lparr>s_idtr := b_idt_desc benv\<rparr>;
          (fs, con) = fs_init m (mod_start m module) (mod_end m module) (s_con S);
          S = on_con (\<lambda>_. con) (on_machine (\<lambda>M. M\<lparr>k_fs := fs\<rparr>) S);
          S = on_machine (\<lambda>M. M\<lparr>k_paging := paging_init (e_lay env) (k_paging M)\<rparr>) S;
          S = on_con (i8259_init (e_dev env)) S;
          S = on_machine (\<lambda>M. M\<lparr>k_terms := terminal_init (k_terms M)\<rparr>) S;
          S = on_machine (\<lambda>M. M\<lparr>k_pids := init_tasks (k_pids M)\<rparr>) S;
          (rtc, con) = rtc_init (e_dev env) (e_byte env) (s_con S);
          S = on_con (\<lambda>_. con) (on_machine (\<lambda>M. M\<lparr>k_rtc := rtc\<rparr>) S);
          S = on_machine (\<lambda>M. M\<lparr>k_pids := init_tasks (k_pids M)\<rparr>) S;
          (kb, log) = keyboard_init (e_dev env) (s_keyboard S) (ports (s_con S));
          S = on_con (on_ports (\<lambda>_. log)) (S\<lparr>s_keyboard := kb\<rparr>);
          S = on_machine (\<lambda>M. M\<lparr>k_terms := snd (terminal_open 0 (k_terms M))\<rparr>) S;
          (sched, con) = scheduling_init (k_sched (s_machine S)) (s_con S);
          S = on_con (\<lambda>_. con) (on_machine (\<lambda>M. M\<lparr>k_sched := sched\<rparr>) S);
          S = on_con (on_ports (pit_init (e_dev env))) S
      in on_con clear S)"

text \<open>\<open>Returned\<close>: \<open>entry\<close> returns to \<^verbatim>\<open>boot.S\<close>, which halts; \<open>Spinning\<close>: the shell could not be
  started and the kernel idles; \<open>Shell eip\<close>: the processor is in user mode at \<open>eip\<close>.\<close>

datatype boot_result = Returned | Spinning | Shell u32

definition start_shell :: "boot_env \<Rightarrow> system \<Rightarrow> (boot_result \<times> system) option" where
  "start_shell benv S =
     (case syscall_init_shell (b_env benv) 0 (s_machine S) of None \<Rightarrow> None
      | Some (Enter_user eip, M) \<Rightarrow> Some (Shell eip, S\<lparr>s_machine := M\<rparr>)
      | Some (Return _, M) \<Rightarrow>
          Some (Spinning, on_con (printf_lit (''about to spin..'' @ [CHR 0x0A])) (S\<lparr>s_machine := M\<rparr>)))"

definition entry :: "boot_env \<Rightarrow> u32 \<Rightarrow> u32 \<Rightarrow> system \<Rightarrow> (boot_result \<times> system) option" where
  "entry benv magic addr S =
     (let S = on_con clear S in
      if magic \<noteq> MULTIBOOT_BOOTLOADER_MAGIC
      then Some (Returned, on_con (printf_fmt (''Invalid magic number: 0x%#x'' @ [CHR 0x0A]) [magic]) S)
      else
        (case boot_report (k_phys (s_machine S)) addr (s_con S) of None \<Rightarrow> None
         | Some (ok, con) \<Rightarrow>
           let S = on_con (\<lambda>_. con) S in
           if \<not> ok then Some (Returned, S)
           else start_shell benv (init_components benv addr (init_descriptors benv S))))"

section \<open>The report ends\<close>

text \<open>The memory map from \<open>a\<close> to \<open>e\<close> consists of entries with the sizes \<open>ns\<close>.\<close>

fun mmap_entries :: "mem \<Rightarrow> u32 \<Rightarrow> u32 \<Rightarrow> u32 list \<Rightarrow> bool" where
  "mmap_entries m a e [] \<longleftrightarrow> a = e"
| "mmap_entries m a e (n # ns) \<longleftrightarrow> a < e \<and> get32 m a = n \<and> mmap_entries m (a + n + 4) e ns"

lemma mmap_walk_ends: "mmap_entries m a e ns \<Longrightarrow> mmap_walk m a e = Some e"
  by (induction ns arbitrary: a) (subst mmap_walk.simps, simp)+

definition boot_info_ok :: "mem \<Rightarrow> u32 \<Rightarrow> bool" where
  "boot_info_ok m mbi \<longleftrightarrow> \<not> (CHECK_FLAG (mbi_flags m mbi) 4 \<and> CHECK_FLAG (mbi_flags m mbi) 5)
     \<and> (CHECK_FLAG (mbi_flags m mbi) 2 \<longrightarrow> (\<exists>s. cstr m (cmdline m mbi) s))
     \<and> (CHECK_FLAG (mbi_flags m mbi) 6
        \<longrightarrow> (\<exists>ns. mmap_entries m (mmap_addr m mbi) (mmap_addr m mbi + mmap_length m mbi) ns))"

lemma boot_report_ends:
  assumes "boot_info_ok m mbi"
  shows "\<exists>con'. boot_report m mbi con = Some (True, con')"
proof -
  have "string_at m (cmdline m mbi) \<noteq> None" if "CHECK_FLAG (mbi_flags m mbi) 2"
    using assms that by (auto simp: boot_info_ok_def string_at_def strlen_cstr)
  moreover have "\<exists>e. mmap_walk m (mmap_addr m mbi) (mmap_addr m mbi + mmap_length m mbi) = Some e"
    if "CHECK_FLAG (mbi_flags m mbi) 6"
    using assms that mmap_walk_ends by (auto simp: boot_info_ok_def)
  ultimately show ?thesis
    using assms by (auto simp: boot_report_def boot_info_ok_def Let_def)
qed

section \<open>The interrupt lines\<close>

text \<open>Both chips are initialised and exactly the lines \<open>A\<close> are open.\<close>

definition lines_open :: "pic \<Rightarrow> pic \<Rightarrow> nat set \<Rightarrow> io \<Rightarrow> bool" where
  "lines_open pm ps A log \<longleftrightarrow> pic_ready pm ps log \<and> (\<forall>k<16. masked pm ps log k \<longleftrightarrow> k \<notin> A)"

lemma lines_open_kept:
  assumes "lines_open pm ps A log" "pics_kept log log'"
  shows "lines_open pm ps A log'"
proof -
  have "pic_ready pm ps log' = pic_ready pm ps log" "masked pm ps log' k = masked pm ps log k" for k
    by (simp_all only: pic_ready_def masked_def pics_kept_run [OF assms(2)])
  with assms(1) show ?thesis by (simp add: lines_open_def)
qed

lemma lines_open_enable:
  assumes "pic_device pm ps dev" "lines_open pm ps A log" "n < 16"
  shows "lines_open pm ps (insert n A) (enable_irq dev (of_nat n) log)"
  using assms enable_irq_masked [OF assms(1) _ assms(3), of log] by (auto simp: lines_open_def)

lemma lines_open_i8259_init:
  assumes "pic_device pm ps dev"
  shows "lines_open pm ps {2} (ports (i8259_init dev con))"
  using i8259_init_masks(1) [OF assms, of 0] i8259_init_masks(2) [OF assms] by (simp add: lines_open_def)

lemma pics_kept_rtc_write: "pics_kept a log \<Longrightarrow> pics_kept a (snd (rtc_write_rate dev junk r log))"
  by (simp add: rtc_write_rate_def Let_def split_beta pics_kept_outb pics_kept_inb off_pic_def)

lemma lines_open_rtc_init:
  assumes "pic_device pm ps dev" "lines_open pm ps A (ports con)"
  shows "lines_open pm ps (insert 8 A) (ports (snd (rtc_init dev junk con)))"
proof (rule lines_open_kept)
  show "lines_open pm ps (insert 8 A) (enable_irq dev RTC_IRQ_NUM (ports con))"
    using lines_open_enable [OF assms, of 8] by simp
  let ?log = "enable_irq dev RTC_IRQ_NUM (ports con)"
  have "pics_kept (ports (con\<lparr>ports := log\<rparr>)) (ports (printf_lit s (con\<lparr>ports := log\<rparr>)))" for s log
    unfolding printf_lit_def by (rule pics_kept_putc)
  then have "pics_kept ?log log \<Longrightarrow> pics_kept ?log (ports (printf_lit s (con\<lparr>ports := log\<rparr>)))" for s log
    by (simp add: pics_kept_trans)
  then show "pics_kept ?log (ports (snd (rtc_init dev junk con)))"
    by (simp add: rtc_init_def Let_def split_beta pics_kept_rtc_write pics_kept_outb pics_kept_inb off_pic_def)
qed

lemma lines_open_pit_init:
  assumes "pic_device pm ps dev" "lines_open pm ps A log"
  shows "lines_open pm ps (insert 0 A) (pit_init dev log)"
proof -
  have "pics_kept log (outb 0x2E 0x40 (outb 0x9C 0x40 (outb 0x34 0x43 log)))"
    by (simp add: pics_kept_outb off_pic_def)
  from lines_open_enable [OF assms(1) lines_open_kept [OF assms(2) this], of 0]
  show ?thesis by (simp add: pit_init_def)
qed

lemma pics_kept_terminal_open: "pics_kept (ports (display T)) (ports (display (snd (terminal_open n T))))"
proof -
  have "ports (display (terminal_putc n c x y T)) = ports (display T)" for c x y T
    by (simp add: terminal_putc_def Let_def)
  then have "ports (display (for_range 0 (NUM_ROWS * NUM_COLS)
      (\<lambda>i. terminal_putc n SPACE (i mod NUM_COLS) (i div NUM_COLS)) T)) = ports (display T)"
    by (rule for_range_frame [where g = "\<lambda>T. ports (display T)"])
  then show ?thesis
    by (simp add: terminal_open_def terminal_clear_def terminal_refresh_def terminal_set_cursor_def Let_def upd_term_def
        pics_kept_outb off_pic_def)
qed

section \<open>The components after the initialisation\<close>

lemma display_terminal_init [simp]: "display (terminal_init T) = display T"
proof -
  have "display (for_range 0 n (\<lambda>i. upd_term i (f i)) T) = display T" for n f T
    by (rule for_range_frame) (simp add: upd_term_def)
  then show ?thesis by (simp add: terminal_init_def Let_def)
qed

lemma terminals_inv_display [simp]: "terminals_inv (T\<lparr>display := d\<rparr>) = terminals_inv T"
  by (simp add: terminals_inv_def terms_ok_def)

lemma open_accepts:
  assumes "terminals_inv T" "active_term T = 0" "usr_count (term_data_array T 0) = 0"
  shows "accepts 0 [] 0 (snd (terminal_open 0 T))"
proof -
  have "active_term (snd (terminal_open 0 T)) = 0"
    using assms(2,3) touches_clear [of 0 T] by (simp add: terminal_open_def Let_def touches_def)
  moreover have "input_ok (term_data_array (snd (terminal_open 0 T)) 0)"
    using inv_terminal_open [OF assms(1), of 0] by (simp add: terminals_inv_def)
  moreover have "term_data_array (snd (terminal_open 0 T)) 0
      = (flush_input ((flush_input (term_data_array T 0))\<lparr>cur_x := 0, cur_y := 0\<rparr>))\<lparr>is_active := 1\<rparr>"
    using assms(3) by (simp add: terminal_open_def Let_def clear_data)
  ultimately show ?thesis by (simp add: accepts_def) (simp add: pending_def flush_input_def)
qed

lemma keyboard_init_shells:
  "i \<in> {0..<NR_TERM} \<Longrightarrow> shell_active (fst (keyboard_init dev kb log)) i = (if i = 0 then 1 else 0)"
  by (simp add: keyboard_init_def for_range_fill)

lemma init_components_fields:
  fixes benv mbi S
  defines "M' \<equiv> s_machine (init_components benv mbi S)" and "m \<equiv> k_phys (s_machine S)"
  shows "k_phys M' = m" "k_esp M' = k_esp (s_machine S)" "k_ebp M' = k_ebp (s_machine S)" "k_pcbs M' = k_pcbs (s_machine S)"
    and "k_fs M' = fst (fs_init m (mod_start m (mods_addr m mbi)) (mod_end m (mods_addr m mbi)) con)"
    and "k_paging M' = paging_init (e_lay (b_env benv)) (k_paging (s_machine S))"
    and "k_pids M' = init_tasks (init_tasks (k_pids (s_machine S)))" "k_sched M' = clear_sched (k_sched (s_machine S))"
    and "s_idt (init_components benv mbi S) = boot_idt (b_handlers benv) (s_idt S)"
    and "s_tss_desc (init_components benv mbi S) = s_tss_desc S" "s_ldt_desc (init_components benv mbi S) = s_ldt_desc S"
    and "i \<in> {0..<NR_TERM} \<Longrightarrow> shell_active (s_keyboard (init_components benv mbi S)) i = (if i = 0 then 1 else 0)"
  by (simp_all add: M'_def m_def init_components_def on_con_def on_machine_def on_display_def on_ports_def Let_def split_beta
      fs_init_def scheduling_init_def boot_idt_def keyboard_init_shells)

lemma init_components_terms:
  fixes benv mbi S
  defines "M' \<equiv> s_machine (init_components benv mbi S)"
  shows "terminals_inv (k_terms M')" "accepts 0 [] 0 (k_terms M')" "usr_count (term_data_array (k_terms M') 0) = 0"
    and "pic_device pm ps (e_dev (b_env benv)) \<Longrightarrow> lines_open pm ps {0, 1, 2, 8} (ports (display (k_terms M')))"
proof -
  define dev where "dev = e_dev (b_env benv)"
  define m where "m = k_phys (s_machine S)"
  define c1 where "c1 = i8259_init dev (snd (fs_init m (mod_start m (mods_addr m mbi)) (mod_end m (mods_addr m mbi)) (s_con S)))"
  define T1 where "T1 = terminal_init ((k_terms (s_machine S))\<lparr>display := c1\<rparr>)"
  define c2 where "c2 = snd (rtc_init dev (e_byte (b_env benv)) c1)"
  define c3 where "c3 = c2\<lparr>ports := enable_irq dev KEYBOARD_IRQ_NUM (ports c2)\<rparr>"
  define T2 where "T2 = snd (terminal_open 0 (T1\<lparr>display := c3\<rparr>))"
  define c4 where "c4 = printf_lit (''Enabled Scheduling'' @ [CHR 0x0A]) (display T2)"
  define d where "d = clear (c4\<lparr>ports := pit_init dev (ports c4)\<rparr>)"
  have M': "k_terms M' = T2\<lparr>display := d\<rparr>"
    by (simp add: M'_def T2_def T1_def d_def c4_def c3_def c2_def c1_def m_def dev_def init_components_def on_con_def on_machine_def
        on_display_def on_ports_def Let_def split_beta scheduling_init_def keyboard_init_def)
  have T1: "terminals_inv T1" "active_term T1 = 0" "usr_count (term_data_array T1 0) = 0"
    by (simp_all add: T1_def inv_terminal_init terminal_init_data zero_term_data_def)
  show "terminals_inv (k_terms M')"
    unfolding M' T2_def using inv_terminal_open [of "T1\<lparr>display := c3\<rparr>" 0] T1(1) by simp
  show "accepts 0 [] 0 (k_terms M')"
    unfolding M' T2_def using open_accepts [of "T1\<lparr>display := c3\<rparr>"] T1 by (simp add: accepts_def)
  show "usr_count (term_data_array (k_terms M') 0) = 0"
    unfolding M' T2_def using T1(3) by (simp add: terminal_open_def Let_def clear_data flush_input_def)
  assume dev: "pic_device pm ps (e_dev (b_env benv))"
  then have dev: "pic_device pm ps dev" by (simp add: dev_def)
  have "lines_open pm ps {1, 8, 2} (ports c3)"
    using lines_open_enable [OF dev lines_open_rtc_init [OF dev lines_open_i8259_init [OF dev]], of 1]
    by (simp add: c3_def c2_def c1_def)
  moreover have "pics_kept (ports c3) (ports (display T2))"
    using pics_kept_terminal_open [of "T1\<lparr>display := c3\<rparr>" 0] by (simp add: T2_def)
  moreover have "pics_kept (ports (display T2)) (ports c4)"
    unfolding c4_def printf_lit_def by (rule pics_kept_putc)
  ultimately have "lines_open pm ps {1, 8, 2} (ports c4)"
    using lines_open_kept by blast
  moreover have "insert 0 {1, 8, 2} = {0, 1, 2, 8 :: nat}" by auto
  ultimately show "lines_open pm ps {0, 1, 2, 8} (ports (display (k_terms M')))"
    using lines_open_pit_init [OF dev, of "{1, 8, 2}" "ports c4"] by (simp add: M' d_def)
qed

section \<open>Segment descriptors\<close>

text \<open>The base address and the limit a descriptor has for the processor.\<close>

definition seg_base :: "seg_desc \<Rightarrow> u32" where
  "seg_base d = push_bit 24 (ucast (base_31_24 d)) OR push_bit 16 (ucast (base_23_16 d)) OR ucast (base_15_00 d)"

definition seg_limit :: "seg_desc \<Rightarrow> u32" where
  "seg_limit d = push_bit 16 (ucast (seg_lim_19_16 d)) OR ucast (seg_lim_15_00 d)"

lemma split_address:
  "push_bit 24 (ucast (ucast (drop_bit 24 (a AND 0xFF000000)) :: u8)) OR
   push_bit 16 (ucast (ucast (drop_bit 16 (a AND 0x00FF0000)) :: u8)) OR ucast (ucast (a AND 0x0000FFFF) :: u16) = (a :: u32)"
proof -
  have masks: "(0xFF000000 :: u32) = push_bit 24 (mask 8)" "(0x00FF0000 :: u32) = push_bit 16 (mask 8)" "(0x0000FFFF :: u32) = mask 16"
    by (simp_all add: push_bit_eq_mult mask_eq_exp_minus_1)
  show ?thesis unfolding masks
    apply (rule bit_eqI)
    subgoal for n by (cases "n < 24"; cases "n < 16") (auto simp: bit_simps)
    done
qed

lemma split_limit:
  "push_bit 16 (ucast (ucast (drop_bit 16 (a AND 0x000F0000)) :: 4 word)) OR ucast (ucast (a AND 0x0000FFFF) :: u16)
    = take_bit 20 (a :: u32)"
proof -
  have masks: "(0x000F0000 :: u32) = push_bit 16 (mask 4)" "(0x0000FFFF :: u32) = mask 16"
    by (simp_all add: push_bit_eq_mult mask_eq_exp_minus_1)
  show ?thesis unfolding masks by (rule bit_eqI) (auto simp: bit_simps)
qed

lemma descriptors:
  "seg_base (the_ldt_desc a n j) = a" "seg_limit (the_ldt_desc a n j) = take_bit 20 n"
  "seg_base (the_tss_desc a n j) = a" "seg_limit (the_tss_desc a n j) = take_bit 20 n"
  unfolding seg_base_def seg_limit_def the_ldt_desc_def the_tss_desc_def SET_LDT_PARAMS_def SET_TSS_PARAMS_def
  using split_address split_limit by simp_all

section \<open>From power-on to the shell\<close>

lemma boot_paging:
  assumes "layout_ok lay"
  shows "translate lay (paging_init lay s) False True PROGRAM_START = None"
proof -
  have "running lay (paging_init lay s) 0" by (simp add: running_def paging_init_def page_dir_addr_def Let_def)
  moreover have "pde_present (page_dir_table (paging_init lay s) 0 32) = 0"
    by (simp add: paging_init_def Let_def set_pde_loop)
  ultimately show ?thesis
    using running_dir [OF assms, of "paging_init lay s" 0] by (simp add: translate_def allowed_pde)
qed

text \<open>The file system the boot loader passes as the first module.\<close>

definition boot_fs :: "mem \<Rightarrow> u32 \<Rightarrow> fs" where
  "boot_fs m mbi = (let b = mod_start m (mods_addr m mbi) in
     \<lparr>boot_block = b, fs_end = mod_end m (mods_addr m mbi), num_directories = dir_entry_num m b, num_inodes = inode_num m b\<rparr>)"

text \<open>The system as the boot loader leaves it: the boot information is well formed, the first module
  is a file system with an ELF file \<^verbatim>\<open>shell\<close>, the page directories are zero as static data is, and
  the stack pointer is on the boot stack below 8 MB.\<close>

definition bootable :: "boot_env \<Rightarrow> u32 \<Rightarrow> system \<Rightarrow> u32 set \<Rightarrow> u8 list list \<Rightarrow> nat \<Rightarrow> u32 \<Rightarrow> bool" where
  "bootable benv mbi S P names i inode \<longleftrightarrow>
     (let M = s_machine S; m = k_phys M; env = b_env benv; fs = boot_fs m mbi in
       boot_info_ok m mbi \<and> layout_ok (e_lay env) \<and> on_stack 0 (k_esp M)
     \<and> (\<forall>p i. 1 \<le> p \<and> p < MAX_PID \<and> 0 \<le> i \<and> i < PAGE_SIZE \<longrightarrow> pde_present (page_dir_table (k_paging M) p i) = 0)
     \<and> frames_ok env \<and> safe_region env P \<and> shell_frame env P
     \<and> stored_program P fs m names i inode \<and> find (\<lambda>i. names ! i = shell_string) [0..<length names] = Some i
     \<and> take 4 (drop 24 (file_bytes fs m inode)) \<noteq> replicate 4 0xFF)"

lemma boot_can_start:
  assumes "bootable benv mbi S P names i inode"
    and "M' = s_machine (init_components benv mbi S)"
  shows "can_start (b_env benv) M' shell_string P names i inode" "image_apart (b_env benv) M'"
    and "file_bytes (k_fs M') (view (b_env benv) M') inode = file_bytes (boot_fs (k_phys (s_machine S)) mbi) (k_phys (s_machine S)) inode"
proof -
  note b = assms(1) [unfolded bootable_def Let_def] and f = init_components_fields [where benv = benv and mbi = mbi and S = S, folded assms(2)]
  let ?m = "k_phys (s_machine S)" and ?env = "b_env benv"
  have fs: "k_fs M' = boot_fs ?m mbi" using f(5) by (simp add: boot_fs_def fs_init_def Let_def)
  have "view ?env M' a = ?m a" if "a \<in> P" for a
    using that b f(1) by (simp add: safe_region_def view_kernel)
  note sp = stored_program_agree [of P "boot_fs ?m mbi" ?m names i inode "view ?env M'", OF _ this]
  have pg: "paging_ok (e_lay ?env) (k_paging M')" unfolding f(6) using b by (intro paging_init_ok) simp
  show "can_start ?env M' shell_string P names i inode"
    using b pg sp by (simp add: can_start_def fs)
  show "file_bytes (k_fs M') (view ?env M') inode = file_bytes (boot_fs ?m mbi) ?m inode"
    using b sp(2) by (simp add: fs)
  show "image_apart ?env M'"
    using b f(6) boot_paging by (intro image_apart_unmapped) simp_all
qed

lemma first_pid: "tasks_pid_new (init_tasks a) = (1, (init_tasks a)(1 := IN_USE))"
  unfolding tasks_pid_new_def by (rule tasks_pid_new_loop_first) (simp_all add: init_tasks_def for_range_fill)

lemma entry_starts:
  assumes "bootable benv mbi S P names i inode"
  obtains S1 where "entry benv MULTIBOOT_BOOTLOADER_MAGIC mbi S = start_shell benv (init_components benv mbi S1)"
    and "bootable benv mbi S1 P names i inode" "s_idt S1 = s_idt S" "k_phys (s_machine S1) = k_phys (s_machine S)"
    and "s_ldt_desc S1 = the_ldt_desc (b_ldt benv) (b_ldt_size benv) (b_junk benv)"
    and "s_tss_desc S1 = the_tss_desc (b_tss benv) (b_tss_size benv) (b_junk benv)"
proof -
  let ?m = "k_phys (s_machine S)"
  have "boot_info_ok ?m mbi" using assms by (simp add: bootable_def Let_def)
  then obtain con where con: "boot_report ?m mbi (clear (s_con S)) = Some (True, con)" using boot_report_ends by blast
  define S1 where "S1 = init_descriptors benv (on_con (\<lambda>_. con) S)"
  have frame: "k_phys (s_machine S1) = ?m" "k_esp (s_machine S1) = k_esp (s_machine S)"
    "k_paging (s_machine S1) = k_paging (s_machine S)"
    by (simp_all add: S1_def init_descriptors_def on_con_def on_machine_def on_display_def set_tss_def Let_def)
  have "on_con (\<lambda>_. con) (on_con clear S) = on_con (\<lambda>_. con) S" by (simp add: on_con_def on_machine_def on_display_def)
  moreover have "s_con (on_con clear S) = clear (s_con S)" "k_phys (s_machine (on_con clear S)) = ?m"
    by (simp_all add: on_con_def on_machine_def on_display_def)
  ultimately have "entry benv MULTIBOOT_BOOTLOADER_MAGIC mbi S = start_shell benv (init_components benv mbi S1)"
    by (simp add: entry_def con S1_def Let_def)
  moreover have "bootable benv mbi S1 P names i inode" using assms unfolding bootable_def Let_def frame .
  ultimately show thesis
    by (rule that [OF _ _ _ frame(1)]) (simp_all add: S1_def init_descriptors_def on_con_def on_machine_def Let_def)
qed

lemma shell_machine:
  assumes "loaded env M 1 usage bytes args v M1" "M' = shell_entered n 0 1 a M M1"
  shows "maps_image env 1 M'" "load (view env M') 0x8048000 (length bytes) = bytes" "paging_ok (e_lay env) (k_paging M')"
    and "map (\<lambda>j. ucast (drop_bit (8 * j) v)) [0..<4] = take 4 (drop 24 bytes)"
    and "k_pids M' = usage" "k_sched M' = (k_sched M)(1 := 1)" "on_stack 1 (k_esp0 M')" "k_terms M' = snd (terminal_open n (k_terms M))"
    and "pcb_pid (pcb_of 1 M') = 1" "parent_pcb (pcb_of 1 M') = 0" "pcb_term (pcb_of 1 M') = n" "open_fds (pcb_of 1 M') = {}"
proof -
  have pg: "k_paging M' = k_paging M1" "k_phys M' = k_phys M1" by (simp_all add: assms(2) shell_entered_def)
  show "maps_image env 1 M'" "load (view env M') 0x8048000 (length bytes) = bytes" "paging_ok (e_lay env) (k_paging M')"
    "map (\<lambda>j. ucast (drop_bit (8 * j) v)) [0..<4] = take 4 (drop 24 bytes)"
    using assms(1) view_cong [OF pg] maps_image_cong [OF pg(1)] by (simp_all add: loaded_def pg(1))
  show "k_pids M' = usage" using loaded_fields(5) [OF assms(1)] by (simp add: assms(2) shell_entered_def)
  show "k_sched M' = (k_sched M)(1 := 1)" "k_terms M' = snd (terminal_open n (k_terms M))"
    by (simp_all add: assms(2) shell_entered_def)
  show "on_stack 1 (k_esp0 M')" using on_stack_offset [of 1 "0x1FFC"] by (simp add: assms(2) shell_entered_def)
  have "get_pcb 1 \<noteq> get_pcb 0" using get_pcb_eq_iff [of 1 0] by simp
  then have "pcb_of 1 M' = shell_pcb n 1 a M" by (simp add: assms(2) shell_entered_def pcb_of_def)
  then show "pcb_pid (pcb_of 1 M') = 1" "parent_pcb (pcb_of 1 M') = 0" "pcb_term (pcb_of 1 M') = n" "open_fds (pcb_of 1 M') = {}"
    using pcb_init_fds [of "pcb_of 1 M"] by (simp_all add: shell_pcb_def open_fds_def del: pcb_init_fds)
qed

section \<open>Properties\<close>

text \<open>C4: The kernel boots into the shell.  When the boot loader passes its magic number, well-formed boot
  information and, as first module, a file system with an ELF file \<^verbatim>\<open>shell\<close>, then \<open>entry\<close> ends in user
  mode at the entry point stored in that file: process 1 has its own page directory loaded and
  the whole file at 0x08048000, it is the only process and the only one in the run queue, on
  terminal 0 with no parent and no open file.  The invariants of the paging and terminal components hold,
  terminal 0 is ready for input, exactly the interrupt lines of the timer, the keyboard,
  the cascade and the clock are open, the descriptor table has every handler, and the segment
  descriptors describe the local descriptor table and the task state segment.  With any other
  magic number \<open>entry\<close> returns and only the console has changed.\<close>

theorem boot_reaches_shell:
  assumes "bootable benv mbi S P names i inode" "pic_device pm ps (e_dev (b_env benv))"
  shows "\<exists>eip S'. entry benv MULTIBOOT_BOOTLOADER_MAGIC mbi S = Some (Shell eip, S')
    \<and> (let M = s_machine S'; env = b_env benv; m = k_phys (s_machine S); bytes = file_bytes (boot_fs m mbi) m inode in
        map (\<lambda>j. ucast (drop_bit (8 * j) eip)) [0..<4] = take 4 (drop 24 bytes)
      \<and> maps_image env 1 M \<and> load (view env M) 0x8048000 (length bytes) = bytes \<and> paging_ok (e_lay env) (k_paging M)
      \<and> live_pids (k_pids M) = {1} \<and> runnable (k_sched M) = {1} \<and> on_stack 1 (k_esp0 M)
      \<and> pcb_pid (pcb_of 1 M) = 1 \<and> parent_pcb (pcb_of 1 M) = 0 \<and> pcb_term (pcb_of 1 M) = 0 \<and> open_fds (pcb_of 1 M) = {}
      \<and> terminals_inv (k_terms M) \<and> accepts 0 [] 0 (k_terms M)
      \<and> lines_open pm ps {0, 1, 2, 8} (ports (display (k_terms M)))
      \<and> s_idt S' = boot_idt (b_handlers benv) (s_idt S)
      \<and> seg_base (s_ldt_desc S') = b_ldt benv \<and> seg_limit (s_ldt_desc S') = take_bit 20 (b_ldt_size benv)
      \<and> seg_base (s_tss_desc S') = b_tss benv \<and> seg_limit (s_tss_desc S') = take_bit 20 (b_tss_size benv))
    \<and> (\<forall>magic. magic \<noteq> MULTIBOOT_BOOTLOADER_MAGIC \<longrightarrow> (\<exists>con. entry benv magic mbi S = Some (Returned, on_con (\<lambda>_. con) S)))"
proof (rule entry_starts [OF assms(1)])
  fix S1
  let ?env = "b_env benv" and ?m = "k_phys (s_machine S)"
  assume 1: "entry benv MULTIBOOT_BOOTLOADER_MAGIC mbi S = start_shell benv (init_components benv mbi S1)"
    "bootable benv mbi S1 P names i inode" "s_idt S1 = s_idt S" "k_phys (s_machine S1) = ?m"
    "s_ldt_desc S1 = the_ldt_desc (b_ldt benv) (b_ldt_size benv) (b_junk benv)"
    "s_tss_desc S1 = the_tss_desc (b_tss benv) (b_tss_size benv) (b_junk benv)"
  define S2 where "S2 = init_components benv mbi S1"
  define M2 where "M2 = s_machine S2"
  have M2: "M2 = s_machine (init_components benv mbi S1)" by (simp add: M2_def S2_def)
  note f = init_components_fields [where benv = benv and mbi = mbi and S = S1, folded S2_def, folded M2_def]
    and t = init_components_terms [where benv = benv and mbi = mbi and S = S1, folded S2_def, folded M2_def]
    and st = boot_can_start [OF 1(2) M2, unfolded 1(4)]
  have pid: "tasks_pid_new (k_pids M2) = (1, (k_pids M2)(1 := IN_USE))"
    using f(7) first_pid by simp
  have o: "on_stack 0 (k_esp M2)" "shell_frame ?env P" using 1(2) f(2) by (simp_all add: bootable_def Let_def)
  obtain v M1 a args where l: "loaded ?env M2 1 ((k_pids M2)(1 := IN_USE)) (file_bytes (boot_fs ?m mbi) ?m inode) args v M1"
    and s: "syscall_init_shell ?env 0 M2 = Some (Enter_user v, shell_entered 0 0 1 a M2 M1)"
    by (rule init_shell_enters [OF o(1) _ st(2,1) o(2) pid, where n = 0]) (simp_all add: st(3))
  define M3 where "M3 = shell_entered 0 0 1 a M2 M1"
  note m = shell_machine [OF l M3_def]
  have "entry benv MULTIBOOT_BOOTLOADER_MAGIC mbi S = Some (Shell v, S2\<lparr>s_machine := M3\<rparr>)"
    using s unfolding 1(1) by (simp add: start_shell_def S2_def M2_def M3_def)
  moreover have "live_pids (k_pids M3) = {1}"
    unfolding m(5) f(7) using live_pids_init by (auto simp: live_pids_def)
  moreover have "runnable (k_sched M3) = {1}" by (auto simp: m(6) f(8) runnable_def clear_sched_def for_range_fill)
  moreover have "terminals_inv (k_terms M3)" unfolding m(8) by (rule inv_terminal_open [OF t(1)]) simp
  moreover have "accepts 0 [] 0 (k_terms M3)" unfolding m(8) using t(1-3) by (intro open_accepts) (simp_all add: accepts_def)
  moreover have "lines_open pm ps {0, 1, 2, 8} (ports (display (k_terms M3)))"
    unfolding m(8) by (rule lines_open_kept [OF t(4) [OF assms(2)] pics_kept_terminal_open])
  moreover have "\<exists>con. entry benv magic mbi S = Some (Returned, on_con (\<lambda>_. con) S)"
    if "magic \<noteq> MULTIBOOT_BOOTLOADER_MAGIC" for magic
    using that by (auto simp: entry_def on_con_def on_machine_def on_display_def Let_def)
  ultimately show ?thesis
    using m f(9-11) descriptors 1(3,5,6) by (intro exI [of _ v] exI [of _ "S2\<lparr>s_machine := M3\<rparr>"]) (simp add: Let_def)
qed

text \<open>A boot loader that passes one module and a memory map of one entry; the module is the sample
  file system with its file renamed to \<^verbatim>\<open>shell\<close>.\<close>

definition boot_image :: mem where
  "boot_image = store (store (store (store sample_image
     0x500040 [0x73, 0x68, 0x65, 0x6C, 0x6C])
     0x10000 [0x48, 0, 0, 0,  0, 0, 0, 0,  0, 0, 0, 0,  0, 0, 0, 0,  0, 0, 0, 0,  1, 0, 0, 0,  0, 1, 1, 0,
              0, 0, 0, 0,  0, 0, 0, 0,  0, 0, 0, 0,  0, 0, 0, 0,  24, 0, 0, 0,  0, 2, 1, 0])
     0x10100 [0, 0, 0x50, 0,  0, 0x30, 0x50, 0])
     0x10200 [20, 0, 0, 0]"

definition power_on :: pic where
  "power_on = \<lparr>imr = 0, vector_base = 0, icws_left = 0\<rparr>"

definition zero_desc :: seg_desc where
  "zero_desc = \<lparr>seg_lim_15_00 = 0, base_15_00 = 0, base_23_16 = 0, seg_type = 0, seg_sys = 0, seg_dpl = 0, seg_present = 0,
     seg_lim_19_16 = 0, seg_avail = 0, seg_reserved = 0, seg_opsize = 0, seg_granularity = 0, base_31_24 = 0\<rparr>"

definition sample_boot_env :: boot_env where
  "sample_boot_env = \<lparr>b_env = sample_env\<lparr>e_dev := (\<lambda>log port. if port = MASTER_MASK_8259_PORT
       then imr (master power_on log) else imr (slave power_on log))\<rparr>,
     b_handlers = (\<lambda>_. 0x401000), b_ldt = 0x420000, b_ldt_size = 31, b_tss = 0x420100, b_tss_size = 103, b_idt_desc = 0x420200,
     b_junk = zero_desc\<rparr>"

definition sample_system :: system where
  "sample_system = \<lparr>s_machine = sample_machine\<lparr>k_phys := boot_image, k_paging := zero_paging, k_esp := get_pcb 0 + 0x1F00\<rparr>,
     s_keyboard = \<lparr>caps_lock = 0, shift = 0, control = 0, alt = 0, shell_active = (\<lambda>_. 0)\<rparr>, 
     s_idt = (\<lambda>_. \<lparr>offset_15_00 = 0, seg_selector = 0, reserved4 = 0, reserved3 = 0, reserved2 = 0, reserved1 = 0, size_bit = 0,
       reserved0 = 0, dpl = 0, present = 0, offset_31_16 = 0\<rparr>),
     s_ldt_desc = zero_desc, s_tss_desc = zero_desc, s_tss_ldt = 0, s_ldtr = 0, s_tr = 0, s_idtr = 0\<rparr>"

lemma boot_image_info: "boot_info_ok boot_image 0x10000" "boot_fs boot_image 0x10000 = sample_fs"
proof -
  have f: "mbi_flags boot_image 0x10000 = 0x48" "mods_addr boot_image 0x10000 = 0x10100"
    "mmap_addr boot_image 0x10000 = 0x10200" "mmap_length boot_image 0x10000 = 24"
    by (simp_all add: mbi_flags_def mods_addr_def mmap_addr_def mmap_length_def get32_def boot_image_def store_def)
  have "get32 boot_image 0x10200 = 20" by (simp add: get32_def boot_image_def store_def)
  then have "mmap_entries boot_image 0x10200 0x10218 [20]" by simp
  then have "Ex (mmap_entries boot_image 0x10200 0x10218)" by (rule exI)
  then show "boot_info_ok boot_image 0x10000" by (simp add: boot_info_ok_def f CHECK_FLAG_def)
  have "mod_start boot_image 0x10100 = 0x500000" "mod_end boot_image 0x10100 = 0x503000"
    by (simp_all add: mod_start_def mod_end_def get32_def boot_image_def store_def)
  moreover have "dir_entry_num boot_image 0x500000 = 1" "inode_num boot_image 0x500000 = 1"
    by (simp_all add: dir_entry_num_def inode_num_def get32_def boot_image_def sample_image_def store_def)
  ultimately show "boot_fs boot_image 0x10000 = sample_fs" by (simp add: boot_fs_def f sample_fs_def)
qed

lemma boot_image_file:
  shows "stored_program {0x500000..<0x503000} sample_fs boot_image [shell_string] 0 0"
    and "file_bytes sample_fs boot_image 0 = file_bytes sample_fs sample_image 0"
proof -
  have "boot_image a = sample_image a" if "a \<in> footprint sample_fs sample_image 0" for a
  proof -
    have "a \<in> {0x500004, 0x500005, 0x500006, 0x500007, 0x501000, 0x501001, 0x501002, 0x501003,
        0x501004, 0x501005, 0x501006, 0x501007} \<union> (\<lambda>k. 0x502000 + of_nat k) ` {..28}"
      using that by (auto simp: footprint_def sample_length sample_inode sample_byte_at) (simp_all add: sample_fs_def)
    then have a: "unat a \<in> {0x500004..<0x500008} \<union> {0x501000..<0x503000}"
      by (auto simp: unat_word_ariths unat_of_nat_u32)
    have "\<not> unat (a - b) < n" if "unat b + n \<le> 0x500004 \<or> (0x500008 \<le> unat b \<and> unat b + n \<le> 0x501000)" for b n
      using offset_less_iff [of b n a] a that by auto
    then show ?thesis by (simp add: boot_image_def store_def)
  qed
  note f = file_agree [OF this]
  show "file_bytes sample_fs boot_image 0 = file_bytes sample_fs sample_image 0" by (rule f(2))
  have "0x500040 + of_nat k \<in> {0x500000..<0x503000 :: u32}" if "k < 64" for k
    using that by (simp add: word_le_nat_alt word_less_nat_alt unat_word_ariths unat_of_nat_u32)
  moreover have "directory sample_fs boot_image [shell_string]"
    by (simp add: directory_def cstr_def load_def dentry_directory_def sample_fs_def boot_image_def sample_image_def store_def upt_rec)
  moreover have "inode_index_of boot_image 0x500040 = 0"
    by (simp add: inode_index_of_def boot_image_def sample_image_def get32_def store_def)
  moreover have "file_length sample_fs boot_image 0 = 28" "take 4 (file_bytes sample_fs boot_image 0) = [0x7f, 0x45, 0x4c, 0x46]"
    "footprint sample_fs boot_image 0 \<subseteq> {0x500000..<0x503000}" "boot_block sample_fs = 0x500000"
    using sample_length sample_magic sample_footprint by (simp_all add: f subset_iff) (simp add: sample_fs_def)
  ultimately show "stored_program {0x500000..<0x503000} sample_fs boot_image [shell_string] 0 0"
    by (simp add: stored_program_def dentry_directory_def)
qed

lemma sample_bootable: "bootable sample_boot_env 0x10000 sample_system {0x500000..<0x503000} [shell_string] 0 0"
proof -
  let ?env = "b_env sample_boot_env" and ?P = "{0x500000..<0x503000 :: u32}"
  have fr: "frames ?env = frames sample_env" by (simp add: frames_def sample_boot_env_def)
  have "frames_ok ?env" "safe_region ?env ?P" using sample_frames by (simp_all add: frames_ok_def safe_region_def fr)
  moreover have "clear_of ?P 0x450010 6"
    unfolding clear_of_def
  proof
    fix x :: u32 assume "x \<in> ?P"
    then have "0x500000 \<le> unat x" by (simp add: word_le_nat_alt)
    then have "\<not> unat (x - 0x450010) < 6" using offset_less_iff [of "0x450010" 6 x] by simp
    then show "6 \<le> unat (x - 0x450010)" by simp
  qed
  then have "shell_frame ?env ?P" by (simp add: shell_frame_def sample_boot_env_def sample_env_def in_kernel_def disjoint_blocks_def)
  moreover have "take 4 (drop 24 (file_bytes sample_fs boot_image 0)) \<noteq> replicate 4 0xFF"
    using sample_can_start sample_file(2) boot_image_file(2) by (simp add: can_start_def sample_machine_def)
  moreover have "on_stack 0 (get_pcb 0 + 0x1F00)" using on_stack_offset [of 0 "0x1F00"] by simp
  moreover have "layout_ok (e_lay ?env)" using sample_layout_ok by (simp add: sample_boot_env_def sample_env_def)
  ultimately show ?thesis
    using boot_image_info boot_image_file(1) by (simp add: bootable_def sample_system_def zero_paging_def)
qed

theorem boot_reaches_shell_witness:
  "\<exists>eip S'. entry sample_boot_env MULTIBOOT_BOOTLOADER_MAGIC 0x10000 sample_system = Some (Shell eip, S')
    \<and> live_pids (k_pids (s_machine S')) = {1} \<and> \<not> masked power_on power_on (ports (s_con S')) 1"
proof -
  have "pic_device power_on power_on (e_dev (b_env sample_boot_env))" by (simp add: pic_device_def sample_boot_env_def)
  from boot_reaches_shell [OF sample_bootable this] show ?thesis by (auto simp: Let_def lines_open_def)
qed

end
