(* ===== verification/Programs.thy ===== *)
theory Programs
  imports Shell "HOL-Library.Monad_Syntax"
begin

text \<open>
  User programs: the library \<^verbatim>\<open>syscalls/ece391support.c\<close>, the call stubs of \<^verbatim>\<open>syscalls/ece391syscall.S\<close>
  and the programs \<^verbatim>\<open>cat\<close>, \<^verbatim>\<open>ls\<close>, \<^verbatim>\<open>grep\<close>, \<^verbatim>\<open>hello\<close>, \<^verbatim>\<open>testprint\<close>, \<^verbatim>\<open>counter\<close> and \<^verbatim>\<open>shell\<close>.  A program is a
  function of the system calls, a record \<open>calls\<close> over any state that has a memory, of the addresses
  \<open>lit\<close> of its string literals and of its local arrays; it returns the status \<^verbatim>\<open>main\<close> returns.
  What a program relies on is a locale: \<open>file_to_terminal\<close> when it copies a file to the terminal,
  \<open>line_terminal\<close> when it talks to the user.
\<close>

section \<open>System calls\<close>

record 's calls =
  ece391_execute :: "u32 \<Rightarrow> 's \<Rightarrow> (int \<times> 's) option"
  ece391_read :: "int \<Rightarrow> u32 \<Rightarrow> int \<Rightarrow> 's \<Rightarrow> (int \<times> 's) option"
  ece391_write :: "int \<Rightarrow> u32 \<Rightarrow> int \<Rightarrow> 's \<Rightarrow> (int \<times> 's) option"
  ece391_open :: "u32 \<Rightarrow> 's \<Rightarrow> (int \<times> 's) option"
  ece391_close :: "int \<Rightarrow> 's \<Rightarrow> (int \<times> 's) option"
  ece391_getargs :: "u32 \<Rightarrow> int \<Rightarrow> 's \<Rightarrow> (int \<times> 's) option"
  ece391_vidmap :: "u32 \<Rightarrow> 's \<Rightarrow> (int \<times> 's) option"
  ece391_set_handler :: "int \<Rightarrow> u32 \<Rightarrow> 's \<Rightarrow> (int \<times> 's) option"
  ece391_sigreturn :: "'s \<Rightarrow> (int \<times> 's) option"
  call_sys :: "u32 \<Rightarrow> 's \<Rightarrow> (int \<times> 's) option"
  peek :: "'s \<Rightarrow> mem"
  poke :: "mem \<Rightarrow> 's \<Rightarrow> 's"

section \<open>The support library\<close>

partial_function (option) ece391_strlen_loop :: "mem \<Rightarrow> u32 \<Rightarrow> u32 \<Rightarrow> u32 option" where
  "ece391_strlen_loop m s len = (if m s \<noteq> 0 then ece391_strlen_loop m (s + 1) (len + 1) else Some len)"

definition ece391_strlen :: "mem \<Rightarrow> u32 \<Rightarrow> u32 option" where
  "ece391_strlen m s = ece391_strlen_loop m s 0"

partial_function (option) ece391_strcpy :: "mem \<Rightarrow> u32 \<Rightarrow> u32 \<Rightarrow> mem option" where
  "ece391_strcpy m dst src =
     (let c = m src; m = m(dst := c) in if c \<noteq> 0 then ece391_strcpy m (dst + 1) (src + 1) else Some m)"

definition ece391_fdputs :: "'s calls \<Rightarrow> int \<Rightarrow> u32 \<Rightarrow> 's \<Rightarrow> 's option" where
  "ece391_fdputs c fd s S =
     do { n \<leftarrow> ece391_strlen (peek c S) s; (_, S) \<leftarrow> ece391_write c fd s (sint n) S; Some S }"

partial_function (option) ece391_strcmp :: "mem \<Rightarrow> u32 \<Rightarrow> u32 \<Rightarrow> int option" where
  "ece391_strcmp m s1 s2 =
     (if m s1 = m s2 then if m s1 = 0 then Some 0 else ece391_strcmp m (s1 + 1) (s2 + 1)
      else Some (uint (m s1) - uint (m s2)))"

partial_function (option) ece391_strncmp_loop :: "mem \<Rightarrow> u32 \<Rightarrow> u32 \<Rightarrow> u32 \<Rightarrow> int option" where
  "ece391_strncmp_loop m s1 s2 n =
     (if m s1 = m s2
      then if m s1 = 0 \<or> n - 1 = 0 then Some 0 else ece391_strncmp_loop m (s1 + 1) (s2 + 1) (n - 1)
      else Some (uint (m s1) - uint (m s2)))"

definition ece391_strncmp :: "mem \<Rightarrow> u32 \<Rightarrow> u32 \<Rightarrow> u32 \<Rightarrow> int option" where
  "ece391_strncmp m s1 s2 n = (if n = 0 then Some 0 else ece391_strncmp_loop m s1 s2 n)"

text \<open>The loops of \<open>ece391_strrev\<close> and \<open>ece391_itoa\<close> have the same text as those of the kernel library.\<close>

definition ece391_strrev :: "mem \<Rightarrow> u32 \<Rightarrow> mem option" where
  "ece391_strrev m s =
     do { n \<leftarrow> ece391_strlen m s;
          let e = sint (n - 1);
          if e \<le> 0 then Some m else Some (strrev_loop m s 0 e) }"

definition ece391_itoa :: "mem \<Rightarrow> u32 \<Rightarrow> u32 \<Rightarrow> u32 \<Rightarrow> mem option" where
  "ece391_itoa m val buf radix =
     (if val = 0 then Some (m(buf := 0x30, buf + 1 := 0))
      else do { (m, newbuf) \<leftarrow> itoa_loop m buf val radix; ece391_strrev (m(newbuf := 0)) buf })"

section \<open>Programs\<close>

text \<open>A message from the program's literals.\<close>

definition say :: "'s calls \<Rightarrow> (string \<Rightarrow> u32) \<Rightarrow> string \<Rightarrow> 's \<Rightarrow> 's option" where
  "say c lit s S = ece391_fdputs c 1 (lit s) S"

definition set_byte :: "'s calls \<Rightarrow> u32 \<Rightarrow> u8 \<Rightarrow> 's \<Rightarrow> 's" where
  "set_byte c a b S = poke c ((peek c S)(a := b)) S"

subsection \<open>cat\<close>

partial_function (option) cat_loop :: "'s calls \<Rightarrow> (string \<Rightarrow> u32) \<Rightarrow> int \<Rightarrow> u32 \<Rightarrow> 's \<Rightarrow> (int \<times> 's) option" where
  "cat_loop c lit fd buf S =
     do { (cnt, S) \<leftarrow> ece391_read c fd buf 1024 S;
          if cnt = 0 then Some (0, S)
          else if cnt = -1 then do { S \<leftarrow> say c lit (''file read failed'' @ [CHR 0x0A]) S; Some (3, S) }
          else do { (r, S) \<leftarrow> ece391_write c 1 buf cnt S;
                    if r = -1 then Some (3, S) else cat_loop c lit fd buf S } }"

definition cat_main :: "'s calls \<Rightarrow> (string \<Rightarrow> u32) \<Rightarrow> u32 \<Rightarrow> 's \<Rightarrow> (int \<times> 's) option" where
  "cat_main c lit buf S =
     do { (r, S) \<leftarrow> ece391_getargs c buf 1024 S;
          if r \<noteq> 0 then do { S \<leftarrow> say c lit (''could not read arguments'' @ [CHR 0x0A]) S; Some (3, S) }
          else do { (fd, S) \<leftarrow> ece391_open c buf S;
                    if fd = -1 then do { S \<leftarrow> say c lit (''file not found'' @ [CHR 0x0A]) S; Some (2, S) }
                    else cat_loop c lit fd buf S } }"

subsection \<open>ls\<close>

partial_function (option) ls_loop :: "'s calls \<Rightarrow> (string \<Rightarrow> u32) \<Rightarrow> int \<Rightarrow> u32 \<Rightarrow> 's \<Rightarrow> (int \<times> 's) option" where
  "ls_loop c lit fd buf S =
     do { (cnt, S) \<leftarrow> ece391_read c fd buf 32 S;
          if cnt = 0 then Some (0, S)
          else if cnt = -1 then do { S \<leftarrow> say c lit (''directory entry read failed'' @ [CHR 0x0A]) S; Some (3, S) }
          else do { (r, S) \<leftarrow> ece391_write c 1 buf (cnt + 1) (set_byte c (buf + of_int cnt) NEWLINE S);
                    if r = -1 then Some (3, S) else ls_loop c lit fd buf S } }"

definition ls_main :: "'s calls \<Rightarrow> (string \<Rightarrow> u32) \<Rightarrow> u32 \<Rightarrow> 's \<Rightarrow> (int \<times> 's) option" where
  "ls_main c lit buf S =
     do { (fd, S) \<leftarrow> ece391_open c (lit ''.'') S;
          if fd = -1 then do { S \<leftarrow> say c lit (''directory open failed'' @ [CHR 0x0A]) S; Some (2, S) }
          else ls_loop c lit fd buf S }"

subsection \<open>hello, testprint and counter\<close>

definition hello_main :: "'s calls \<Rightarrow> (string \<Rightarrow> u32) \<Rightarrow> u32 \<Rightarrow> 's \<Rightarrow> (int \<times> 's) option" where
  "hello_main c lit buf S =
     do { S \<leftarrow> say c lit ''Hi, what's your name? '' S;
          (cnt, S) \<leftarrow> ece391_read c 0 buf 1023 S;
          if cnt = -1 then do { S \<leftarrow> say c lit (''Can't read name from keyboard.'' @ [CHR 0x0A]) S; Some (3, S) }
          else do { S \<leftarrow> say c lit ''Hello, '' (set_byte c (buf + of_int cnt) 0 S);
                    S \<leftarrow> ece391_fdputs c 1 buf S;
                    Some (0, S) } }"

definition testprint_main :: "'s calls \<Rightarrow> (string \<Rightarrow> u32) \<Rightarrow> 's \<Rightarrow> (int \<times> 's) option" where
  "testprint_main c lit S =
     do { S \<leftarrow> say c lit (''Hello, if this ran, the program was correct. Yay!'' @ [CHR 0x0A]) S; Some (0, S) }"

partial_function (option) counter_loop :: "'s calls \<Rightarrow> (string \<Rightarrow> u32) \<Rightarrow> u32 \<Rightarrow> u32 \<Rightarrow> u32 \<Rightarrow> 's \<Rightarrow> (int \<times> 's) option" where
  "counter_loop c lit buf i limit S =
     (if i < limit then
        do { m \<leftarrow> ece391_itoa (peek c S) (i + 1) buf 10;
             S \<leftarrow> ece391_fdputs c 1 buf (poke c m S);
             S \<leftarrow> say c lit [CHR 0x0A] S;
             counter_loop c lit buf (i + 1) limit S }
      else Some (0, S))"

definition counter_main :: "'s calls \<Rightarrow> (string \<Rightarrow> u32) \<Rightarrow> u32 \<Rightarrow> 's \<Rightarrow> (int \<times> 's) option" where
  "counter_main c lit buf S =
     do { S \<leftarrow> say c lit (''Enter the Test Number: (0): 100, (1): 10000, (2): 100000'' @ [CHR 0x0A]) S;
          (cnt, S) \<leftarrow> ece391_read c 0 buf 1023 S;
          if cnt = -1 then do { S \<leftarrow> say c lit (''Can't read the number from keyboard.'' @ [CHR 0x0A]) S; Some (3, S) }
          else do {
            let S = set_byte c (buf + of_int cnt) 0 S;
            n \<leftarrow> ece391_strlen (peek c S) buf;
            let b = peek c S buf;
            if 1 < n \<or> n = 1 \<and> (b < 0x30 \<or> 0x32 < b) then do { S \<leftarrow> say c lit (''Wrong Choice!'' @ [CHR 0x0A]) S; Some (0, S) }
            else counter_loop c lit buf 0 (if b = 0x30 then 100 else if b = 0x31 then 10000 else if b = 0x32 then 100000 else 0) S } }"

subsection \<open>The shell\<close>

text \<open>The message for the status of a command.\<close>

definition shell_report :: "'s calls \<Rightarrow> (string \<Rightarrow> u32) \<Rightarrow> int \<Rightarrow> 's \<Rightarrow> 's option" where
  "shell_report c lit rval S =
     (if rval = -1 then say c lit (''no such command'' @ [CHR 0x0A]) S
      else if rval = 256 then say c lit (''program terminated by exception'' @ [CHR 0x0A]) S
      else if rval \<noteq> 0 then say c lit (''program terminated abnormally'' @ [CHR 0x0A]) S
      else Some S)"

partial_function (option) shell_loop :: "'s calls \<Rightarrow> (string \<Rightarrow> u32) \<Rightarrow> u32 \<Rightarrow> 's \<Rightarrow> (int \<times> 's) option" where
  "shell_loop c lit buf S =
     do { S \<leftarrow> say c lit ''391OS> '' S;
          (cnt, S) \<leftarrow> ece391_read c 0 buf 1023 S;
          if cnt = -1 then do { S \<leftarrow> say c lit (''read from keyboard failed'' @ [CHR 0x0A]) S; Some (3, S) }
          else do {
            let cnt = (if 0 < cnt \<and> peek c S (buf + of_int (cnt - 1)) = NEWLINE then cnt - 1 else cnt);
            let S = set_byte c (buf + of_int cnt) 0 S;
            r \<leftarrow> ece391_strcmp (peek c S) buf (lit ''exit'');
            if r = 0 then Some (0, S)
            else if peek c S buf = 0 then shell_loop c lit buf S
            else do {
              (rval, S) \<leftarrow> ece391_execute c buf S;
              S \<leftarrow> shell_report c lit rval S;
              shell_loop c lit buf S } } }"

definition shell_main :: "'s calls \<Rightarrow> (string \<Rightarrow> u32) \<Rightarrow> u32 \<Rightarrow> 's \<Rightarrow> (int \<times> 's) option" where
  "shell_main c lit buf S = do { S \<leftarrow> say c lit (''Starting 391 Shell'' @ [CHR 0x0A]) S; shell_loop c lit buf S }"

subsection \<open>grep\<close>

function line_end_from :: "mem \<Rightarrow> u32 \<Rightarrow> int \<Rightarrow> int \<Rightarrow> int" where
  "line_end_from m data last' line_end =
     (if line_end < last' \<and> m (data + of_int line_end) \<noteq> NEWLINE then line_end_from m data last' (line_end + 1) else line_end)"
  by pat_completeness auto
termination
  by (relation "measure (\<lambda>(_, _, last', e). nat (last' - e))") auto

text \<open>The search of one line, from \<open>check\<close> on, which prints the line at most once; the pattern is an
  array of signed characters, the data one of unsigned bytes.\<close>

partial_function (option) search_line ::
    "'s calls \<Rightarrow> (string \<Rightarrow> u32) \<Rightarrow> u32 \<Rightarrow> u32 \<Rightarrow> u32 \<Rightarrow> u32 \<Rightarrow> int \<Rightarrow> int \<Rightarrow> int \<Rightarrow> 's \<Rightarrow> 's option" where
  "search_line c lit s s_len fname data line_start line_end check S =
     (if check < line_end then
        do { let m = peek c S;
             hit \<leftarrow> (if sint (m s) = uint (m (data + of_int check))
                   then map_option (\<lambda>r. r = 0) (ece391_strncmp m (data + of_int check) s s_len) else Some False);
             if hit then
               do { S \<leftarrow> ece391_fdputs c 1 fname S;
                    S \<leftarrow> say c lit '':'' S;
                    S \<leftarrow> ece391_fdputs c 1 (data + of_int line_start) S;
                    say c lit [CHR 0x0A] S }
             else search_line c lit s s_len fname data line_start line_end (check + 1) S }
      else Some S)"

text \<open>The lines of one buffer; the result is the new \<open>last'\<close>.\<close>

partial_function (option) grep_lines ::
    "'s calls \<Rightarrow> (string \<Rightarrow> u32) \<Rightarrow> u32 \<Rightarrow> u32 \<Rightarrow> u32 \<Rightarrow> u32 \<Rightarrow> int \<Rightarrow> int \<Rightarrow> int \<Rightarrow> 's \<Rightarrow> (int \<times> 's) option" where
  "grep_lines c lit s s_len fname data cnt last' line_start S =
     do { let line_end = line_end_from (peek c S) data last' line_start;
          let more = peek c S (data + of_int line_end) \<noteq> NEWLINE \<and> cnt \<noteq> 0 \<and> line_start \<noteq> 0;
          let S = set_byte c (data + of_int line_end) 0 S;
          if more then
            do { m \<leftarrow> ece391_strcpy (peek c S) data (data + of_int line_start); Some (last' - line_start, poke c m S) }
          else
            do { S \<leftarrow> search_line c lit s s_len fname data line_start line_end line_start S;
                 let line_start = line_end + 1;
                 if last' \<le> line_start then Some (0, S)
                 else grep_lines c lit s s_len fname data cnt last' line_start S } }"

partial_function (option) grep_buffers ::
    "'s calls \<Rightarrow> (string \<Rightarrow> u32) \<Rightarrow> u32 \<Rightarrow> u32 \<Rightarrow> u32 \<Rightarrow> u32 \<Rightarrow> int \<Rightarrow> int \<Rightarrow> 's \<Rightarrow> (int \<times> 's) option" where
  "grep_buffers c lit s s_len fname data fd last' S =
     do { (cnt, S) \<leftarrow> ece391_read c fd (data + of_int last') (1024 - last') S;
          if cnt = -1 then do { S \<leftarrow> say c lit (''file read failed'' @ [CHR 0x0A]) S; Some (-1, S) }
          else do {
            (last', S) \<leftarrow> grep_lines c lit s s_len fname data cnt (last' + cnt) 0 S;
            if cnt = 0 then
              do { (r, S) \<leftarrow> ece391_close c fd S;
                   if r = -1 then do { S \<leftarrow> say c lit (''file close failed'' @ [CHR 0x0A]) S; Some (-1, S) } else Some (0, S) }
            else grep_buffers c lit s s_len fname data fd last' S } }"

definition do_one_file :: "'s calls \<Rightarrow> (string \<Rightarrow> u32) \<Rightarrow> u32 \<Rightarrow> u32 \<Rightarrow> u32 \<Rightarrow> 's \<Rightarrow> (int \<times> 's) option" where
  "do_one_file c lit data s fname S =
     do { s_len \<leftarrow> ece391_strlen (peek c S) s;
          (fd, S) \<leftarrow> ece391_open c fname S;
          if fd = -1 then do { S \<leftarrow> say c lit (''file open failed'' @ [CHR 0x0A]) S; Some (-1, S) }
          else grep_buffers c lit s s_len fname data fd 0 S }"

partial_function (option) grep_loop ::
    "'s calls \<Rightarrow> (string \<Rightarrow> u32) \<Rightarrow> u32 \<Rightarrow> u32 \<Rightarrow> u32 \<Rightarrow> int \<Rightarrow> 's \<Rightarrow> (int \<times> 's) option" where
  "grep_loop c lit data search buf fd S =
     do { (cnt, S) \<leftarrow> ece391_read c fd buf 32 S;
          if cnt = 0 then Some (0, S)
          else if cnt = -1 then do { S \<leftarrow> say c lit (''directory entry read failed'' @ [CHR 0x0A]) S; Some (3, S) }
          else if peek c S buf = 0x2E then grep_loop c lit data search buf fd S
          else do { (r, S) \<leftarrow> do_one_file c lit data search buf (set_byte c (buf + of_int cnt) 0 S);
                    if r \<noteq> 0 then Some (3, S) else grep_loop c lit data search buf fd S } }"

definition grep_main :: "'s calls \<Rightarrow> (string \<Rightarrow> u32) \<Rightarrow> u32 \<Rightarrow> u32 \<Rightarrow> u32 \<Rightarrow> 's \<Rightarrow> (int \<times> 's) option" where
  "grep_main c lit data search buf S =
     do { (r, S) \<leftarrow> ece391_getargs c search 1024 S;
          if r \<noteq> 0 then do { S \<leftarrow> say c lit (''could not read argument'' @ [CHR 0x0A]) S; Some (3, S) }
          else do { (fd, S) \<leftarrow> ece391_open c (lit ''.'') S;
                    if fd = -1 then do { S \<leftarrow> say c lit (''directory open failed'' @ [CHR 0x0A]) S; Some (2, S) }
                    else grep_loop c lit data search buf fd S } }"

section \<open>The support library agrees with the kernel library\<close>

lemma ece391_strlen_loops:
  "strlen_loop m s len = Some r \<Longrightarrow> ece391_strlen_loop m (s + len) len = Some r"
  "ece391_strlen_loop m a len = Some r \<Longrightarrow> strlen_loop m (a - len) len = Some r"
proof -
  assume "strlen_loop m s len = Some r"
  then show "ece391_strlen_loop m (s + len) len = Some r"
  proof (rule strlen_loop.raw_induct [rotated, where P = "\<lambda>m s len r. ece391_strlen_loop m (s + len) len = Some r"])
    fix f m s len r
    assume "\<And>m s len r. f m s len = Some r \<Longrightarrow> ece391_strlen_loop m (s + len) len = Some r"
      and "(if m (s + len) \<noteq> 0 then f m s (len + 1) else Some len) = Some r"
    then show "ece391_strlen_loop m (s + len) len = Some r"
      using ece391_strlen_loop.simps [of m "s + len" len] by (auto simp: add.assoc split: if_splits)
  qed
next
  assume "ece391_strlen_loop m a len = Some r"
  then show "strlen_loop m (a - len) len = Some r"
  proof (rule ece391_strlen_loop.raw_induct [rotated, where P = "\<lambda>m a len r. strlen_loop m (a - len) len = Some r"])
    fix f m a len r
    assume IH: "\<And>m a len r. f m a len = Some r \<Longrightarrow> strlen_loop m (a - len) len = Some r"
      and "(if m a \<noteq> 0 then f m (a + 1) (len + 1) else Some len) = Some r"
    then show "strlen_loop m (a - len) len = Some r"
      using strlen_loop.simps [of m "a - len" len] IH [of m "a + 1" "len + 1" r] by (auto split: if_splits)
  qed
qed

lemma ece391_strlen_eq: "ece391_strlen m s = strlen m s"
  using ece391_strlen_loops(1) [of m s 0] ece391_strlen_loops(2) [of m s 0] unfolding ece391_strlen_def strlen_def
  by (cases "strlen_loop m s 0"; cases "ece391_strlen_loop m s 0") auto

lemma ece391_strrev_eq: "ece391_strrev m s = strrev m s"
proof -
  have "strrev_loop m s 0 e = m" if "e \<le> 0" for e using that by (subst strrev_loop.simps) simp
  then show ?thesis by (cases "strlen m s") (simp_all add: ece391_strrev_def strrev_def ece391_strlen_eq Let_def)
qed

lemma ece391_itoa_eq: "ece391_itoa m v buf r = itoa m v buf r"
  by (simp add: ece391_itoa_def itoa_def ece391_strrev_eq split: option.splits prod.splits)

lemma ece391_strcpy_eq:
  assumes "cstr m src bs" "dst = src \<or> length bs < unat (dst - src)"
  shows "ece391_strcpy m dst src = Some (store m dst (bs @ [0]))"
proof -
  have "ece391_strcpy m (dst + i) (src + i) = Some r" if "strcpy_loop m dst src i = Some r" for i r
    using that
  proof (rule strcpy_loop.raw_induct [rotated, where P = "\<lambda>m dst src i r. ece391_strcpy m (dst + i) (src + i) = Some r"])
    fix f m dst src i r
    assume "\<And>m dst src i r. f m dst src i = Some r \<Longrightarrow> ece391_strcpy m (dst + i) (src + i) = Some r"
      and "(if m (src + i) \<noteq> 0 then f (m(dst + i := m (src + i))) dst src (i + 1) else Some (m(dst + i := 0))) = Some r"
    then show "ece391_strcpy m (dst + i) (src + i) = Some r"
      using ece391_strcpy.simps [of m "dst + i" "src + i"] by (auto simp: add.assoc Let_def split: if_splits)
  qed
  from this [of 0] show ?thesis using strcpy_cstr [OF assms] by (simp add: strcpy_def)
qed

lemma byte_diff: "uint (a :: u8) - uint b = 0 \<longleftrightarrow> a = b" "uint a - uint b < 0 \<longleftrightarrow> a < b"
  by (simp_all add: word_less_def word_uint_eq_iff)

lemma ece391_strcmp_cstr:
  assumes "cstr m s1 xs" "cstr m s2 ys"
  shows "\<exists>r. ece391_strcmp m s1 s2 = Some r \<and> (r = 0 \<longleftrightarrow> xs = ys) \<and> (r < 0 \<longleftrightarrow> (xs, ys) \<in> lexord {(a, b). a < b})"
  using assms
proof (induction xs arbitrary: s1 s2 ys)
  case Nil
  then have 0: "m s1 = 0" by (simp add: cstr_def)
  show ?case
  proof (cases ys)
    case Nil
    with Nil.prems(2) have "m s2 = 0" by (simp add: cstr_def)
    with 0 Nil show ?thesis by (subst ece391_strcmp.simps) simp
  next
    case (Cons y ys')
    note y = cstr_Cons [OF Nil.prems(2) [unfolded Cons]]
    then have "0 < y" by (simp add: word_neq_0_conv)
    with 0 y Cons show ?thesis
      using byte_diff [of 0 y] by (subst ece391_strcmp.simps) simp
  qed
next
  case (Cons x xs)
  note x = cstr_Cons [OF Cons.prems(1)]
  show ?case
  proof (cases ys)
    case Nil
    with Cons.prems(2) have "m s2 = 0" by (simp add: cstr_def)
    then show ?thesis using x(1,2) Nil byte_diff [of x 0] by (subst ece391_strcmp.simps) simp
  next
    case ys: (Cons y ys')
    note y = cstr_Cons [OF Cons.prems(2) [unfolded ys]]
    show ?thesis
    proof (cases "x = y")
      case True
      then show ?thesis using Cons.IH [OF x(3) y(3)] x(1,2) y(1) ys by (subst ece391_strcmp.simps) simp
    next
      case False
      then show ?thesis using byte_diff [of x y] x(1) y(1) ys by (subst ece391_strcmp.simps) simp
    qed
  qed
qed

text \<open>The byte at the start of a string, its terminator if it is empty.\<close>

definition first_byte :: "u8 list \<Rightarrow> u8" where
  "first_byte xs = (case xs of [] \<Rightarrow> 0 | x # _ \<Rightarrow> x)"

lemma cstr_first: "cstr m s xs \<Longrightarrow> m s = first_byte xs"
  using cstr_Cons(1) [of m s] by (cases xs) (auto simp: first_byte_def cstr_def)

lemma cstr_tl: "cstr m s xs \<Longrightarrow> first_byte xs \<noteq> 0 \<Longrightarrow> cstr m (s + 1) (tl xs)"
  using cstr_Cons(3) [of m s] by (cases xs) (auto simp: first_byte_def)

lemma take_Suc_first:
  assumes "0 \<notin> set xs" "0 \<notin> set ys"
  shows "take (Suc n) xs = take (Suc n) ys \<longleftrightarrow> first_byte xs = first_byte ys \<and> (first_byte xs = 0 \<or> take n (tl xs) = take n (tl ys))"
  using assms by (cases xs; cases ys) (auto simp: first_byte_def)

lemma ece391_strncmp_loop_cstr:
  assumes "cstr m s1 xs" "cstr m s2 ys" "Suc n < 2 ^ 32"
  shows "\<exists>r. ece391_strncmp_loop m s1 s2 (of_nat (Suc n)) = Some r \<and> (r = 0 \<longleftrightarrow> take (Suc n) xs = take (Suc n) ys)"
  using assms
proof (induction n arbitrary: s1 s2 xs ys)
  case (0 s1 s2 xs ys)
  have z: "0 \<notin> set xs" "0 \<notin> set ys" using 0(1,2) by (simp_all add: cstr_def)
  show ?case
    unfolding take_Suc_first [OF z] cstr_first [OF 0(1), symmetric] cstr_first [OF 0(2), symmetric]
    using byte_diff(1) [of "m s1" "m s2"] by (subst ece391_strncmp_loop.simps) simp
next
  case (Suc n s1 s2 xs ys)
  have z: "0 \<notin> set xs" "0 \<notin> set ys" using Suc.prems(1,2) by (simp_all add: cstr_def)
  have n: "(of_nat (Suc (Suc n)) - 1 :: u32) = of_nat (Suc n)" by simp
  have n0: "(of_nat (Suc n) :: u32) \<noteq> 0"
    using Suc.prems(3) by (simp add: word_unat_eq_iff unat_of_nat_u32 del: of_nat_Suc)
  note heads = cstr_first [OF Suc.prems(1)] cstr_first [OF Suc.prems(2)]
  note step = ece391_strncmp_loop.simps [of m s1 s2 "of_nat (Suc (Suc n))", unfolded n]
  show ?case
  proof (cases "m s1 = m s2 \<and> m s1 \<noteq> 0")
    case True
    then have eq: "m s1 = m s2" "m s1 \<noteq> 0" "m s2 \<noteq> 0" by metis+
    then have "ece391_strncmp_loop m s1 s2 (of_nat (Suc (Suc n))) = ece391_strncmp_loop m (s1 + 1) (s2 + 1) (of_nat (Suc n))"
      using n0 by (subst step) (simp del: of_nat_Suc)
    moreover have "take (Suc (Suc n)) xs = take (Suc (Suc n)) ys \<longleftrightarrow> take (Suc n) (tl xs) = take (Suc n) (tl ys)"
      unfolding take_Suc_first [OF z] using eq heads by simp
    moreover have "cstr m (s1 + 1) (tl xs)" "cstr m (s2 + 1) (tl ys)" "Suc n < 2 ^ 32"
      using cstr_tl [OF Suc.prems(1)] cstr_tl [OF Suc.prems(2)] eq heads Suc.prems(3) by simp_all
    ultimately show ?thesis using Suc.IH by metis
  next
    case False
    then show ?thesis
      unfolding take_Suc_first [OF z, of "Suc n"] heads [symmetric]
      using byte_diff(1) [of "m s1" "m s2"] by (subst step) (auto simp del: of_nat_Suc)
  qed
qed

lemma ece391_strncmp_cstr:
  assumes "cstr m s1 xs" "cstr m s2 ys" "n < 2 ^ 32"
  shows "\<exists>r. ece391_strncmp m s1 s2 (of_nat n) = Some r \<and> (r = 0 \<longleftrightarrow> take n xs = take n ys)"
proof (cases n)
  case (Suc k)
  then have "(of_nat n :: u32) \<noteq> 0" using assms(3) by (simp add: word_unat_eq_iff unat_of_nat_u32 del: of_nat_Suc)
  then show ?thesis using ece391_strncmp_loop_cstr [OF assms(1,2), of k] assms(3) by (simp add: ece391_strncmp_def Suc del: of_nat_Suc)
qed (simp add: ece391_strncmp_def)

section \<open>Copying a file to the terminal\<close>

text \<open>What a copying program relies on: reading descriptor \<open>fd\<close> delivers the rest of the file piece by
  piece, writing to descriptor 1 shows the bytes on the screen.  \<open>area\<close> says which blocks of memory
  can be buffers.\<close>

locale file_to_terminal =
  fixes c :: "'s calls"
    and ok :: "'s \<Rightarrow> bool"
    and fd :: int
    and rest :: "'s \<Rightarrow> u8 list"
    and screen :: "'s \<Rightarrow> ascreen"
    and area :: "u32 \<Rightarrow> nat \<Rightarrow> bool"
  assumes area_mono: "area buf n \<Longrightarrow> k \<le> n \<Longrightarrow> area buf k"
    and read_chunk: "ok S \<Longrightarrow> area buf n \<Longrightarrow> 0 < n \<Longrightarrow>
      \<exists>S'. ece391_read c fd buf (int n) S = Some (int (length (take n (rest S))), S') \<and> ok S'
        \<and> load (peek c S') buf (length (take n (rest S))) = take n (rest S) \<and> rest S' = drop n (rest S) \<and> screen S' = screen S"
    and write_chunk: "ok S \<Longrightarrow> area buf n \<Longrightarrow> 0 < n \<Longrightarrow> \<forall>b\<in>set (load (peek c S) buf n). plain_key b \<Longrightarrow>
      \<exists>S'. ece391_write c 1 buf (int n) S = Some (int n, S') \<and> ok S' \<and> rest S' = rest S
        \<and> screen S' = fold show_char (load (peek c S) buf n) (screen S)"
begin

lemma cat_loop_copies:
  assumes "ok S" "area buf 1024" "\<forall>b\<in>set (rest S). plain_key b"
  shows "\<exists>S'. cat_loop c lit fd buf S = Some (0, S') \<and> ok S' \<and> rest S' = [] \<and> screen S' = fold show_char (rest S) (screen S)"
  using assms(1,3)
proof (induction "length (rest S)" arbitrary: S rule: less_induct)
  case less
  let ?bs = "take 1024 (rest S)"
  obtain S1 where 1: "ece391_read c fd buf 1024 S = Some (int (length ?bs), S1)" "ok S1"
    "load (peek c S1) buf (length ?bs) = ?bs" "rest S1 = drop 1024 (rest S)" "screen S1 = screen S"
    using read_chunk [OF less.prems(1) assms(2)] by auto
  show ?case
  proof (cases "rest S = []")
    case True
    then show ?thesis using 1 by (subst cat_loop.simps) simp
  next
    case False
    then have n: "0 < length ?bs" "length ?bs \<le> 1024" by simp_all
    have plain: "\<forall>b\<in>set ?bs. plain_key b" using less.prems(2) by (meson in_set_takeD)
    obtain S2 where 2: "ece391_write c 1 buf (int (length ?bs)) S1 = Some (int (length ?bs), S2)" "ok S2"
      "rest S2 = rest S1" "screen S2 = fold show_char ?bs (screen S1)"
      using write_chunk [OF 1(2) area_mono [OF assms(2) n(2)] n(1)] plain 1(3) by auto
    have "\<forall>b\<in>set (rest S2). plain_key b" using less.prems(2) by (simp add: 1(4) 2(3) in_set_dropD)
    moreover have "length (rest S2) < length (rest S)" using False by (simp add: 1(4) 2(3))
    ultimately obtain S3 where 3: "cat_loop c lit fd buf S2 = Some (0, S3)" "ok S3" "rest S3 = []"
      "screen S3 = fold show_char (rest S2) (screen S2)"
      using less.hyps [of S2] 2(2) by blast
    have "screen S3 = fold show_char (?bs @ drop 1024 (rest S)) (screen S)"
      using 3(4) 2(3,4) 1(4,5) by (simp only: fold_append comp_apply)
    moreover have "cat_loop c lit fd buf S = Some (0, S3)"
    proof -
      define k where "k = length ?bs"
      show ?thesis
        using 1(1) 2(1) 3(1) n(1) unfolding k_def [symmetric] by (subst cat_loop.simps) simp
    qed
    ultimately show ?thesis using 3(2,3) by simp
  qed
qed

end

section \<open>Talking to the user\<close>

text \<open>The literal \<open>s\<close> is in memory, outside the 1024 bytes at \<open>buf\<close>.\<close>

definition lit_ok :: "mem \<Rightarrow> u32 \<Rightarrow> (string \<Rightarrow> u32) \<Rightarrow> string \<Rightarrow> bool" where
  "lit_ok m buf lit s \<longleftrightarrow> cstr m (lit s) (map of_char s) \<and> lit s \<noteq> 0 \<and> (\<forall>k\<le>length s. 1024 \<le> unat (lit s + of_nat k - buf))"

lemma lit_ok_store: "lit_ok m buf lit s \<Longrightarrow> length bs \<le> 1024 \<Longrightarrow> lit_ok (store m buf bs) buf lit s"
  unfolding lit_ok_def by (auto intro!: cstr_agree [of m] store_other intro: order_trans)

lemma store_replace_last: "length xs < 2 ^ 32 \<Longrightarrow> (store m s (xs @ [a]))(s + of_nat (length xs) := b) = store m s (xs @ [b])"
  by (simp add: store_snoc)

text \<open>What an interactive program relies on: the characters it writes to descriptor 1 appear on the screen, and the line that is typed
  while it reads descriptor 0 is echoed and delivered with its newline.  \<open>typed_at k line\<close> says which line is typed during call
  number \<open>k\<close>.\<close>

locale line_terminal =
  fixes c :: "'s calls"
    and ok :: "'s \<Rightarrow> bool"
    and time :: "'s \<Rightarrow> nat"
    and typed_at :: "nat \<Rightarrow> u8 list \<Rightarrow> bool"
    and screen :: "'s \<Rightarrow> ascreen"
    and area :: "u32 \<Rightarrow> nat \<Rightarrow> bool"
  assumes write_text: "ok S \<Longrightarrow> buf \<noteq> 0 \<Longrightarrow> 0 < n \<Longrightarrow> n \<le> 1024 \<Longrightarrow> \<forall>b\<in>set (load (peek c S) buf n). plain_key b \<Longrightarrow>
      \<exists>S'. ece391_write c 1 buf (int n) S = Some (int n, S') \<and> ok S' \<and> peek c S' = peek c S \<and> time S' = Suc (time S)
        \<and> screen S' = fold show_char (load (peek c S) buf n) (screen S)"
    and read_line: "ok S \<Longrightarrow> typed_at (time S) line \<Longrightarrow> area buf 1024 \<Longrightarrow>
      \<exists>S'. ece391_read c 0 buf 1023 S = Some (int (length line) + 1, S') \<and> ok S' \<and> peek c S' = store (peek c S) buf (line @ [NEWLINE])
        \<and> time S' = Suc (time S) \<and> screen S' = fold show_char (line @ [NEWLINE]) (screen S)"
    and poke_area: "ok S \<Longrightarrow> area buf 1024 \<Longrightarrow> length bs \<le> 1024 \<Longrightarrow> m = store (peek c S) buf bs \<Longrightarrow>
      ok (poke c m S) \<and> peek c (poke c m S) = m \<and> time (poke c m S) = time S \<and> screen (poke c m S) = screen S"
    and typed_line: "typed_at k line \<Longrightarrow> (\<forall>b\<in>set line. plain_key b \<and> b \<noteq> NEWLINE) \<and> length line < 128"
    and area_nonnull: "area buf 1024 \<Longrightarrow> buf \<noteq> 0"
begin

lemma fdputs_text:
  assumes "ok S" "cstr (peek c S) a bs" "a \<noteq> 0" "bs \<noteq> []" "length bs \<le> 1024" "\<forall>b\<in>set bs. plain_key b"
  obtains S' where "ece391_fdputs c 1 a S = Some S'" "ok S'" "peek c S' = peek c S" "time S' = Suc (time S)"
    "screen S' = fold show_char bs (screen S)"
proof -
  have bs: "load (peek c S) a (length bs) = bs" using assms(2) by (simp add: cstr_def)
  have "sint (of_nat (length bs) :: u32) = int (length bs)" using assms(5) by (intro sint_small) simp
  moreover have "ece391_strlen (peek c S) a = Some (of_nat (length bs))" using strlen_cstr [OF assms(2)] by (simp add: ece391_strlen_eq)
  ultimately show thesis
    using write_text [OF assms(1,3), of "length bs"] assms(4-6) that by (auto simp: bs ece391_fdputs_def)
qed

lemma say_text:
  assumes "ok S" "lit_ok (peek c S) buf lit s" "s \<noteq> []" "length s \<le> 1024" "\<forall>b\<in>set (map of_char s). plain_key b"
  obtains S' where "say c lit s S = Some S'" "ok S'" "peek c S' = peek c S" "time S' = Suc (time S)"
    "screen S' = fold show_char (map of_char s) (screen S)"
  using fdputs_text [OF assms(1), of "lit s" "map of_char s"] assms(2-5) unfolding say_def lit_ok_def by auto

text \<open>A prompt, the line typed in answer, and the buffer with the terminator behind the newline.\<close>

lemma ask_line:
  assumes S: "ok S" and p: "lit_ok (peek c S) buf lit s" "s \<noteq> []" "length s \<le> 1024" "\<forall>b\<in>set (map of_char s). plain_key b"
    and line: "typed_at (Suc (time S)) line" and buf: "area buf 1024"
  obtains S1 S2 where "say c lit s S = Some S1" "ece391_read c 0 buf 1023 S1 = Some (int (length line) + 1, S2)" "ok S2"
    "peek c S2 = store (peek c S) buf (line @ [NEWLINE])" "time S2 = Suc (Suc (time S))"
    "screen S2 = fold show_char (map of_char s @ line @ [NEWLINE]) (screen S)"
proof -
  obtain S1 where 1: "say c lit s S = Some S1" "ok S1" "peek c S1 = peek c S" "time S1 = Suc (time S)"
    "screen S1 = fold show_char (map of_char s) (screen S)"
    by (rule say_text [OF S p])
  then obtain S2 where 2: "ece391_read c 0 buf 1023 S1 = Some (int (length line) + 1, S2)" "ok S2"
    "peek c S2 = store (peek c S) buf (line @ [NEWLINE])" "time S2 = Suc (Suc (time S))"
    "screen S2 = fold show_char (line @ [NEWLINE]) (fold show_char (map of_char s) (screen S))"
    using read_line [OF 1(2) _ buf] line by auto
  show thesis by (rule that [OF 1(1) 2(1-4)]) (simp add: 2(5))
qed

lemma set_terminator:
  assumes "ok S" "area buf 1024" "peek c S = store m buf (line @ [NEWLINE])" "length line < 128"
  shows "ok (set_byte c (buf + of_int (int (length line) + 1)) 0 S)"
    and "peek c (set_byte c (buf + of_int (int (length line) + 1)) 0 S) = store m buf (line @ [NEWLINE, 0])"
    and "time (set_byte c (buf + of_int (int (length line) + 1)) 0 S) = time S"
    and "screen (set_byte c (buf + of_int (int (length line) + 1)) 0 S) = screen S"
proof -
  have eq: "(peek c S)(buf + of_int (int (length line) + 1) := 0) = store m buf (line @ [NEWLINE, 0])"
    using store_snoc [of "line @ [NEWLINE]" m buf 0] assms(3,4) by (simp add: add.commute)
  have "store (peek c S) buf (line @ [NEWLINE, 0]) = store m buf (line @ [NEWLINE, 0])"
    unfolding assms(3) by (rule ext) (simp add: store_def)
  then have "store m buf (line @ [NEWLINE, 0]) = store (peek c S) buf (line @ [NEWLINE, 0])" ..
  from poke_area [OF assms(1,2) _ this] assms(4)
  show "ok (set_byte c (buf + of_int (int (length line) + 1)) 0 S)"
    "peek c (set_byte c (buf + of_int (int (length line) + 1)) 0 S) = store m buf (line @ [NEWLINE, 0])"
    "time (set_byte c (buf + of_int (int (length line) + 1)) 0 S) = time S"
    "screen (set_byte c (buf + of_int (int (length line) + 1)) 0 S) = screen S"
    by (simp_all add: set_byte_def eq del: of_int_add)
qed

lemma line_cstr:
  assumes "typed_at k line"
  shows "cstr (store m buf (line @ [NEWLINE, 0])) buf (line @ [NEWLINE])" "cstr (store m buf (line @ [0])) buf line"
proof -
  have "0 \<notin> set line" "length line < 128" using typed_line [OF assms] by (auto simp: plain_key_def)
  then show "cstr (store m buf (line @ [NEWLINE, 0])) buf (line @ [NEWLINE])" "cstr (store m buf (line @ [0])) buf line"
    using cstr_store [of "line @ [NEWLINE]" m buf] cstr_store [of line m buf] by simp_all
qed

lemma hello_greets:
  assumes S: "ok S" and buf: "area buf 1024" and line: "typed_at (Suc (time S)) line"
    and lits: "lit_ok (peek c S) buf lit ''Hi, what's your name? ''" "lit_ok (peek c S) buf lit ''Hello, ''"
  shows "\<exists>S'. hello_main c lit buf S = Some (0, S') \<and> ok S'
    \<and> screen S' = fold show_char (map of_char ''Hi, what's your name? '' @ line @ [NEWLINE] @ map of_char ''Hello, '' @ line @ [NEWLINE]) (screen S)"
proof -
  obtain S1 S2 where 2: "say c lit ''Hi, what's your name? '' S = Some S1" "ece391_read c 0 buf 1023 S1 = Some (int (length line) + 1, S2)"
    "ok S2" "peek c S2 = store (peek c S) buf (line @ [NEWLINE])"
    "screen S2 = fold show_char (map of_char ''Hi, what's your name? '' @ line @ [NEWLINE]) (screen S)"
    by (rule ask_line [OF S lits(1) _ _ _ line buf]) (simp_all add: plain_key_def)
  have len: "length line < 128" and plain: "\<forall>b\<in>set (line @ [NEWLINE]). plain_key b"
    using typed_line [OF line] by (auto simp: plain_key_def)
  define S3 where "S3 = set_byte c (buf + of_int (int (length line) + 1)) 0 S2"
  note 3 = set_terminator [OF 2(3) buf 2(4) len, folded S3_def]
  have "lit_ok (peek c S3) buf lit ''Hello, ''" unfolding 3(2) using lits(2) len by (intro lit_ok_store) simp_all
  then obtain S4 where 4: "say c lit ''Hello, '' S3 = Some S4" "ok S4" "peek c S4 = peek c S3"
    "screen S4 = fold show_char (map of_char ''Hello, '') (screen S3)"
    by (rule say_text [OF 3(1)]) (simp_all add: plain_key_def)
  have "cstr (peek c S4) buf (line @ [NEWLINE])" unfolding 4(3) 3(2) by (rule line_cstr(1) [OF line])
  then obtain S5 where 5: "ece391_fdputs c 1 buf S4 = Some S5" "ok S5" "screen S5 = fold show_char (line @ [NEWLINE]) (screen S4)"
    by (rule fdputs_text [OF 4(2) _ area_nonnull [OF buf]]) (use len plain in simp_all)
  have "hello_main c lit buf S = Some (0, S5)"
    using 2(1,2) 4(1) 5(1) by (simp add: hello_main_def S3_def)
  then show ?thesis using 5(2,3) 4(4) 3(4) 2(5) by simp
qed

text \<open>The line keeps its newline, so no choice is ever one character long.\<close>

lemma counter_refuses:
  assumes S: "ok S" and buf: "area buf 1024" and line: "typed_at (Suc (time S)) line" "line \<noteq> []"
    and lits: "lit_ok (peek c S) buf lit (''Enter the Test Number: (0): 100, (1): 10000, (2): 100000'' @ [CHR 0x0A])"
      "lit_ok (peek c S) buf lit (''Wrong Choice!'' @ [CHR 0x0A])"
  shows "\<exists>S'. counter_main c lit buf S = Some (0, S') \<and> ok S'
    \<and> screen S' = fold show_char (map of_char (''Enter the Test Number: (0): 100, (1): 10000, (2): 100000'' @ [CHR 0x0A])
        @ line @ [NEWLINE] @ map of_char (''Wrong Choice!'' @ [CHR 0x0A])) (screen S)"
proof -
  let ?ask = "''Enter the Test Number: (0): 100, (1): 10000, (2): 100000'' @ [CHR 0x0A]" and ?no = "''Wrong Choice!'' @ [CHR 0x0A]"
  obtain S1 S2 where 2: "say c lit ?ask S = Some S1" "ece391_read c 0 buf 1023 S1 = Some (int (length line) + 1, S2)"
    "ok S2" "peek c S2 = store (peek c S) buf (line @ [NEWLINE])"
    "screen S2 = fold show_char (map of_char ?ask @ line @ [NEWLINE]) (screen S)"
    by (rule ask_line [OF S lits(1) _ _ _ line(1) buf]) (simp_all add: plain_key_def)
  have len: "length line < 128" using typed_line [OF line(1)] by blast
  define S3 where "S3 = set_byte c (buf + of_int (int (length line) + 1)) 0 S2"
  note 3 = set_terminator [OF 2(3) buf 2(4) len, folded S3_def]
  have "cstr (peek c S3) buf (line @ [NEWLINE])" unfolding 3(2) by (rule line_cstr(1) [OF line(1)])
  then have n: "ece391_strlen (peek c S3) buf = Some (of_nat (length line + 1))"
    using strlen_cstr [of "peek c S3" buf "line @ [NEWLINE]"] by (simp add: ece391_strlen_eq)
  have "unat (of_nat (length line + 1) :: u32) = length line + 1" using len unat_of_nat_u32 [of "length line + 1"] by simp
  then have big: "1 < (of_nat (length line + 1) :: u32)" using line(2) unfolding word_less_nat_alt by simp
  have "lit_ok (peek c S3) buf lit ?no" unfolding 3(2) using lits(2) len by (intro lit_ok_store) simp_all
  then obtain S4 where 4: "say c lit ?no S3 = Some S4" "ok S4" "screen S4 = fold show_char (map of_char ?no) (screen S3)"
    by (rule say_text [OF 3(1)]) (simp_all add: plain_key_def)
  have "counter_main c lit buf S = Some (0, S4)"
    using 2(1,2) 4(1) n big by (simp add: counter_main_def Let_def S3_def)
  then show ?thesis using 4(2,3) 3(4) 2(5) by simp
qed

lemma shell_step:
  assumes S: "ok S" and buf: "area buf 1024" and line: "typed_at (Suc (time S)) line"
    and lits: "lit_ok (peek c S) buf lit ''391OS> ''" "lit_ok (peek c S) buf lit ''exit''"
  shows "\<exists>S'. ok S' \<and> time S' = Suc (Suc (time S)) \<and> peek c S' = store (peek c S) buf (line @ [0]) \<and> cstr (peek c S') buf line
    \<and> screen S' = fold show_char (map of_char ''391OS> '' @ line @ [NEWLINE]) (screen S)
    \<and> shell_loop c lit buf S =
        (if line = map of_char ''exit'' then Some (0, S')
         else if line = [] then shell_loop c lit buf S'
         else do { (rval, S) \<leftarrow> ece391_execute c buf S'; S \<leftarrow> shell_report c lit rval S; shell_loop c lit buf S })"
proof -
  let ?n = "length line"
  obtain S1 S2 where 2: "say c lit ''391OS> '' S = Some S1" "ece391_read c 0 buf 1023 S1 = Some (int ?n + 1, S2)"
    "ok S2" "peek c S2 = store (peek c S) buf (line @ [NEWLINE])" "time S2 = Suc (Suc (time S))"
    "screen S2 = fold show_char (map of_char ''391OS> '' @ line @ [NEWLINE]) (screen S)"
    by (rule ask_line [OF S lits(1) _ _ _ line buf]) (simp_all add: plain_key_def)
  have len: "?n < 128" using typed_line [OF line] by blast
  define S3 where "S3 = set_byte c (buf + of_nat ?n) 0 S2"
  have nl: "peek c S2 (buf + of_nat ?n) = NEWLINE" using store_at [of ?n "line @ [NEWLINE]" "peek c S" buf] len by (simp add: 2(4))
  have eq: "(peek c S2)(buf + of_nat ?n := 0) = store (peek c S) buf (line @ [0])"
    unfolding 2(4) using len by (intro store_replace_last) simp
  have "store (peek c S) buf (line @ [0]) = store (peek c S2) buf (line @ [0])"
    unfolding 2(4) by (rule ext) (simp add: store_def)
  from poke_area [OF 2(3) buf _ this] len
  have 3: "ok S3" "peek c S3 = store (peek c S) buf (line @ [0])" "time S3 = Suc (Suc (time S))" "screen S3 = screen S2"
    by (simp_all add: S3_def set_byte_def eq 2(5))
  have cs: "cstr (peek c S3) buf line" unfolding 3(2) by (rule line_cstr(2) [OF line])
  have "lit_ok (peek c S3) buf lit ''exit''" unfolding 3(2) using lits(2) len by (intro lit_ok_store) simp_all
  then have "cstr (peek c S3) (lit ''exit'') (map of_char ''exit'')" unfolding lit_ok_def by blast
  from ece391_strcmp_cstr [OF cs this] obtain r where r: "ece391_strcmp (peek c S3) buf (lit ''exit'') = Some r"
    "r = 0 \<longleftrightarrow> line = map of_char ''exit''" by blast
  have empty: "peek c S3 buf = 0 \<longleftrightarrow> line = []"
    using cstr_first [OF cs] typed_line [OF line] by (auto simp: first_byte_def plain_key_def split: list.splits)
  have "shell_loop c lit buf S =
      (if line = map of_char ''exit'' then Some (0, S3)
       else if line = [] then shell_loop c lit buf S3
       else do { (rval, S) \<leftarrow> ece391_execute c buf S3; S \<leftarrow> shell_report c lit rval S; shell_loop c lit buf S })"
    unfolding r(2) [symmetric] empty [symmetric] using 2(1,2) nl r(1)
    by (subst shell_loop.simps) (simp add: Let_def S3_def [symmetric])
  then show ?thesis using 3 cs 2(6) by (intro exI [of _ S3] conjI) simp_all
qed

end

section \<open>Properties\<close>

text \<open>C37: The support library of the programs does what the kernel's library does: length, reversal and conversion of numbers are
  the same functions, on any memory.  On terminated strings \<open>ece391_strcmp\<close> is 0 exactly for equal strings and negative exactly
  when the first comes first in the order of the bytes, \<open>ece391_strncmp\<close> is 0 exactly when the first \<open>n\<close> bytes agree, and
  \<open>ece391_strcpy\<close> copies the string with its terminator, to any place that does not overlap it from behind.\<close>

theorem support_library:
  assumes "cstr m s1 xs" "cstr m s2 ys" "n < 2 ^ 32"
  shows "ece391_strlen m s = strlen m s \<and> ece391_strrev m s = strrev m s \<and> ece391_itoa m v buf radix = itoa m v buf radix
    \<and> (\<exists>r. ece391_strcmp m s1 s2 = Some r \<and> (r = 0 \<longleftrightarrow> xs = ys) \<and> (r < 0 \<longleftrightarrow> (xs, ys) \<in> lexord {(a, b). a < b}))
    \<and> (\<exists>r. ece391_strncmp m s1 s2 (of_nat n) = Some r \<and> (r = 0 \<longleftrightarrow> take n xs = take n ys))
    \<and> (dst = s1 \<or> length xs < unat (dst - s1) \<longrightarrow> ece391_strcpy m dst s1 = Some (store m dst (xs @ [0])))"
  by (intro conjI impI ece391_strlen_eq ece391_strrev_eq ece391_itoa_eq ece391_strcmp_cstr [OF assms(1,2)] ece391_strncmp_cstr [OF assms]
      ece391_strcpy_eq [OF assms(1)])

theorem support_library_witness:
  "\<exists>r. ece391_strncmp (store (store (\<lambda>_. 0) 0x1000 [0x61, 0x62, 0]) 0x2000 [0x61, 0x63, 0]) 0x1000 0x2000 (of_nat 1) = Some r \<and> r = 0"
proof -
  let ?m = "store (store (\<lambda>_. 0) 0x1000 [0x61, 0x62, 0]) 0x2000 [0x61, 0x63, 0]"
  have "cstr ?m 0x1000 [0x61, 0x62]" "cstr ?m 0x2000 [0x61, 0x63]"
    by (simp_all add: cstr_def load_def upt_rec) (simp_all add: store_def)
  moreover have "(1 :: nat) < 2 ^ 32" by simp
  ultimately have "\<exists>r. ece391_strncmp ?m 0x1000 0x2000 (of_nat 1) = Some r \<and> (r = 0 \<longleftrightarrow> take 1 [0x61, 0x62 :: u8] = take 1 [0x61, 0x63])"
    by (rule support_library [of ?m "0x1000" _ "0x2000" _ 1 0 0 0 2 0, THEN conjunct2, THEN conjunct2, THEN conjunct2, THEN conjunct2, THEN conjunct1])
  then show ?thesis by simp
qed

end
