(* ===== verification/User.thy ===== *)
theory User
  imports Process Programs
begin

text \<open>
  User programs on the kernel.  \<open>kernel_calls\<close> are the system calls of the kernel, as the stubs of
  \<^verbatim>\<open>syscalls/ece391syscall.S\<close> make them.  They keep the promises of the locale \<open>file_to_terminal\<close> to a process
  with an open file, so that \<open>cat\<close> shows the file it is given.
\<close>

section \<open>The stubs\<close>

text \<open>A session is the number of system calls made and the machine; \<open>w k\<close> are the interrupts that arrive while
  call \<open>k\<close> waits.\<close>

type_synonym session = "nat \<times> machine"

text \<open>A stub loads the registers and raises vector 0x80.  \<open>run\<close> is what user mode does from the entry
  of a new program until the kernel comes back to the caller.\<close>

definition DO_CALL :: "env \<Rightarrow> (nat \<Rightarrow> waits) \<Rightarrow> (u32 \<Rightarrow> session \<Rightarrow> (int \<times> session) option) \<Rightarrow>
    u32 \<Rightarrow> u32 \<Rightarrow> u32 \<Rightarrow> u32 \<Rightarrow> session \<Rightarrow> (int \<times> session) option" where
  "DO_CALL env w run number ebx ecx edx S =
     (case syscall_linkage env (w (fst S)) number ebx ecx edx (snd S) of None \<Rightarrow> None
      | Some (Return r, M) \<Rightarrow> Some (r, Suc (fst S), M)
      | Some (Enter_user e, M) \<Rightarrow> run e (Suc (fst S), M))"

text \<open>\<open>rest\<close> are the values the stub finds where a call with fewer arguments has none.  \<open>ece391_halt\<close> is not among the
  calls: it does not come back to the program.  \<open>call_sys\<close> of \<^verbatim>\<open>ece391syserr.c\<close> loads the number alone.\<close>

definition kernel_calls :: "env \<Rightarrow> (nat \<Rightarrow> waits) \<Rightarrow> (u32 \<Rightarrow> session \<Rightarrow> (int \<times> session) option) \<Rightarrow> u32 \<Rightarrow> session calls" where
  "kernel_calls env w run rest =
     \<lparr>ece391_execute = (\<lambda>command. DO_CALL env w run 2 command rest rest),
      ece391_read = (\<lambda>fd buf nbytes. DO_CALL env w run 3 (of_int fd) buf (of_int nbytes)),
      ece391_write = (\<lambda>fd buf nbytes. DO_CALL env w run 4 (of_int fd) buf (of_int nbytes)),
      ece391_open = (\<lambda>filename. DO_CALL env w run 5 filename rest rest),
      ece391_close = (\<lambda>fd. DO_CALL env w run 6 (of_int fd) rest rest),
      ece391_getargs = (\<lambda>buf nbytes. DO_CALL env w run 7 buf (of_int nbytes) rest),
      ece391_vidmap = (\<lambda>screen_start. DO_CALL env w run 8 screen_start rest rest),
      ece391_set_handler = (\<lambda>signum handler. DO_CALL env w run 9 (of_int signum) handler rest),
      ece391_sigreturn = DO_CALL env w run 10 rest rest rest,
      call_sys = (\<lambda>number. DO_CALL env w run number rest rest rest),
      peek = (\<lambda>S. view env (snd S)), poke = (\<lambda>m S. (fst S, put_view env m (snd S)))\<rparr>"

text \<open>Standard output is the terminal of the process.\<close>

definition output_ready :: "machine \<Rightarrow> bool" where
  "output_ready M \<longleftrightarrow> file_operation_jmp_tbl (fd_of M 1) = Terminal_driver \<and> flags (fd_of M 1) \<noteq> 0
     \<and> rtc_fd (k_pcbs M (curr M)) \<noteq> 1 \<and> term_ok (pcb_term (k_pcbs M (curr M))) (k_terms M)"

text \<open>The kernel keeps these promises to process \<open>p\<close> with the regular file \<open>inode\<close> open as \<open>fd\<close>.\<close>

definition file_ready :: "env \<Rightarrow> int \<Rightarrow> int \<Rightarrow> u32 \<Rightarrow> machine \<Rightarrow> bool" where
  "file_ready env p fd inode M \<longleftrightarrow> maps_image env p M \<and> 2 \<le> fd \<and> fd < FD_MAX
     \<and> (\<exists>pos. fd_of M fd = \<lparr>file_operation_jmp_tbl = File_driver, inode_ptr = inode, file_position = pos, flags = 1\<rparr>
          \<and> unat pos \<le> file_length (k_fs M) (view env M) inode)
     \<and> Suc (file_length (k_fs M) (view env M) inode) < 2 ^ 32 \<and> (\<forall>a\<in>footprint (k_fs M) (view env M) inode. a < KERNEL_MEM_END)
     \<and> output_ready M"

definition unread :: "env \<Rightarrow> int \<Rightarrow> machine \<Rightarrow> u8 list" where
  "unread env fd M = drop (unat (file_position (fd_of M fd))) (file_bytes (k_fs M) (view env M) (inode_ptr (fd_of M fd)))"

definition my_screen :: "machine \<Rightarrow> ascreen" where
  "my_screen M = term_screen (pcb_term (k_pcbs M (curr M))) (k_terms M)"

lemma stub:
  "0 \<le> fd \<Longrightarrow> fd < FD_MAX \<Longrightarrow> n \<le> 0x400000 \<Longrightarrow> syscall_read env (w k) fd buf (int n) M = Some (r, M') \<Longrightarrow>
     ece391_read (kernel_calls env w run rest) fd buf (int n) (k, M) = Some (r, Suc k, M')"
  "n \<le> 0x400000 \<Longrightarrow> syscall_write env 1 buf (int n) M = Some (r, M') \<Longrightarrow>
     ece391_write (kernel_calls env w run rest) 1 buf (int n) (k, M) = Some (r, Suc k, M')"
  "n \<le> 0x400000 \<Longrightarrow> syscall_getargs env buf (int n) M = Some (r, M') \<Longrightarrow>
     ece391_getargs (kernel_calls env w run rest) buf (int n) (k, M) = Some (r, Suc k, M')"
  "syscall_open env buf M = Some (r, M') \<Longrightarrow> ece391_open (kernel_calls env w run rest) buf (k, M) = Some (r, Suc k, M')"
  "peek (kernel_calls env w run rest) S = view env (snd S)"
  "poke (kernel_calls env w run rest) m S = (fst S, put_view env m (snd S))"
proof -
  have fd: "0 \<le> fd \<Longrightarrow> fd < FD_MAX \<Longrightarrow> sint (of_int fd :: u32) = fd" using sint_small [of "nat fd"] by simp
  show "0 \<le> fd \<Longrightarrow> fd < FD_MAX \<Longrightarrow> n \<le> 0x400000 \<Longrightarrow> syscall_read env (w k) fd buf (int n) M = Some (r, M') \<Longrightarrow>
      ece391_read (kernel_calls env w run rest) fd buf (int n) (k, M) = Some (r, Suc k, M')"
    "n \<le> 0x400000 \<Longrightarrow> syscall_write env 1 buf (int n) M = Some (r, M') \<Longrightarrow>
      ece391_write (kernel_calls env w run rest) 1 buf (int n) (k, M) = Some (r, Suc k, M')"
    "n \<le> 0x400000 \<Longrightarrow> syscall_getargs env buf (int n) M = Some (r, M') \<Longrightarrow>
      ece391_getargs (kernel_calls env w run rest) buf (int n) (k, M) = Some (r, Suc k, M')"
    "syscall_open env buf M = Some (r, M') \<Longrightarrow> ece391_open (kernel_calls env w run rest) buf (k, M) = Some (r, Suc k, M')"
    "peek (kernel_calls env w run rest) S = view env (snd S)"
    "poke (kernel_calls env w run rest) m S = (fst S, put_view env m (snd S))"
    using fd sint_small [of n] by (simp_all add: kernel_calls_def DO_CALL_def syscall_linkage_def)
qed

text \<open>Writing plain characters to the terminal touches nothing but the terminals.\<close>

lemma accepts_moves: "moves t T T' \<Longrightarrow> accepts t xs n T' = accepts t xs n T"
  using strip_input [of "term_data_array T' t" "term_data_array T t"] by (auto simp: moves_def accepts_def)

lemma write_out:
  assumes "output_ready M" "buf \<noteq> 0" "0 < n" "n \<le> 0x400000" "\<forall>b\<in>set (load (view env M) buf n). plain_key b"
  obtains T where "ece391_write (kernel_calls env w run rest) 1 buf (int n) (k, M) = Some (int n, Suc k, M\<lparr>k_terms := T\<rparr>)"
    and "output_ready (M\<lparr>k_terms := T\<rparr>)" "view env (M\<lparr>k_terms := T\<rparr>) = view env M"
    and "my_screen (M\<lparr>k_terms := T\<rparr>) = fold show_char (load (view env M) buf n) (my_screen M)"
    and "accepts (pcb_term (k_pcbs M (curr M))) xs j T = accepts (pcb_term (k_pcbs M (curr M))) xs j (k_terms M)"
proof -
  note r = assms(1) [unfolded output_ready_def]
  let ?t = "pcb_term (k_pcbs M (curr M))" and ?bs = "load (view env M) buf n"
  define T where "T = fold (term_put ?t) ?bs (k_terms M)"
  have T: "terminal_write (view env M) (curr M) (k_pcbs M) buf (int n) (k_terms M) = (int n, T)" "term_ok ?t T"
    "term_screen ?t T = fold show_char ?bs (term_screen ?t (k_terms M))"
    using terminal_write_fold [of "view env M" "curr M" "k_pcbs M" buf n "k_terms M"]
      trm.puts_refines [of ?t "k_terms M" ?bs] r assms(5) by (simp_all add: T_def)
  have "moves ?t T0 (fold (term_put ?t) bs T0)" for bs T0
  proof (induction bs arbitrary: T0)
    case (Cons b bs)
    then show ?case
      using moves_trans [OF moves_handle_key [of 0 b ?t T0 "0xFF" 0] Cons.IH] by (simp add: term_put_def)
  qed simp
  then have acc: "accepts ?t xs j T = accepts ?t xs j (k_terms M)" unfolding T_def by (rule accepts_moves)
  have "uint (rtc_fd (k_pcbs M (curr M))) \<noteq> 1" using r by (metis uint_1 word_uint_eqI)
  then have "syscall_write env 1 buf (int n) M = Some (int n, M\<lparr>k_terms := T\<rparr>)"
    using r assms(2,3) T(1) by (simp add: syscall_write_def driver_write_def)
  then have call: "ece391_write (kernel_calls env w run rest) 1 buf (int n) (k, M) = Some (int n, Suc k, M\<lparr>k_terms := T\<rparr>)"
    by (rule stub(2) [OF assms(4)])
  have "view env (M\<lparr>k_terms := T\<rparr>) = view env M" by (rule view_cong) simp_all
  with call r T(2,3) acc show thesis by (intro that [of T]) (simp_all add: output_ready_def my_screen_def)
qed

lemma kernel_read:
  assumes "file_ready env p fd inode M" "in_window buf n" "0 < n"
  shows "\<exists>M'. ece391_read (kernel_calls env w run rest) fd buf (int n) (k, M) = Some (int (length (take n (unread env fd M))), Suc k, M')
    \<and> file_ready env p fd inode M' \<and> load (view env M') buf (length (take n (unread env fd M))) = take n (unread env fd M)
    \<and> unread env fd M' = drop n (unread env fd M) \<and> my_screen M' = my_screen M"
proof -
  note r = assms(1) [unfolded file_ready_def]
  let ?L = "file_length (k_fs M) (view env M) inode" and ?F = "file_bytes (k_fs M) (view env M) inode"
  have r1: "maps_image env p M" "2 \<le> fd" "fd < FD_MAX" "Suc ?L < 2 ^ 32" "\<forall>a\<in>footprint (k_fs M) (view env M) inode. a < KERNEL_MEM_END"
    using r by simp_all
  obtain pos where pos: "fd_of M fd = \<lparr>file_operation_jmp_tbl = File_driver, inode_ptr = inode, file_position = pos, flags = 1\<rparr>"
    "unat pos \<le> ?L" using r by blast
  define j where "j = min n (?L - unat pos)"
  have unread: "unread env fd M = drop (unat pos) ?F" by (simp add: unread_def pos(1))
  have len_j: "length (take n (unread env fd M)) = j" using length_file_bytes [of "k_fs M"] by (simp add: unread j_def)
  obtain bs M1 where rd: "M1 = upd_pcb (curr M) (\<lambda>p. p\<lparr>elements := (elements p)(fd := (elements p fd)\<lparr>file_position := pos + of_nat j\<rparr>)\<rparr>) M"
    "syscall_read env (w k) fd buf (int n) M = Some (int j, put_view env (store (view env M) buf bs) M1)" "length bs \<le> n"
    "load (store (view env M) buf bs) buf j = take n (drop (unat pos) ?F)" "maps_image env p M1" "view env M1 = view env M"
    by (rule read_file_result [OF r1(1-3) assms(3,2) pos r1(4,5) j_def])
  define M2 where "M2 = put_view env (store (view env M) buf bs) M1"
  have win: "in_window buf (length bs)" using assms(2) rd(3) by (simp add: in_window_def)
  have v: "view env M2 = store (view env M) buf bs"
    unfolding M2_def using put_view_window(1) [OF rd(5) win] by (simp add: rd(6))
  have low: "view env M2 a = view env M a" if "a \<in> footprint (k_fs M) (view env M) inode" for a
    using clear_of_window [OF _ win, of "{a}"] r that by (simp add: v clear_of_def store_other)
  have agree: "file_length (k_fs M) (view env M2) inode = ?L" "file_bytes (k_fs M) (view env M2) inode = ?F"
    "footprint (k_fs M) (view env M2) inode = footprint (k_fs M) (view env M) inode"
    by (rule file_agree, erule low)+
  have f: "k_fs M2 = k_fs M" "k_terms M2 = k_terms M" "curr M2 = curr M" "k_pcbs M2 = k_pcbs M1" "k_paging M2 = k_paging M"
    by (simp_all add: M2_def rd(1) upd_pcb_def)
  have len: "unat pos + j \<le> ?L" "?L < 2 ^ 32" using pos(2) r by (simp_all add: j_def)
  then have "unat (pos + of_nat j) = unat pos + j" by (simp add: unat_word_ariths unat_of_nat_u32)
  then have e: "fd_of M2 fd = \<lparr>file_operation_jmp_tbl = File_driver, inode_ptr = inode, file_position = pos + of_nat j, flags = 1\<rparr>"
    "unat (pos + of_nat j) = unat pos + j" "unat pos + j \<le> ?L"
    using pos len(1) by (simp_all add: f rd(1) upd_pcb_def)
  have "maps_image env p M2" using maps_image_cong [OF f(5)] r by simp
  then have ready: "file_ready env p fd inode M2"
    using r e unfolding file_ready_def f agree by (simp add: output_ready_def f rd(1) upd_pcb_def)
  have "drop (unat pos + j) ?F = drop n (drop (unat pos) ?F)"
    using length_file_bytes [of "k_fs M" "view env M" inode] by (cases "n \<le> ?L - unat pos") (simp_all add: j_def add.commute)
  then have rest: "unread env fd M2 = drop n (unread env fd M)"
    unfolding unread unread_def [of env fd M2] e(1) f(1) by (simp add: agree(2) e(2))
  have "n \<le> 0x400000" using assms(2) by (simp add: in_window_def)
  then have call: "ece391_read (kernel_calls env w run rest') fd buf (int n) (k, M) = Some (int j, Suc k, M2)" for rest'
    using r1(2,3) unfolding M2_def by (intro stub(1)) (simp_all add: rd(2))
  have "load (view env M2) buf j = take n (unread env fd M)" unfolding v rd(4) unread ..
  moreover have "my_screen M2 = my_screen M" by (simp add: my_screen_def f rd(1) upd_pcb_def)
  ultimately show ?thesis unfolding len_j using call ready rest by (intro exI [of _ M2] conjI)
qed

lemma kernel_write:
  assumes "file_ready env p fd inode M" "in_window buf n" "0 < n" "\<forall>b\<in>set (load (view env M) buf n). plain_key b"
  shows "\<exists>M'. ece391_write (kernel_calls env w run rest) 1 buf (int n) (k, M) = Some (int n, Suc k, M')
    \<and> file_ready env p fd inode M' \<and> unread env fd M' = unread env fd M
    \<and> my_screen M' = fold show_char (load (view env M) buf n) (my_screen M)"
proof -
  note r = assms(1) [unfolded file_ready_def]
  have n: "n \<le> 0x400000" "buf \<noteq> 0" using assms(2) by (auto simp: in_window_def)
  have out: "output_ready M" using r by blast
  obtain T where T: "ece391_write (kernel_calls env w run rest) 1 buf (int n) (k, M) = Some (int n, Suc k, M\<lparr>k_terms := T\<rparr>)"
    "output_ready (M\<lparr>k_terms := T\<rparr>)" "view env (M\<lparr>k_terms := T\<rparr>) = view env M"
    "my_screen (M\<lparr>k_terms := T\<rparr>) = fold show_char (load (view env M) buf n) (my_screen M)"
    by (rule write_out [OF out n(2) assms(3) n(1) assms(4)])
  have "maps_image env p (M\<lparr>k_terms := T\<rparr>)" using maps_image_cong [of "M\<lparr>k_terms := T\<rparr>" M env p] r by simp
  then have "file_ready env p fd inode (M\<lparr>k_terms := T\<rparr>)" using r T(2) unfolding file_ready_def T(3) by simp
  moreover have "unread env fd (M\<lparr>k_terms := T\<rparr>) = unread env fd M" unfolding unread_def T(3) by simp
  ultimately show ?thesis using T(1,4) by blast
qed

interpretation kio: file_to_terminal "kernel_calls env w run rest" "\<lambda>S. file_ready env p fd inode (snd S)" fd
    "\<lambda>S. unread env fd (snd S)" "\<lambda>S. my_screen (snd S)" in_window
  for env w run rest p fd inode
proof
  show "in_window buf n \<Longrightarrow> k \<le> n \<Longrightarrow> in_window buf k" for buf n k by (simp add: in_window_def)
next
  fix S :: session and buf n
  assume "file_ready env p fd inode (snd S)" "in_window buf n" "0 < n"
  from kernel_read [OF this, of w run rest "fst S"]
  show "\<exists>S'. ece391_read (kernel_calls env w run rest) fd buf (int n) S = Some (int (length (take n (unread env fd (snd S)))), S')
    \<and> file_ready env p fd inode (snd S')
    \<and> load (peek (kernel_calls env w run rest) S') buf (length (take n (unread env fd (snd S)))) = take n (unread env fd (snd S))
    \<and> unread env fd (snd S') = drop n (unread env fd (snd S)) \<and> my_screen (snd S') = my_screen (snd S)"
    unfolding stub(5) prod.collapse by (metis snd_conv)
next
  fix S :: session and buf n
  assume "file_ready env p fd inode (snd S)" "in_window buf n" "0 < n" "\<forall>b\<in>set (load (peek (kernel_calls env w run rest) S) buf n). plain_key b"
  from kernel_write [OF this(1-3) this(4) [unfolded stub(5)], of w run rest "fst S"]
  show "\<exists>S'. ece391_write (kernel_calls env w run rest) 1 buf (int n) S = Some (int n, S')
    \<and> file_ready env p fd inode (snd S') \<and> unread env fd (snd S') = unread env fd (snd S)
    \<and> my_screen (snd S') = fold show_char (load (peek (kernel_calls env w run rest) S) buf n) (my_screen (snd S))"
    unfolding stub(5) prod.collapse by (metis snd_conv)
qed

section \<open>Talking to the user\<close>

text \<open>Process \<open>p\<close> has its terminal as standard input and output, and it is the terminal on the screen, with no input pending.\<close>

definition talking :: "env \<Rightarrow> int \<Rightarrow> machine \<Rightarrow> bool" where
  "talking env p M \<longleftrightarrow> maps_image env p M \<and> output_ready M \<and> file_operation_jmp_tbl (fd_of M 0) = Terminal_driver
     \<and> flags (fd_of M 0) \<noteq> 0 \<and> accepts (pcb_term (k_pcbs M (curr M))) [] 0 (k_terms M)"

text \<open>The line typed, with the enter key, while call \<open>k\<close> waits.\<close>

definition typed_during :: "(nat \<Rightarrow> waits) \<Rightarrow> nat \<Rightarrow> u8 list \<Rightarrow> bool" where
  "typed_during w k line \<longleftrightarrow> (\<exists>scancode later. w_term (w k) = map (typed scancode) (line @ [KEY_ENTER]) @ later)
     \<and> (\<forall>b\<in>set line. plain_key b \<and> b \<noteq> NEWLINE) \<and> length line < 128"

lemma talking_poke:
  assumes "talking env p M" "in_window buf 1024" "length bs \<le> 1024"
  shows "talking env p (put_view env (store (view env M) buf bs) M)"
    and "view env (put_view env (store (view env M) buf bs) M) = store (view env M) buf bs"
    and "my_screen (put_view env (store (view env M) buf bs) M) = my_screen M"
proof -
  let ?M = "put_view env (store (view env M) buf bs) M"
  note t = assms(1) [unfolded talking_def]
  have "in_window buf (length bs)" using assms(2,3) by (simp add: in_window_def)
  then show "view env ?M = store (view env M) buf bs" using t put_view_window(1) [of env p M] by blast
  have "maps_image env p ?M" using maps_image_cong [of ?M M env p] t by simp
  then show "talking env p ?M" using t by (simp add: talking_def output_ready_def)
  show "my_screen ?M = my_screen M" by (simp add: my_screen_def)
qed

lemma talking_write:
  assumes "talking env p M" "buf \<noteq> 0" "0 < n" "n \<le> 0x400000" "\<forall>b\<in>set (load (view env M) buf n). plain_key b"
  shows "\<exists>M'. ece391_write (kernel_calls env w run rest) 1 buf (int n) (k, M) = Some (int n, Suc k, M') \<and> talking env p M'
    \<and> k_pcbs M' = k_pcbs M \<and> curr M' = curr M \<and> view env M' = view env M \<and> my_screen M' = fold show_char (load (view env M) buf n) (my_screen M)"
proof -
  note t = assms(1) [unfolded talking_def]
  have out: "output_ready M" using t by blast
  obtain T where T: "ece391_write (kernel_calls env w run rest) 1 buf (int n) (k, M) = Some (int n, Suc k, M\<lparr>k_terms := T\<rparr>)"
    "output_ready (M\<lparr>k_terms := T\<rparr>)" "view env (M\<lparr>k_terms := T\<rparr>) = view env M"
    "my_screen (M\<lparr>k_terms := T\<rparr>) = fold show_char (load (view env M) buf n) (my_screen M)"
    "accepts (pcb_term (k_pcbs M (curr M))) [] 0 T = accepts (pcb_term (k_pcbs M (curr M))) [] 0 (k_terms M)"
    by (rule write_out [OF out assms(2-5)])
  have "maps_image env p (M\<lparr>k_terms := T\<rparr>)" using maps_image_cong [of "M\<lparr>k_terms := T\<rparr>" M env p] t by simp
  then have "talking env p (M\<lparr>k_terms := T\<rparr>)" using t T(2,5) by (simp add: talking_def)
  then show ?thesis using T(1,3,4) by (intro exI [of _ "M\<lparr>k_terms := T\<rparr>"]) simp
qed

lemma talking_read:
  assumes "talking env p M" "typed_during w k line" "in_window buf 1024"
  shows "\<exists>M'. ece391_read (kernel_calls env w run rest) 0 buf 1023 (k, M) = Some (int (length line) + 1, Suc k, M') \<and> talking env p M'
    \<and> k_pcbs M' = k_pcbs M \<and> curr M' = curr M \<and> view env M' = store (view env M) buf (line @ [NEWLINE]) \<and> my_screen M' = fold show_char (line @ [NEWLINE]) (my_screen M)"
proof -
  note t = assms(1) [unfolded talking_def]
  let ?t = "pcb_term (k_pcbs M (curr M))"
  obtain scancode later where w: "w_term (w k) = map (typed scancode) (line @ [KEY_ENTER]) @ later"
    and line: "\<forall>b\<in>set line. plain_key b \<and> b \<noteq> NEWLINE" "length line < 128"
    using assms(2) unfolding typed_during_def by blast
  have chars: "\<forall>b\<in>set line. char_key b \<and> b \<noteq> KEY_ENTER" "KEY_TAB \<notin> set line"
    using line(1) by (auto simp: plain_key_def char_key_def)
  have acc: "accepts ?t [] 0 (k_terms M)" and room: "int (length line) < 1023" using t line(2) by simp_all
  obtain T where T: "terminal_read (w_term (w k)) (curr M) (k_pcbs M) buf 1023 (view env M) (k_terms M)
      = Some (int (length line) + 1, store (view env M) buf (line @ [NEWLINE]), T)" "accepts ?t [] 0 T"
    "term_ok ?t (k_terms M) \<and> KEY_TAB \<notin> set line \<longrightarrow>
      term_ok ?t T \<and> term_screen ?t T = fold show_char (line @ [NEWLINE]) (term_screen ?t (k_terms M))"
    unfolding w by (rule read_typed_line [where pcbs = "k_pcbs M" and cur = "curr M", OF acc refl chars(1) line(2) room])
  define M1 where "M1 = M\<lparr>k_terms := T\<rparr>"
  have v: "view env M1 = view env M" by (rule view_cong) (simp_all add: M1_def)
  have "maps_image env p M1" using maps_image_cong [of M1 M env p] t by (simp add: M1_def)
  then have t1: "talking env p M1" using t T(2,3) chars(2) by (simp add: talking_def output_ready_def M1_def)
  have scr: "my_screen M1 = fold show_char (line @ [NEWLINE]) (my_screen M)"
    using t T(3) chars(2) by (simp add: my_screen_def M1_def output_ready_def)
  have "length (line @ [NEWLINE]) \<le> 1024" using line(2) by simp
  note p = talking_poke [OF t1 assms(3) this, unfolded v]
  have "buf \<noteq> 0" using assms(3) by (auto simp: in_window_def)
  then have "syscall_read env (w k) 0 buf (int 1023) M = Some (int (length line) + 1, put_view env (store (view env M) buf (line @ [NEWLINE])) M1)"
    using t T(1) by (simp add: syscall_read_def driver_read_def M1_def)
  from stub(1) [where w = w and k = k and run = run and rest = rest, OF _ _ _ this] show ?thesis using p scr by (simp add: M1_def)
qed

text \<open>The contract holds with any condition \<open>Q\<close> on the control block of the process, as these calls leave it alone.\<close>

interpretation ktalk: line_terminal "kernel_calls env w run rest" "\<lambda>S. talking env p (snd S) \<and> Q (k_pcbs (snd S) (curr (snd S)))" fst
    "typed_during w" "\<lambda>S. my_screen (snd S)" in_window
  for env w run rest p Q
proof
  let ?c = "kernel_calls env w run rest" and ?ok = "\<lambda>S :: session. talking env p (snd S) \<and> Q (k_pcbs (snd S) (curr (snd S)))"
  fix S :: session and buf n line bs m
  show "\<exists>S'. ece391_write ?c 1 buf (int n) S = Some (int n, S') \<and> ?ok S' \<and> peek ?c S' = peek ?c S \<and> fst S' = Suc (fst S)
      \<and> my_screen (snd S') = fold show_char (load (peek ?c S) buf n) (my_screen (snd S))"
    if "?ok S" "buf \<noteq> 0" "0 < n" "n \<le> 1024" "\<forall>b\<in>set (load (peek ?c S) buf n). plain_key b"
    using talking_write [of env p "snd S" buf n w run rest "fst S"] that unfolding stub(5) prod.collapse by fastforce
  show "\<exists>S'. ece391_read ?c 0 buf 1023 S = Some (int (length line) + 1, S') \<and> ?ok S'
      \<and> peek ?c S' = store (peek ?c S) buf (line @ [NEWLINE]) \<and> fst S' = Suc (fst S)
      \<and> my_screen (snd S') = fold show_char (line @ [NEWLINE]) (my_screen (snd S))"
    if "?ok S" "typed_during w (fst S) line" "in_window buf 1024"
    using talking_read [of env p "snd S" w "fst S" line buf run rest] that unfolding stub(5) prod.collapse by fastforce
  show "?ok (poke ?c m S) \<and> peek ?c (poke ?c m S) = m \<and> fst (poke ?c m S) = fst S \<and> my_screen (snd (poke ?c m S)) = my_screen (snd S)"
    if "?ok S" "in_window buf 1024" "length bs \<le> 1024" "m = store (peek ?c S) buf bs"
    using talking_poke [OF conjunct1 [OF that(1)] that(2,3)] that(1,4) unfolding stub(5,6) by simp
qed (auto simp: typed_during_def in_window_def)

section \<open>Opening a file\<close>

text \<open>The regular file \<open>name\<close> can be opened: it is entry \<open>i\<close> of the directory in the kernel memory \<open>P\<close>, its content
  is there too, \<open>fd\<close> is the first free descriptor, and the string that the jump table's open operation takes for
  its argument is the name of no file.\<close>

definition can_open :: "env \<Rightarrow> machine \<Rightarrow> u32 set \<Rightarrow> u8 list list \<Rightarrow> nat \<Rightarrow> u8 list \<Rightarrow> u32 \<Rightarrow> int \<Rightarrow> u8 list \<Rightarrow> bool" where
  "can_open env M P names i name inode fd stray \<longleftrightarrow> in_kernel (e_dentry env) 64 \<and> e_dentry env \<noteq> 0
     \<and> (\<forall>x\<in>P. x < KERNEL_MEM_END) \<and> clear_of P (e_dentry env) 64
     \<and> directory (k_fs M) (view env M) names \<and> find (\<lambda>i. names ! i = name) [0..<length names] = Some i
     \<and> (\<forall>j<length names. \<forall>k<64. dentry_directory (boot_block (k_fs M)) (of_nat j) + of_nat k \<in> P)
     \<and> (\<forall>j<length names. length (names ! j) < 64)
     \<and> filetype_of (view env M) (dentry_directory (boot_block (k_fs M)) (of_nat i)) = FILE_TYPE
     \<and> inode_index_of (view env M) (dentry_directory (boot_block (k_fs M)) (of_nat i)) = inode
     \<and> footprint (k_fs M) (view env M) inode \<subseteq> P \<and> Suc (file_length (k_fs M) (view env M) inode) < 2 ^ 32
     \<and> fd \<in> {2..<FD_MAX} \<and> fd \<notin> open_fds (k_pcbs M (curr M)) \<and> {2..<fd} \<subseteq> open_fds (k_pcbs M (curr M))
     \<and> cstr (view env M) (e_arg env) stray \<and> stray \<notin> set names \<and> (\<forall>k\<le>length stray. e_arg env + of_nat k \<in> P)"

lemma filetype_store: "filetype_of (store m frame (load m e 64)) frame = filetype_of m e"
proof -
  have "store m frame (load m e 64) (frame + of_nat (32 + j)) = m (e + of_nat (32 + j))" if "j < 4" for j
    using that store_at [of "32 + j" "load m e 64" m frame] by (simp del: of_nat_add)
  from this [of 0] this [of 1] this [of 2] this [of 3] show ?thesis
    by (simp add: filetype_of_def get32_def add.assoc)
qed

lemma directory_agree:
  assumes "directory fs m names" "\<And>j. j < length names \<Longrightarrow> length (names ! j) < 64"
    and "\<And>j k. j < length names \<Longrightarrow> k < 64 \<Longrightarrow> dentry_directory (boot_block fs) (of_nat j) + of_nat k \<in> P"
    and "\<And>a. a \<in> P \<Longrightarrow> m' a = m a"
  shows "directory fs m' names"
  unfolding directory_def
proof (intro conjI allI impI)
  show "length names = unat (num_directories fs)" using assms(1) by (simp add: directory_def)
  fix j assume j: "j < length names"
  show "cstr m' (dentry_directory (boot_block fs) (of_nat j)) (names ! j)"
  proof (rule cstr_agree [of m])
    show "cstr m (dentry_directory (boot_block fs) (of_nat j)) (names ! j)" using assms(1) j by (simp add: directory_def)
    show "m' (dentry_directory (boot_block fs) (of_nat j) + of_nat k) = m (dentry_directory (boot_block fs) (of_nat j) + of_nat k)"
      if "k \<le> length (names ! j)" for k
      using that assms(2) [OF j] by (intro assms(4) assms(3) [OF j]) simp
  qed
qed

text \<open>What the first lookup leaves in memory: the entry in the frame, and the directory, the file and the
  stray string as they were.\<close>

lemma can_openD:
  assumes "can_open env M P names i name inode fd stray"
  shows "\<forall>x\<in>P. x < KERNEL_MEM_END" "clear_of P (e_dentry env) 64"
    and "directory (k_fs M) (view env M) names" "e_dentry env \<noteq> 0" "find (\<lambda>i. names ! i = name) [0..<length names] = Some i"
    and "\<forall>j<length names. \<forall>k<64. dentry_directory (boot_block (k_fs M)) (of_nat j) + of_nat k \<in> P" "\<forall>j<length names. length (names ! j) < 64"
    and "filetype_of (view env M) (dentry_directory (boot_block (k_fs M)) (of_nat i)) = FILE_TYPE"
    and "inode_index_of (view env M) (dentry_directory (boot_block (k_fs M)) (of_nat i)) = inode"
    and "cstr (view env M) (e_arg env) stray" "stray \<notin> set names" "\<forall>k\<le>length stray. e_arg env + of_nat k \<in> P"
    and "in_kernel (e_dentry env) 64" "footprint (k_fs M) (view env M) inode \<subseteq> P" "Suc (file_length (k_fs M) (view env M) inode) < 2 ^ 32"
    and "fd \<in> {2..<FD_MAX}" "fd \<notin> open_fds (k_pcbs M (curr M))" "{2..<fd} \<subseteq> open_fds (k_pcbs M (curr M))"
  using assms unfolding can_open_def by blast+

lemma open_lookup:
  assumes co: "can_open env M P names i name inode fd stray" and nm: "cstr (view env M) buf name"
    and m1: "m1 = store (view env M) (e_dentry env) (load (view env M) (dentry_directory (boot_block (k_fs M)) (of_nat i)) 64)"
  shows "read_dentry_by_name (k_fs M) (view env M) buf (e_dentry env) = Some (0, m1)"
    and "read_dentry_by_name (k_fs M) m1 (e_arg env) (e_dentry env) = Some (-1, m1)"
    and "filetype_of m1 (e_dentry env) = FILE_TYPE" "inode_index_of m1 (e_dentry env) = inode"
    and "\<And>a. a \<in> P \<Longrightarrow> m1 a = view env M a"
proof -
  let ?e = "\<lambda>j. dentry_directory (boot_block (k_fs M)) (of_nat j)"
  note c = can_openD [OF co]
  have same: "m1 a = view env M a" if "a \<in> P" for a
    using c(2) that unfolding m1 by (intro store_other) (simp add: clear_of_def)
  then show "\<And>a. a \<in> P \<Longrightarrow> m1 a = view env M a" .
  have in_P: "?e j + of_nat k \<in> P" if "j < length names" "k < 64" for j k using c(6) that by blast
  have apart: "64 \<le> unat (e_dentry env - ?e j)" if "j < length names" for j
    by (rule clear_entry [OF in_P [OF that] c(2)]) simp_all
  show "read_dentry_by_name (k_fs M) (view env M) buf (e_dentry env) = Some (0, m1)"
    using read_dentry_by_name_names [OF c(3) nm c(4) apart] c(5) by (simp add: m1)
  have dir1: "directory (k_fs M) m1 names" by (rule directory_agree [OF c(3) _ in_P]) (use c(7) same in blast)+
  have stray: "cstr m1 (e_arg env) stray"
    by (rule cstr_agree [OF c(10)], rule same) (use c(12) in blast)
  have "find (\<lambda>i. names ! i = stray) [0..<length names] = None" using c(11) by (auto simp: find_None_iff)
  then show "read_dentry_by_name (k_fs M) m1 (e_arg env) (e_dentry env) = Some (-1, m1)"
    using read_dentry_by_name_names [OF dir1 stray c(4) apart] by simp
  show "filetype_of m1 (e_dentry env) = FILE_TYPE" "inode_index_of m1 (e_dentry env) = inode"
    unfolding m1 filetype_store inode_index_store by (rule c(8), rule c(9))
qed

lemma syscall_open_result:
  assumes img: "maps_image env p M" and co: "can_open env M P names i name inode fd stray"
    and nm: "cstr (view env M) buf name" "buf \<noteq> 0"
  obtains M' q where "syscall_open env buf M = Some (fd, M')" "k_pcbs M' = (k_pcbs M)(curr M := q)"
    and "elements q = (elements (k_pcbs M (curr M)))(fd := \<lparr>file_operation_jmp_tbl = File_driver, inode_ptr = inode, file_position = 0, flags = 1\<rparr>)"
    and "pcb_term q = pcb_term (k_pcbs M (curr M))" "rtc_fd q \<in> {rtc_fd (k_pcbs M (curr M)), of_int fd}"
    and "k_fs M' = k_fs M" "k_terms M' = k_terms M" "k_esp M' = k_esp M" "k_paging M' = k_paging M"
    and "\<forall>a\<in>P. view env M' a = view env M a"
proof -
  define m1 where "m1 = store (view env M) (e_dentry env) (load (view env M) (dentry_directory (boot_block (k_fs M)) (of_nat i)) 64)"
  note c = can_openD [OF co] and lk = open_lookup [OF co nm(1) m1_def]
  let ?p = "k_pcbs M (curr M)"
  let ?p1 = "?p\<lparr>elements := (elements ?p)(fd := \<lparr>file_operation_jmp_tbl = File_driver, inode_ptr = inode, file_position = 0, flags = 1\<rparr>)\<rparr>"
  define q where "q = (if strncmp m1 (e_rtc_name env) buf 3 \<noteq> -1 then ?p1\<lparr>rtc_fd := of_int fd\<rparr> else ?p1)"
  have fo: "file_open (k_fs M) (e_tbl env) (e_dentry env) buf (view env M) (curr M) (k_pcbs M) = Some (fd, m1, (k_pcbs M)(curr M := ?p1))"
    using lk(1,3,4) pcb_open_first [OF c(16-18), of "Wild_driver (e_tbl env)"] c(16) by (simp add: file_open_def Let_def)
  define M1 where "M1 = put_view env m1 (M\<lparr>k_pcbs := (k_pcbs M)(curr M := ?p1)\<rparr>)"
  define M2 where "M2 = (if strncmp m1 (e_rtc_name env) buf 3 \<noteq> -1 then upd_pcb (curr M1) (\<lambda>p. p\<lparr>rtc_fd := of_int fd\<rparr>) M1 else M1)"
  have apart: "image_apart env N" if "k_paging N = k_paging M" for N
    using maps_image_apart [OF img] image_apart_cong [OF that] by simp
  have same: "view env (M\<lparr>k_pcbs := x\<rparr>) = view env M" for x by (rule view_cong) simp_all
  have v1: "view env M1 = m1"
    using put_view_kernel(1) [OF apart, of "M\<lparr>k_pcbs := (k_pcbs M)(curr M := ?p1)\<rparr>" "e_dentry env"] c(13)
    unfolding M1_def m1_def same by simp
  have f2: "k_pcbs M2 = (k_pcbs M)(curr M := q)" "curr M2 = curr M" "k_fs M2 = k_fs M" "k_terms M2 = k_terms M" "k_esp M2 = k_esp M"
    "k_paging M2 = k_paging M"
    by (simp_all add: M2_def M1_def q_def upd_pcb_def)
  have v2: "view env M2 = m1" unfolding v1 [symmetric] by (rule view_cong) (simp_all add: M2_def upd_pcb_def)
  define M' where "M' = put_view env m1 M2"
  have "view env M' = m1"
    using put_view_kernel(1) [OF apart [OF f2(6)], of 0 "[]"] by (simp add: M'_def v2 in_kernel_def)
  moreover have q: "elements q = (elements ?p)(fd := \<lparr>file_operation_jmp_tbl = File_driver, inode_ptr = inode, file_position = 0, flags = 1\<rparr>)"
    "pcb_term q = pcb_term ?p" "rtc_fd q \<in> {rtc_fd ?p, of_int fd}"
    by (simp_all add: q_def)
  have "driver_open env File_driver M2 = Some (-1, M')"
    using lk(2) by (simp add: driver_open_def file_open_def v2 f2(2,3) M'_def)
  moreover have "file_operation_jmp_tbl (fd_of M2 fd) = File_driver" by (simp add: f2 q)
  ultimately have "syscall_open env buf M = Some (fd, M')"
    using fo nm(2) c(16) v1
    by (cases "strncmp m1 (e_rtc_name env) buf 3 = -1") (simp_all add: syscall_open_def Let_def M1_def [symmetric] M2_def)
  then show thesis
    using q f2 lk(5) \<open>view env M' = m1\<close> by (intro that [of M' q]) (simp_all add: M'_def)
qed

lemma fd_not_stdout: "2 \<le> fd \<Longrightarrow> fd < FD_MAX \<Longrightarrow> (of_int fd :: u8) \<noteq> 1"
  using uint_fd [of fd] by auto

lemma kernel_open:
  assumes img: "maps_image env p M" and co: "can_open env M P names i name inode fd stray"
    and nm: "cstr (view env M) buf name" "buf \<noteq> 0" and out: "output_ready M"
  shows "\<exists>M'. ece391_open (kernel_calls env w run rest) buf (k, M) = Some (fd, Suc k, M') \<and> file_ready env p fd inode M'
    \<and> unread env fd M' = file_bytes (k_fs M) (view env M) inode \<and> my_screen M' = my_screen M"
proof -
  note c = can_openD [OF co] and o = out [unfolded output_ready_def]
  obtain M' q where r: "syscall_open env buf M = Some (fd, M')" "k_pcbs M' = (k_pcbs M)(curr M := q)"
    "elements q = (elements (k_pcbs M (curr M)))(fd := \<lparr>file_operation_jmp_tbl = File_driver, inode_ptr = inode, file_position = 0, flags = 1\<rparr>)"
    "pcb_term q = pcb_term (k_pcbs M (curr M))" "rtc_fd q \<in> {rtc_fd (k_pcbs M (curr M)), of_int fd}"
    "k_fs M' = k_fs M" "k_terms M' = k_terms M" "k_esp M' = k_esp M" "k_paging M' = k_paging M"
    and low: "\<forall>a\<in>P. view env M' a = view env M a"
    by (rule syscall_open_result [OF img co nm])
  have low': "view env M' a = view env M a" if "a \<in> footprint (k_fs M) (view env M) inode" for a
    using c(14) that low by blast
  have agree: "file_length (k_fs M) (view env M') inode = file_length (k_fs M) (view env M) inode"
    "file_bytes (k_fs M) (view env M') inode = file_bytes (k_fs M) (view env M) inode"
    "footprint (k_fs M) (view env M') inode = footprint (k_fs M) (view env M) inode"
    by (rule file_agree, erule low')+
  have fd: "2 \<le> fd" "fd < FD_MAX" "fd \<noteq> 1" using c(16) by simp_all
  have cur: "curr M' = curr M" by (simp add: r(8))
  have rtc: "rtc_fd q \<noteq> 1" using r(5) o fd_not_stdout [OF fd(1,2)] by auto
  have below: "\<forall>a\<in>footprint (k_fs M) (view env M) inode. a < KERNEL_MEM_END" using c(1,14) by blast
  have "maps_image env p M'" using maps_image_cong [OF r(9)] img by simp
  then have "file_ready env p fd inode M'"
    unfolding file_ready_def r(6) agree cur r(2,7) using fd rtc below c(15) o by (simp add: output_ready_def cur r(2-4,7))
  moreover have "unread env fd M' = file_bytes (k_fs M) (view env M) inode"
    unfolding unread_def r(6) cur r(2) by (simp add: r(3) agree(2))
  moreover have "my_screen M' = my_screen M" by (simp add: my_screen_def cur r(2,4,7))
  ultimately show ?thesis using stub(4) [where w = w and run = run and rest = rest and k = k, OF r(1)] by blast
qed

text \<open>Opening depends on the memory \<open>P\<close> alone.\<close>

lemma can_open_agree:
  assumes co: "can_open env M P names i name inode fd stray" and v: "\<forall>a\<in>P. view env M' a = view env M a"
    and f: "k_fs M' = k_fs M" "k_pcbs M' = k_pcbs M" "curr M' = curr M"
  shows "can_open env M' P names i name inode fd stray"
proof -
  let ?e = "\<lambda>j. dentry_directory (boot_block (k_fs M)) (of_nat j)" and ?m = "view env M" and ?m' = "view env M'"
  note c = can_openD [OF co]
  have at: "?m' (?e j + of_nat k) = ?m (?e j + of_nat k)" if "j < length names" "k < 64" for j k
    using c(6) v that by blast
  have d: "directory (k_fs M) ?m' names" by (rule directory_agree [OF c(3), of P]) (use c(6,7) v in blast)+
  have "i < length names" using c(5) by (auto simp: find_Some_iff)
  then have "get32 ?m' (?e i + of_nat k) = get32 ?m (?e i + of_nat k)" if "k < 61" for k
    using that at [of i k] at [of i "k + 1"] at [of i "k + 2"] at [of i "k + 3"] by (simp add: get32_def ac_simps)
  from this [of 32] this [of 36] have "filetype_of ?m' (?e i) = filetype_of ?m (?e i)" "inode_index_of ?m' (?e i) = inode_index_of ?m (?e i)"
    by (simp_all add: filetype_of_def inode_index_of_def)
  moreover have low: "?m' a = ?m a" if "a \<in> footprint (k_fs M) ?m inode" for a using c(14) that v by blast
  have "file_length (k_fs M) ?m' inode = file_length (k_fs M) ?m inode" "footprint (k_fs M) ?m' inode = footprint (k_fs M) ?m inode"
    by (rule file_agree, erule low)+
  moreover have "cstr ?m' (e_arg env) stray" by (rule cstr_agree [OF c(10)]) (use c(12) v in blast)
  ultimately show ?thesis unfolding can_open_def f using c d by metis
qed

section \<open>A sample text file\<close>

text \<open>The file \<^verbatim>\<open>sh\<close> of the sample image holds the text \<^verbatim>\<open>Hi\<close>, and the running process has its name for argument.\<close>

definition text_image :: mem where
  "text_image = store (store sample_image 0x501000 [2]) 0x502000 [0x48, 0x69]"

definition text_machine :: machine where
  "text_machine = sample_machine\<lparr>k_phys := text_image, k_pcbs := (\<lambda>_. sample_pcb\<lparr>pcb_args := (\<lambda>_. 0)(0 := 0x73, 1 := 0x68),
     elements := (elements sample_pcb)(1 := \<lparr>file_operation_jmp_tbl = Terminal_driver, inode_ptr = 0, file_position = 0, flags = 1\<rparr>)\<rparr>)\<rparr>"

definition text_region :: "u32 set" where
  "text_region = insert 0 {0x500000..<0x503000}"

lemma text_file:
  "file_length sample_fs text_image 0 = 2" "file_bytes sample_fs text_image 0 = [0x48, 0x69]"
  "a \<in> footprint sample_fs text_image 0 \<Longrightarrow> a \<in> {0x500000..<0x503000}"
proof -
  have blk: "data_blocks sample_fs text_image = 0x502000"
    by (simp add: data_blocks_def inode_num_def sample_fs_def text_image_def sample_image_def get32_def store_def)
  have blk0: "inode_data text_image 0x501000 0 = 0"
    by (simp add: inode_data_def text_image_def sample_image_def get32_def store_def)
  have at: "byte_at sample_fs text_image 0 k = 0x502000 + of_nat k" if "k \<le> 2" for k
    using that by (simp add: byte_at_def block_at_def blk blk0 sample_inode)
  show len: "file_length sample_fs text_image 0 = 2"
    by (simp add: file_length_def inode_length_def sample_inode text_image_def sample_image_def get32_def store_def)
  show "file_bytes sample_fs text_image 0 = [0x48, 0x69]"
    by (simp add: file_bytes_def len upt_rec at) (simp add: text_image_def store_def)
  assume "a \<in> footprint sample_fs text_image 0"
  then have "a \<in> {0x500004, 0x500005, 0x500006, 0x500007, 0x501000, 0x501001, 0x501002, 0x501003,
      0x501004, 0x501005, 0x501006, 0x501007} \<union> (\<lambda>k. 0x502000 + of_nat k) ` {..2}"
    by (auto simp: footprint_def len sample_inode at) (simp_all add: sample_fs_def)
  then show "a \<in> {0x500000..<0x503000}"
    by (auto simp: word_le_nat_alt word_less_nat_alt unat_word_ariths unat_of_nat_u32)
qed

lemma text_view: "a < KERNEL_MEM_END \<Longrightarrow> view sample_env text_machine a = text_image a"
  by (simp add: view_def text_machine_def)

lemma text_can_open: "can_open sample_env text_machine text_region [[0x73, 0x68]] 0 [0x73, 0x68] 0 2 []"
proof -
  let ?M = text_machine and ?m = "view sample_env text_machine"
  have fs: "k_fs ?M = sample_fs" by (simp add: text_machine_def sample_machine_def)
  have P: "x < KERNEL_MEM_END" if "x \<in> text_region" for x using that by (auto simp: text_region_def word_less_nat_alt)
  have v: "?m a = text_image a" if "a \<in> text_region" for a using that by (intro text_view P)
  have low: "?m a = text_image a" if "a \<in> footprint sample_fs text_image 0" for a
    using text_file(3) [OF that] by (intro v) (simp add: text_region_def)
  have fl: "file_length sample_fs ?m 0 = file_length sample_fs text_image 0" "footprint sample_fs ?m 0 = footprint sample_fs text_image 0"
    by (rule file_agree, erule low)+
  have foot: "footprint sample_fs ?m 0 \<subseteq> text_region" unfolding fl by (auto simp: text_region_def dest: text_file(3))
  have "clear_of {0x500000..<0x503000} (e_dentry sample_env) 64" using sample_frames(2) by (simp add: safe_region_def frames_def)
  then have clear: "clear_of text_region (e_dentry sample_env) 64"
    by (simp add: clear_of_def text_region_def) (simp add: sample_env_def)
  have entry: "0x500040 + of_nat k \<in> text_region" if "k < 64" for k
    using that by (simp add: text_region_def word_le_nat_alt word_less_nat_alt unat_word_ariths unat_of_nat_u32)
  have at: "?m (0x500040 + of_nat k) = text_image (0x500040 + of_nat k)" if "k < 64" for k by (rule v [OF entry [OF that]])
  have bytes: "?m 0x500040 = 0x73" "?m 0x500041 = 0x68" "?m 0x500042 = 0" "get32 ?m 0x500060 = 2" "get32 ?m 0x500064 = 0"
    using at [of 0] at [of 1] at [of 2] at [of 32] at [of 33] at [of 34] at [of 35] at [of 36] at [of 37] at [of 38] at [of 39]
    by (simp_all add: get32_def) (simp_all add: text_image_def sample_image_def store_def)
  have "?m 0 = 0" using v [of 0] by (simp add: text_region_def text_image_def sample_image_def store_def)
  then have "cstr ?m (e_arg sample_env) []" "e_arg sample_env = 0" by (simp_all add: sample_env_def cstr_def load_def)
  moreover have "dentry_directory 0x500000 0 = 0x500040" "boot_block sample_fs = 0x500000" "num_directories sample_fs = 1"
    by (simp_all add: dentry_directory_def sample_fs_def)
  moreover have "open_fds (k_pcbs ?M (curr ?M)) \<inter> {2..<FD_MAX} = {}" by (auto simp: open_fds_def text_machine_def sample_pcb_def)
  moreover have "in_kernel (e_dentry sample_env) 64" "e_dentry sample_env \<noteq> 0" by (simp_all add: in_kernel_def sample_env_def)
  ultimately show ?thesis
    unfolding can_open_def fs using P clear foot entry bytes
    by (auto simp: directory_def cstr_def load_def upt_rec fl text_file(1) filetype_of_def inode_index_of_def text_region_def)
qed

section \<open>A sample dialogue\<close>

text \<open>The running process has its terminal open, string literals from 0x8005000 on and its buffer at 0x8002000.\<close>

definition talk_base :: machine where
  "talk_base = sample_machine\<lparr>k_pcbs := (\<lambda>_. sample_pcb\<lparr>elements := (\<lambda>i. \<lparr>file_operation_jmp_tbl = Terminal_driver, inode_ptr = 0, file_position = 0,
     flags = (if i < 2 then 1 else 0)\<rparr>)\<rparr>)\<rparr>"

definition lit_block :: "string list \<Rightarrow> u8 list" where
  "lit_block ss = concat (map (\<lambda>s. map of_char s @ [0]) ss)"

definition talk_machine :: "string list \<Rightarrow> machine" where
  "talk_machine ss = put_view sample_env (store (view sample_env talk_base) 0x8005000 (lit_block ss)) talk_base"

definition talk_lit :: "string list \<Rightarrow> string \<Rightarrow> u32" where
  "talk_lit ss s = 0x8005000 + of_nat (length (lit_block (takeWhile (\<lambda>x. x \<noteq> s) ss)))"

definition talk_waits :: "u8 list \<Rightarrow> nat \<Rightarrow> waits" where
  "talk_waits line k = \<lparr>w_rtc = [], w_term = map (typed 0x1E) (line @ [KEY_ENTER])\<rparr>"

lemma cstr_store_in:
  assumes "0 \<notin> set bs" "length (xs @ bs @ [0] @ ys) \<le> 2 ^ 32"
  shows "cstr (store m a (xs @ bs @ [0] @ ys)) (a + of_nat (length xs)) bs"
proof -
  have "store m a (xs @ bs @ [0] @ ys) (a + of_nat (length xs) + of_nat k) = (bs @ [0]) ! k" if "k \<le> length bs" for k
    using store_at [of "length xs + k" "xs @ bs @ [0] @ ys" m a] assms(2) that
    by (auto simp: add.assoc nth_append)
  then show ?thesis
    using assms by (auto simp: cstr_def nth_append intro!: nth_equalityI)
qed

lemma talk_ready:
  assumes "length (lit_block ss) < 1000"
  shows "talking sample_env 1 (talk_machine ss)"
    and "s \<in> set ss \<Longrightarrow> 0 \<notin> set (map of_char s :: u8 list) \<Longrightarrow> lit_ok (view sample_env (talk_machine ss)) 0x8002000 (talk_lit ss) s"
    and "k_pcbs (talk_machine ss) = k_pcbs talk_base" "curr (talk_machine ss) = curr talk_base"
proof -
  have "maps_image sample_env 1 talk_base" using sample_maps_image maps_image_cong [of talk_base sample_machine] by (simp add: talk_base_def)
  moreover have "term_ok 0 sample_terms" using sample_inv by (simp add: term_ok_def terminals_inv_def)
  ultimately have "talking sample_env 1 talk_base"
    using sample_accepts by (simp add: talking_def output_ready_def) (simp add: talk_base_def sample_pcb_def sample_machine_def)
  note t = talking_poke [OF this, of "0x8005000" "lit_block ss", folded talk_machine_def]
  show "talking sample_env 1 (talk_machine ss)" using t(1) assms by (simp add: in_window_def)
  show "k_pcbs (talk_machine ss) = k_pcbs talk_base" "curr (talk_machine ss) = curr talk_base" by (simp_all add: talk_machine_def)
  have v: "view sample_env (talk_machine ss) = store (view sample_env talk_base) 0x8005000 (lit_block ss)"
    using t(2) assms by (simp add: in_window_def)
  assume s: "s \<in> set ss" "0 \<notin> set (map of_char s :: u8 list)"
  obtain xs ys where ss: "ss = xs @ s # ys" "s \<notin> set xs" using split_list_first [OF s(1)] by blast
  have "takeWhile (\<lambda>x. x \<noteq> s) ss = xs" unfolding ss(1) using ss(2) by (induction xs) auto
  then have lit: "talk_lit ss s = 0x8005000 + of_nat (length (lit_block xs))" by (simp add: talk_lit_def)
  let ?pre = "lit_block xs"
  have block: "lit_block ss = ?pre @ map of_char s @ [0] @ lit_block ys" by (simp add: ss(1) lit_block_def)
  then have len: "length ?pre + length s < 999" using assms by simp
  have "1024 \<le> unat ((0x8005000 + of_nat j :: u32) - 0x8002000)" if "j < 2000" for j
    using that by (simp add: unat_word_ariths unat_of_nat_u32)
  from this [of "length ?pre + k" for k] have far: "1024 \<le> unat (talk_lit ss s + of_nat k - 0x8002000)" if "k \<le> length s" for k
    using that len by (simp add: lit add.assoc)
  have "talk_lit ss s \<noteq> 0" using len by (simp add: lit word_unat_eq_iff unat_word_ariths unat_of_nat_u32)
  moreover have "cstr (store (view sample_env talk_base) 0x8005000 (lit_block ss)) (talk_lit ss s) (map of_char s)"
    unfolding block lit using s(2) assms [unfolded block] by (intro cstr_store_in) simp_all
  ultimately show "lit_ok (view sample_env (talk_machine ss)) 0x8002000 (talk_lit ss) s"
    unfolding v lit_ok_def using far by blast
qed

lemma talk_typed: "(\<forall>b\<in>set line. plain_key b \<and> b \<noteq> NEWLINE) \<Longrightarrow> length line < 128 \<Longrightarrow> typed_during (talk_waits line) k line"
  unfolding typed_during_def talk_waits_def by (auto intro!: exI [of _ "0x1E"] exI [of _ "[]"])

section \<open>Properties\<close>

text \<open>C15: The shell runs the line that is typed.  When a process talks to its terminal, the prompt and the string \<^verbatim>\<open>exit\<close> are in its
  memory, and a line is typed after the prompt, one turn of the shell's loop shows the prompt and
  the echoed line, and has the line in its buffer with the terminator in place of the newline.  The shell then
  returns 0 if the line is \<^verbatim>\<open>exit\<close>, prompts again if it is empty, and otherwise hands the line to \<open>execute\<close>, reports the status
  and goes on.\<close>

theorem shell_runs_line:
  assumes "talking env p M" "in_window buf 1024" "typed_during w (Suc k) line"
    and "lit_ok (view env M) buf lit ''391OS> ''" "lit_ok (view env M) buf lit ''exit''"
  shows "\<exists>M'. talking env p M' \<and> view env M' = store (view env M) buf (line @ [0])
    \<and> my_screen M' = fold show_char (map of_char ''391OS> '' @ line @ [NEWLINE]) (my_screen M)
    \<and> shell_loop (kernel_calls env w run rest) lit buf (k, M) =
        (if line = map of_char ''exit'' then Some (0, Suc (Suc k), M')
         else if line = [] then shell_loop (kernel_calls env w run rest) lit buf (Suc (Suc k), M')
         else do { (rval, S) \<leftarrow> ece391_execute (kernel_calls env w run rest) buf (Suc (Suc k), M');
                   S \<leftarrow> shell_report (kernel_calls env w run rest) lit rval S;
                   shell_loop (kernel_calls env w run rest) lit buf S })"
  using ktalk.shell_step [of env p "(k, M)" "\<lambda>_. True" buf w line run rest lit] assms unfolding stub(5) by fastforce

theorem shell_runs_line_witness:
  "\<exists>M'. shell_loop (kernel_calls sample_env (talk_waits (map of_char ''exit'')) (\<lambda>_ _. None) 0) (talk_lit [''391OS> '', ''exit'']) 0x8002000
    (0, talk_machine [''391OS> '', ''exit'']) = Some (0, 2, M')"
proof -
  let ?s1 = "''391OS> ''" and ?s2 = "''exit''"
  have "talking sample_env 1 (talk_machine [?s1, ?s2])" "lit_ok (view sample_env (talk_machine [?s1, ?s2])) 0x8002000 (talk_lit [?s1, ?s2]) ?s1"
    "lit_ok (view sample_env (talk_machine [?s1, ?s2])) 0x8002000 (talk_lit [?s1, ?s2]) ?s2"
    by (rule talk_ready(1); simp add: lit_block_def) (rule talk_ready(2); simp add: lit_block_def)+
  moreover have "typed_during (talk_waits (map of_char ''exit'')) (Suc 0) (map of_char ''exit'')" by (rule talk_typed) (simp_all add: plain_key_def)
  moreover have "in_window 0x8002000 1024" by (simp add: in_window_def)
  ultimately show ?thesis
    using shell_runs_line [of sample_env 1 "talk_machine [?s1, ?s2]" "0x8002000" "talk_waits (map of_char ''exit'')" 0 "map of_char ''exit''" "talk_lit [?s1, ?s2]" "\<lambda>_ _. None" 0]
    by (auto simp: numeral_2_eq_2)
qed

text \<open>\<open>hello\<close> greets the user by the name typed.  The dialogue on the screen is the question, the echoed name, and the
  greeting with the name.\<close>

theorem hello_greets_user:
  assumes "talking env p M" "in_window buf 1024" "typed_during w (Suc k) name"
    and "lit_ok (view env M) buf lit ''Hi, what's your name? ''" "lit_ok (view env M) buf lit ''Hello, ''"
  shows "\<exists>k' M'. hello_main (kernel_calls env w run rest) lit buf (k, M) = Some (0, k', M')
    \<and> my_screen M' = fold show_char (map of_char ''Hi, what's your name? '' @ name @ [NEWLINE] @ map of_char ''Hello, '' @ name @ [NEWLINE]) (my_screen M)"
  using ktalk.hello_greets [of env p "(k, M)" "\<lambda>_. True" buf w name run rest lit] assms unfolding stub(5) by fastforce

theorem hello_greets_user_witness:
  "\<exists>k' M'. hello_main (kernel_calls sample_env (talk_waits [0x41]) (\<lambda>_ _. None) 0) (talk_lit [''Hi, what's your name? '', ''Hello, '']) 0x8002000
    (0, talk_machine [''Hi, what's your name? '', ''Hello, '']) = Some (0, k', M')"
proof -
  let ?s1 = "''Hi, what's your name? ''" and ?s2 = "''Hello, ''"
  have "talking sample_env 1 (talk_machine [?s1, ?s2])" "lit_ok (view sample_env (talk_machine [?s1, ?s2])) 0x8002000 (talk_lit [?s1, ?s2]) ?s1"
    "lit_ok (view sample_env (talk_machine [?s1, ?s2])) 0x8002000 (talk_lit [?s1, ?s2]) ?s2"
    by (rule talk_ready(1); simp add: lit_block_def) (rule talk_ready(2); simp add: lit_block_def)+
  moreover have "typed_during (talk_waits ([0x41])) (Suc 0) ([0x41])" by (rule talk_typed) (simp_all add: plain_key_def)
  moreover have "in_window 0x8002000 1024" by (simp add: in_window_def)
  ultimately show ?thesis
    using hello_greets_user [of sample_env 1 "talk_machine [?s1, ?s2]" "0x8002000" "talk_waits ([0x41])" 0 "[0x41]" "talk_lit [?s1, ?s2]" "\<lambda>_ _. None" 0]
    by blast
qed

text \<open>C38: \<open>counter\<close> refuses every choice.  The line read from the terminal keeps its newline, so the choices \<^verbatim>\<open>0\<close>, \<^verbatim>\<open>1\<close> and \<^verbatim>\<open>2\<close> are two
  characters long like any other line that is not empty, and the program answers that the choice is wrong.\<close>

theorem counter_refuses_choice:
  assumes "talking env p M" "in_window buf 1024" "typed_during w (Suc k) line" "line \<noteq> []"
    and "lit_ok (view env M) buf lit (''Enter the Test Number: (0): 100, (1): 10000, (2): 100000'' @ [CHR 0x0A])"
    and "lit_ok (view env M) buf lit (''Wrong Choice!'' @ [CHR 0x0A])"
  shows "\<exists>k' M'. counter_main (kernel_calls env w run rest) lit buf (k, M) = Some (0, k', M')
    \<and> my_screen M' = fold show_char (map of_char (''Enter the Test Number: (0): 100, (1): 10000, (2): 100000'' @ [CHR 0x0A])
        @ line @ [NEWLINE] @ map of_char (''Wrong Choice!'' @ [CHR 0x0A])) (my_screen M)"
  using ktalk.counter_refuses [of env p "(k, M)" "\<lambda>_. True" buf w line run rest lit] assms unfolding stub(5) by fastforce

theorem counter_refuses_choice_witness:
  "\<exists>k' M'. counter_main (kernel_calls sample_env (talk_waits [0x30]) (\<lambda>_ _. None) 0)
      (talk_lit [''Enter the Test Number: (0): 100, (1): 10000, (2): 100000'' @ [CHR 0x0A], ''Wrong Choice!'' @ [CHR 0x0A]]) 0x8002000
      (0, talk_machine [''Enter the Test Number: (0): 100, (1): 10000, (2): 100000'' @ [CHR 0x0A], ''Wrong Choice!'' @ [CHR 0x0A]])
    = Some (0, k', M')"
proof -
  let ?s1 = "''Enter the Test Number: (0): 100, (1): 10000, (2): 100000'' @ [CHR 0x0A]" and ?s2 = "''Wrong Choice!'' @ [CHR 0x0A]"
  have "talking sample_env 1 (talk_machine [?s1, ?s2])" "lit_ok (view sample_env (talk_machine [?s1, ?s2])) 0x8002000 (talk_lit [?s1, ?s2]) ?s1"
    "lit_ok (view sample_env (talk_machine [?s1, ?s2])) 0x8002000 (talk_lit [?s1, ?s2]) ?s2"
    by (rule talk_ready(1); simp add: lit_block_def) (rule talk_ready(2); simp add: lit_block_def)+
  moreover have "typed_during (talk_waits ([0x30])) (Suc 0) ([0x30])" by (rule talk_typed) (simp_all add: plain_key_def)
  moreover have "in_window 0x8002000 1024" by (simp add: in_window_def)
  ultimately show ?thesis
    using counter_refuses_choice [of sample_env 1 "talk_machine [?s1, ?s2]" "0x8002000" "talk_waits ([0x30])" 0 "[0x30]" "talk_lit [?s1, ?s2]" "\<lambda>_ _. None" 0]
    by blast
qed

text \<open>C16: \<open>cat\<close> shows a file.  A process whose argument string names a regular file of text, whose standard
  output is its terminal and which has a descriptor left, runs \<open>cat\<close> to its end: the program returns 0,
  having written exactly the bytes of the file, in order, to the terminal of the process, and the file is read up to its end.\<close>

theorem cat_prints_file:
  assumes "maps_image env p M" "can_open env M P names i name inode fd stray" "output_ready M"
    and "has_args (k_pcbs M (curr M)) name" "length name < 1024" "in_window buf 1024"
    and "\<forall>b\<in>set (file_bytes (k_fs M) (view env M) inode). plain_key b"
  shows "\<exists>k' M'. cat_main (kernel_calls env w run rest) lit buf (k, M) = Some (0, k', M') \<and> unread env fd M' = []
    \<and> my_screen M' = fold show_char (file_bytes (k_fs M) (view env M) inode) (my_screen M)"
proof -
  let ?c = "kernel_calls env w run rest"
  note c = can_openD [OF assms(2)]
  define M1 where "M1 = put_view env (store (view env M) buf (name @ [0])) M"
  have b: "buf \<noteq> 0" "in_window buf (length (name @ [0]))" using assms(5,6) by (auto simp: in_window_def)
  have get: "ece391_getargs ?c buf 1024 (k, M) = Some (0, Suc k, M1)"
    using getargs_result [OF assms(4) b(1), of 1024 env] assms(5) stub(3) [of 1024 env buf M 0 M1 w run rest k] by (simp add: M1_def)
  have v: "view env M1 = store (view env M) buf (name @ [0])" unfolding M1_def by (rule put_view_window(1) [OF assms(1) b(2)])
  have f: "k_fs M1 = k_fs M" "k_pcbs M1 = k_pcbs M" "curr M1 = curr M" "k_terms M1 = k_terms M" "k_paging M1 = k_paging M"
    by (simp_all add: M1_def)
  have low: "\<forall>a\<in>P. view env M1 a = view env M a"
    using clear_of_window [OF c(1) b(2)] unfolding v by (simp add: clear_of_def store_other)
  have same: "file_bytes (k_fs M) (view env M1) inode = file_bytes (k_fs M) (view env M) inode"
    by (rule file_agree) (use c(14) low in blast)
  have "cstr (view env M1) buf name"
    unfolding v using assms(4) cstr_length by (intro cstr_store) (auto simp: has_args_def cstr_def)
  then obtain M2 where 2: "ece391_open ?c buf (Suc k, M1) = Some (fd, Suc (Suc k), M2)" "file_ready env p fd inode M2"
    "unread env fd M2 = file_bytes (k_fs M) (view env M) inode" "my_screen M2 = my_screen M1"
    using kernel_open [OF _ can_open_agree [OF assms(2) low f(1-3)], of p buf w run rest "Suc k"] b(1) maps_image_cong [OF f(5)] assms(1,3)
    by (auto simp: output_ready_def f same)
  obtain k3 M3 where 3: "cat_loop ?c lit fd buf (Suc (Suc k), M2) = Some (0, k3, M3)" "unread env fd M3 = []"
    "my_screen M3 = fold show_char (unread env fd M2) (my_screen M2)"
    using kio.cat_loop_copies [of env p fd inode "(Suc (Suc k), M2)" buf w run rest lit] 2(2,3) assms(6,7) by auto
  have "fd \<noteq> -1" using c(16) by simp
  then have "cat_main ?c lit buf (k, M) = Some (0, k3, M3)" using get 2(1) 3(1) by (simp add: cat_main_def)
  moreover have "my_screen M1 = my_screen M" by (simp add: my_screen_def f)
  ultimately show ?thesis using 2(3,4) 3(2,3) by simp
qed

theorem cat_prints_file_witness:
  "\<exists>k' M'. cat_main (kernel_calls sample_env (\<lambda>_. \<lparr>w_rtc = [], w_term = []\<rparr>) (\<lambda>_ _. None) 0) (\<lambda>_. 0x8004000) 0x8002000 (0, text_machine) = Some (0, k', M') \<and> unread sample_env 2 M' = []
    \<and> my_screen M' = show_char 0x69 (show_char 0x48 (my_screen text_machine))"
proof -
  let ?M = text_machine
  have fs: "k_fs ?M = sample_fs" by (simp add: text_machine_def sample_machine_def)
  have "view sample_env ?M a = text_image a" if "a \<in> footprint sample_fs text_image 0" for a
    using text_file(3) [OF that] by (intro text_view) (simp add: word_less_nat_alt)
  then have bytes: "file_bytes sample_fs (view sample_env ?M) 0 = [0x48, 0x69]"
    unfolding text_file(2) [symmetric] by (rule file_agree)
  have "maps_image sample_env 1 ?M" using sample_maps_image maps_image_cong [of ?M sample_machine] by (simp add: text_machine_def)
  moreover have "term_ok 0 sample_terms" using sample_inv by (simp add: term_ok_def terminals_inv_def)
  then have "output_ready ?M" by (simp add: output_ready_def text_machine_def sample_pcb_def) (simp add: sample_machine_def)
  moreover have "has_args (k_pcbs ?M (curr ?M)) [0x73, 0x68]"
    by (simp add: text_machine_def has_args_def cstr_def load_def args_mem_def upt_rec)
  ultimately show ?thesis
    using cat_prints_file [OF _ text_can_open, of 1 "0x8002000" "\<lambda>_. \<lparr>w_rtc = [], w_term = []\<rparr>" "\<lambda>_ _. None" 0 "\<lambda>_. 0x8004000" 0] unfolding fs bytes
    by (simp add: in_window_def plain_key_def)
qed

end
