(* ===== verification/Exercises.thy ===== *)
theory Exercises
  imports User
begin

text \<open>
  Programs that exercise the kernel: \<^verbatim>\<open>syscalls/ece391syserr.c\<close>, whose tests make system calls with bad arguments, and
  \<^verbatim>\<open>syscalls/ece391pingpong.c\<close>, which moves a character across the screen by the clock.  What the tests expect of the
  system is the locale \<open>strict_terminal\<close>; the kernel's calls satisfy it for a process that has opened no file, so the tests pass.
\<close>

section \<open>syserr\<close>

abbreviation NEG_FD :: int where "NEG_FD \<equiv> -1073741823"
abbreviation BIG_FD :: int where "BIG_FD \<equiv> 1073741823"

text \<open>A call that must fail: if it does not, the message is printed and the test has failed.\<close>

definition attempt :: "'s calls \<Rightarrow> (string \<Rightarrow> u32) \<Rightarrow> string \<Rightarrow> ('s \<Rightarrow> (int \<times> 's) option) \<Rightarrow> int \<times> 's \<Rightarrow> (int \<times> 's) option" where
  "attempt c lit msg f x =
     do { (r, S) \<leftarrow> f (snd x);
          if r \<noteq> -1 then do { S \<leftarrow> say c lit (msg @ [CHR 0x0A]) S; Some (2, S) } else Some (fst x, S) }"

definition verdict :: "'s calls \<Rightarrow> (string \<Rightarrow> u32) \<Rightarrow> string \<Rightarrow> int \<times> 's \<Rightarrow> (int \<times> 's) option" where
  "verdict c lit test x =
     do { S \<leftarrow> say c lit (test @ (if fst x \<noteq> 0 then '': FAIL'' else '': PASS'') @ [CHR 0x0A]) (snd x); Some (fst x, S) }"

primrec each :: "('i \<Rightarrow> 'x \<Rightarrow> 'x option) \<Rightarrow> 'i list \<Rightarrow> 'x \<Rightarrow> 'x option" where
  "each f [] x = Some x"
| "each f (i # is) x = do { x \<leftarrow> f i x; each f is x }"

definition err_neg_fd :: "'s calls \<Rightarrow> (string \<Rightarrow> u32) \<Rightarrow> u32 \<Rightarrow> 's \<Rightarrow> (int \<times> 's) option" where
  "err_neg_fd c lit buf S =
     do { x \<leftarrow> attempt c lit ''read fail'' (ece391_read c NEG_FD buf 31) (0, S);
          x \<leftarrow> attempt c lit ''write fail'' (ece391_write c NEG_FD buf 31) x;
          x \<leftarrow> attempt c lit ''close fail'' (ece391_close c NEG_FD) x;
          verdict c lit ''err_neg_fd'' x }"

definition err_big_fd :: "'s calls \<Rightarrow> (string \<Rightarrow> u32) \<Rightarrow> u32 \<Rightarrow> 's \<Rightarrow> (int \<times> 's) option" where
  "err_big_fd c lit buf S =
     do { x \<leftarrow> attempt c lit ''read fail'' (ece391_read c BIG_FD buf 31) (0, S);
          x \<leftarrow> attempt c lit ''write fail'' (ece391_write c BIG_FD buf 31) x;
          x \<leftarrow> attempt c lit ''close fail'' (ece391_close c BIG_FD) x;
          verdict c lit ''err_big_fd'' x }"

definition err_open_lots :: "'s calls \<Rightarrow> (string \<Rightarrow> u32) \<Rightarrow> 's \<Rightarrow> (int \<times> 's) option" where
  "err_open_lots c lit S =
     do { (cnt, S) \<leftarrow> each (\<lambda>_ (cnt, S). do { (r, S) \<leftarrow> ece391_open c (lit ''.'') S; Some (if r = -1 then cnt + 1 else cnt, S) }) [0..6] (0 :: int, S);
          S \<leftarrow> each (\<lambda>i S. do { (_, S) \<leftarrow> ece391_close c i S; Some S }) [2..7] S;
          if cnt = 1 then do { S \<leftarrow> say c lit (''err_open_lots: PASS'' @ [CHR 0x0A]) S; Some (0, S) }
          else do { S \<leftarrow> say c lit (''err_open_lots: FAIL'' @ [CHR 0x0A]) S; Some (2, S) } }"

definition err_open :: "'s calls \<Rightarrow> (string \<Rightarrow> u32) \<Rightarrow> 's \<Rightarrow> (int \<times> 's) option" where
  "err_open c lit S =
     do { x \<leftarrow> attempt c lit ([CHR 0x27] @ ''helloo'' @ [CHR 0x27] @ '' fail'') (ece391_open c (lit ''helloo'')) (0, S);
          x \<leftarrow> attempt c lit ([CHR 0x27] @ ''shel'' @ [CHR 0x27] @ '' fail'') (ece391_open c (lit ''shel'')) x;
          x \<leftarrow> attempt c lit ''empty string fail'' (ece391_open c (lit '''')) x;
          verdict c lit ''err_open'' x }"

definition err_unopened :: "'s calls \<Rightarrow> (string \<Rightarrow> u32) \<Rightarrow> u32 \<Rightarrow> 's \<Rightarrow> (int \<times> 's) option" where
  "err_unopened c lit buf S =
     do { x \<leftarrow> each (\<lambda>i. attempt c lit ''close unopened or invalid fd fail'' (ece391_close c i)) [0..7] (0, S);
          x \<leftarrow> each (\<lambda>i. attempt c lit ''read from unopened fd fail'' (ece391_read c i buf 31)) [2..7] x;
          x \<leftarrow> each (\<lambda>i. attempt c lit ''write to unopened fd fail'' (ece391_write c i buf 31)) [2..7] x;
          verdict c lit ''err_unopened'' x }"

definition err_vidmap :: "'s calls \<Rightarrow> (string \<Rightarrow> u32) \<Rightarrow> 's \<Rightarrow> (int \<times> 's) option" where
  "err_vidmap c lit S =
     do { x \<leftarrow> attempt c lit ''Null pointer fail'' (ece391_vidmap c 0) (0, S);
          x \<leftarrow> attempt c lit ''Kernel pointer fail fail'' (ece391_vidmap c 0x400000) x;
          verdict c lit ''err_vidmap'' x }"

definition err_stdin_out :: "'s calls \<Rightarrow> (string \<Rightarrow> u32) \<Rightarrow> u32 \<Rightarrow> 's \<Rightarrow> (int \<times> 's) option" where
  "err_stdin_out c lit buf S =
     do { x \<leftarrow> attempt c lit ''write to stdin fail'' (ece391_write c 0 buf 31) (0, S);
          x \<leftarrow> attempt c lit ''read from stdout fail'' (ece391_read c 1 buf 31) x;
          verdict c lit ''err_stdin_out'' x }"

definition err_syscall_num :: "'s calls \<Rightarrow> (string \<Rightarrow> u32) \<Rightarrow> 's \<Rightarrow> (int \<times> 's) option" where
  "err_syscall_num c lit S =
     do { x \<leftarrow> attempt c lit ''syscall 0 fail'' (call_sys c (of_int 1073741823)) (0, S);
          x \<leftarrow> attempt c lit ''big num syscall fail'' (call_sys c (of_int (-1073741823))) x;
          x \<leftarrow> attempt c lit ''neg num syscall fail'' (call_sys c 0) x;
          verdict c lit ''err_syscall_num'' x }"

text \<open>\<open>buf\<close> is the buffer of \<open>main\<close>, \<open>tbuf\<close> the place on the stack for those of the tests.\<close>

definition syserr_main :: "'s calls \<Rightarrow> (string \<Rightarrow> u32) \<Rightarrow> u32 \<Rightarrow> u32 \<Rightarrow> 's \<Rightarrow> (int \<times> 's) option" where
  "syserr_main c lit buf tbuf S =
     do { S \<leftarrow> say c lit ''Choose from tests 1-8. 0 to run all: '' S;
          (cnt, S) \<leftarrow> ece391_read c 0 buf 127 S;
          if cnt = -1 then do { S \<leftarrow> say c lit (''Can't read test #'' @ [CHR 0x0A]) S; Some (2, S) }
          else do {
            let select = uint (peek c S buf) - 0x30;
            let tests = [err_neg_fd c lit tbuf, err_big_fd c lit tbuf, err_open_lots c lit, err_open c lit, err_unopened c lit tbuf,
              err_vidmap c lit, err_stdin_out c lit tbuf, err_syscall_num c lit];
            if select = 0 then
              do { (fail, S) \<leftarrow> each (\<lambda>test (fail, S). do { (r, S) \<leftarrow> test S; Some (fail + r, S) }) tests (0, S);
                   S \<leftarrow> say c lit ([CHR 0x0A] @ (if fail \<noteq> 0 then ''Overall Tests: FAIL'' else ''Overall Tests: PASS'') @ [CHR 0x0A]) S;
                   Some (fail, S) }
            else if 1 \<le> select \<and> select \<le> 8 then (tests ! nat (select - 1)) S
            else do { S \<leftarrow> say c lit ''Invalid test number. Choose from tests 1-8 or 0'' S; Some (0, S) } } }"

section \<open>pingpong\<close>

definition pingpong_frame :: "'s calls \<Rightarrow> u32 \<Rightarrow> u32 \<Rightarrow> int \<Rightarrow> u8 \<Rightarrow> int \<Rightarrow> 's \<Rightarrow> 's option" where
  "pingpong_frame c buf garbage rtcfd curchar j S =
     do { let m = for_range 2 78 (\<lambda>i m. m(buf + of_int i := SPACE)) (peek c S);
          S \<leftarrow> ece391_fdputs c 1 buf (poke c (m(buf + of_int j := curchar)) S);
          (_, S) \<leftarrow> ece391_read c rtcfd garbage 4 S;
          Some S }"

partial_function (option) pingpong_loop :: "'s calls \<Rightarrow> u32 \<Rightarrow> u32 \<Rightarrow> int \<Rightarrow> u8 \<Rightarrow> 's \<Rightarrow> (int \<times> 's) option" where
  "pingpong_loop c buf garbage rtcfd curchar S =
     do { S \<leftarrow> each (pingpong_frame c buf garbage rtcfd curchar) [2..77] S;
          S \<leftarrow> each (pingpong_frame c buf garbage rtcfd curchar) (rev [2..77]) S;
          pingpong_loop c buf garbage rtcfd (if curchar = chr CHR ''Z'' then chr CHR ''A'' else curchar + 1) S }"

definition pingpong_main :: "'s calls \<Rightarrow> (string \<Rightarrow> u32) \<Rightarrow> u32 \<Rightarrow> u32 \<Rightarrow> u32 \<Rightarrow> 's \<Rightarrow> (int \<times> 's) option" where
  "pingpong_main c lit buf ret_val garbage S =
     do { let m = for_range 0 81 (\<lambda>i m. m(buf + of_int i := SPACE)) (peek c S);
          let S = poke c (m(buf + 80 := 0, buf + 79 := NEWLINE, buf + 78 := chr CHR ''|'', buf + 1 := chr CHR ''|'')) S;
          (rtcfd, S) \<leftarrow> ece391_open c (lit ''rtc'') S;
          (r, S) \<leftarrow> ece391_write c rtcfd ret_val 4 (poke c (put32 (peek c S) ret_val 32) S);
          pingpong_loop c buf garbage rtcfd (chr CHR ''A'') (poke c (put32 (peek c S) ret_val (of_int r)) S) }"

text \<open>The ball is never at rest: \<open>main\<close> does not return, whatever the system calls do.\<close>

lemma pingpong_never_returns: "pingpong_main c lit buf ret_val garbage S = None"
proof -
  have loop: "pingpong_loop c buf garbage rtcfd curchar S = None" for rtcfd curchar S
  proof (rule ccontr)
    assume "pingpong_loop c buf garbage rtcfd curchar S \<noteq> None"
    then obtain r where "pingpong_loop c buf garbage rtcfd curchar S = Some r" by blast
    then show False
    proof (rule pingpong_loop.raw_induct [rotated, where P = "\<lambda>_ _ _ _ _ _ _. False"])
      fix f :: "'a calls \<Rightarrow> u32 \<Rightarrow> u32 \<Rightarrow> int \<Rightarrow> u8 \<Rightarrow> 'a \<Rightarrow> (int \<times> 'a) option" and c buf garbage rtcfd curchar S r
      assume IH: "\<And>c buf garbage rtcfd curchar S r. f c buf garbage rtcfd curchar S = Some r \<Longrightarrow> False"
        and "do { S \<leftarrow> each (pingpong_frame c buf garbage rtcfd curchar) [2..77] S;
          S \<leftarrow> each (pingpong_frame c buf garbage rtcfd curchar) (rev [2..77]) S;
          f c buf garbage rtcfd (if curchar = chr CHR ''Z'' then chr CHR ''A'' else curchar + 1) S } = Some r"
      then show False unfolding Option.bind_eq_Some_conv by blast
    qed
  qed
  show ?thesis by (simp add: pingpong_main_def Let_def loop split_beta bind_eq_None_conv split: option.splits)
qed

section \<open>A system that refuses bad calls\<close>

text \<open>What the tests expect of a process that has opened no file: reading works from descriptor 0 alone, writing to descriptor 1
  alone, nothing can be closed, \<open>vidmap\<close> takes no pointer below the program area, and the system call numbers are 1 to 11.  A call that is refused changes nothing
  a program can see.\<close>

definition refused :: "'s calls \<Rightarrow> ('s \<Rightarrow> bool) \<Rightarrow> ('s \<Rightarrow> ascreen) \<Rightarrow> 's \<Rightarrow> (int \<times> 's) option \<Rightarrow> bool" where
  "refused c ok screen S res \<longleftrightarrow> (\<exists>S'. res = Some (-1, S') \<and> ok S' \<and> peek c S' = peek c S \<and> screen S' = screen S)"

text \<open>A test so far without failure, in a state that differs from \<open>S\<close> in nothing that shows.\<close>

definition passing :: "'s calls \<Rightarrow> ('s \<Rightarrow> bool) \<Rightarrow> ('s \<Rightarrow> ascreen) \<Rightarrow> 's \<Rightarrow> (int \<times> 's) option \<Rightarrow> bool" where
  "passing c ok screen S x \<longleftrightarrow> (\<exists>S'. x = Some (0, S') \<and> ok S' \<and> peek c S' = peek c S \<and> screen S' = screen S)"

definition in_int32 :: "int \<Rightarrow> bool" where
  "in_int32 i \<longleftrightarrow> - (2 ^ 31) \<le> i \<and> i < 2 ^ 31"

locale strict_terminal = line_terminal +
  assumes read_refused: "ok S \<Longrightarrow> in_int32 fd \<Longrightarrow> fd \<noteq> 0 \<Longrightarrow> refused c ok screen S (ece391_read c fd buf 31 S)"
    and write_refused: "ok S \<Longrightarrow> in_int32 fd \<Longrightarrow> fd \<noteq> 1 \<Longrightarrow> refused c ok screen S (ece391_write c fd buf 31 S)"
    and close_refused: "ok S \<Longrightarrow> in_int32 fd \<Longrightarrow> refused c ok screen S (ece391_close c fd S)"
    and vidmap_refused: "ok S \<Longrightarrow> a < 0x800000 \<Longrightarrow> refused c ok screen S (ece391_vidmap c a S)"
    and number_refused: "ok S \<Longrightarrow> sint n < 1 \<or> 11 < sint n \<Longrightarrow> refused c ok screen S (call_sys c n S)"
begin

lemma passing_start: "ok S \<Longrightarrow> passing c ok screen S (Some (0, S))"
  by (simp add: passing_def)

lemma passing_attempt:
  assumes "passing c ok screen S x" "\<And>S. ok S \<Longrightarrow> refused c ok screen S (f S)"
  shows "passing c ok screen S (x \<bind> attempt c lit msg f)"
proof -
  obtain S' where S': "x = Some (0, S')" "ok S'" "peek c S' = peek c S" "screen S' = screen S" using assms(1) by (auto simp: passing_def)
  show ?thesis using assms(2) [OF S'(2)] S' by (auto simp: refused_def attempt_def passing_def)
qed

lemma passing_each:
  assumes "passing c ok screen S x" "\<And>i S. i \<in> set is \<Longrightarrow> ok S \<Longrightarrow> refused c ok screen S (f i S)"
  shows "passing c ok screen S (x \<bind> each (\<lambda>i. attempt c lit msg (f i)) is)"
  using assms
proof (induction "is" arbitrary: x)
  case Nil
  then show ?case by (auto simp: passing_def)
next
  case (Cons i "is")
  have "passing c ok screen S (x \<bind> attempt c lit msg (f i))" using Cons.prems by (intro passing_attempt) simp_all
  from Cons.IH [OF this] Cons.prems(2) show ?case by (simp add: Option.bind_assoc)
qed

lemma passing_verdict:
  assumes x: "passing c ok screen S x" and l: "lit_ok (peek c S) buf lit (test @ '': PASS'' @ [CHR 0x0A])"
    and t: "length test \<le> 100" "\<forall>b\<in>set (map of_char test). plain_key b"
  shows "\<exists>S'. x \<bind> verdict c lit test = Some (0, S') \<and> ok S'
    \<and> screen S' = fold show_char (map of_char (test @ '': PASS'' @ [CHR 0x0A])) (screen S)"
proof -
  obtain S1 where 1: "x = Some (0, S1)" "ok S1" "peek c S1 = peek c S" "screen S1 = screen S" using x by (auto simp: passing_def)
  let ?s = "test @ '': PASS'' @ [CHR 0x0A]"
  have l1: "lit_ok (peek c S1) buf lit ?s" using l 1(3) by simp
  have pl: "\<forall>b\<in>set (map of_char ?s). plain_key b" using t(2) by (auto simp: plain_key_def)
  have n: "?s \<noteq> []" "length ?s \<le> 1024" using t(1) by simp_all
  obtain S' where "say c lit ?s S1 = Some S'" "ok S'" "screen S' = fold show_char (map of_char ?s) (screen S1)"
    by (rule say_text [OF 1(2) l1 n pl])
  then show ?thesis using 1(1,4) by (simp add: verdict_def del: map_append)
qed

text \<open>The tests as chains of attempts.\<close>

lemma small_int32: "- 1073741824 < i \<Longrightarrow> i < 1073741824 \<Longrightarrow> in_int32 i"
  by (simp add: in_int32_def)

lemma err_neg_fd_passes:
  assumes S: "ok S" and l: "lit_ok (peek c S) buf' lit (''err_neg_fd'' @ '': PASS'' @ [CHR 0x0A])"
  shows "\<exists>S'. err_neg_fd c lit buf S = Some (0, S') \<and> ok S' \<and> screen S' = fold show_char (map of_char (''err_neg_fd'' @ '': PASS'' @ [CHR 0x0A])) (screen S)"
proof -
  have eq: "err_neg_fd c lit buf S = (Some (0, S) \<bind> attempt c lit ''read fail'' (ece391_read c NEG_FD buf 31)
      \<bind> attempt c lit ''write fail'' (ece391_write c NEG_FD buf 31)
      \<bind> attempt c lit ''close fail'' (ece391_close c NEG_FD)
      \<bind> verdict c lit ''err_neg_fd'')"
    by (simp only: err_neg_fd_def Option.bind_assoc Option.bind.bind_lunit)
  have "passing c ok screen S (Some (0, S) \<bind> attempt c lit ''read fail'' (ece391_read c NEG_FD buf 31)
      \<bind> attempt c lit ''write fail'' (ece391_write c NEG_FD buf 31)
      \<bind> attempt c lit ''close fail'' (ece391_close c NEG_FD))"
    by (intro passing_attempt passing_start S read_refused write_refused close_refused small_int32) simp_all
  then show ?thesis unfolding eq by (rule passing_verdict [OF _ l]) (simp_all add: plain_key_def)
qed

lemma err_big_fd_passes:
  assumes S: "ok S" and l: "lit_ok (peek c S) buf' lit (''err_big_fd'' @ '': PASS'' @ [CHR 0x0A])"
  shows "\<exists>S'. err_big_fd c lit buf S = Some (0, S') \<and> ok S' \<and> screen S' = fold show_char (map of_char (''err_big_fd'' @ '': PASS'' @ [CHR 0x0A])) (screen S)"
proof -
  have eq: "err_big_fd c lit buf S = (Some (0, S) \<bind> attempt c lit ''read fail'' (ece391_read c BIG_FD buf 31)
      \<bind> attempt c lit ''write fail'' (ece391_write c BIG_FD buf 31)
      \<bind> attempt c lit ''close fail'' (ece391_close c BIG_FD)
      \<bind> verdict c lit ''err_big_fd'')"
    by (simp only: err_big_fd_def Option.bind_assoc Option.bind.bind_lunit)
  have "passing c ok screen S (Some (0, S) \<bind> attempt c lit ''read fail'' (ece391_read c BIG_FD buf 31)
      \<bind> attempt c lit ''write fail'' (ece391_write c BIG_FD buf 31)
      \<bind> attempt c lit ''close fail'' (ece391_close c BIG_FD))"
    by (intro passing_attempt passing_start S read_refused write_refused close_refused small_int32) simp_all
  then show ?thesis unfolding eq by (rule passing_verdict [OF _ l]) (simp_all add: plain_key_def)
qed

lemma err_unopened_passes:
  assumes S: "ok S" and l: "lit_ok (peek c S) buf' lit (''err_unopened'' @ '': PASS'' @ [CHR 0x0A])"
  shows "\<exists>S'. err_unopened c lit buf S = Some (0, S') \<and> ok S' \<and> screen S' = fold show_char (map of_char (''err_unopened'' @ '': PASS'' @ [CHR 0x0A])) (screen S)"
proof -
  have eq: "err_unopened c lit buf S = (Some (0, S) \<bind> each (\<lambda>i. attempt c lit ''close unopened or invalid fd fail'' (ece391_close c i)) [0..7]
      \<bind> each (\<lambda>i. attempt c lit ''read from unopened fd fail'' (ece391_read c i buf 31)) [2..7]
      \<bind> each (\<lambda>i. attempt c lit ''write to unopened fd fail'' (ece391_write c i buf 31)) [2..7]
      \<bind> verdict c lit ''err_unopened'')"
    by (simp only: err_unopened_def Option.bind_assoc Option.bind.bind_lunit)
  have "passing c ok screen S (Some (0, S) \<bind> each (\<lambda>i. attempt c lit ''close unopened or invalid fd fail'' (ece391_close c i)) [0..7]
      \<bind> each (\<lambda>i. attempt c lit ''read from unopened fd fail'' (ece391_read c i buf 31)) [2..7]
      \<bind> each (\<lambda>i. attempt c lit ''write to unopened fd fail'' (ece391_write c i buf 31)) [2..7])"
    by (intro passing_each passing_start S read_refused write_refused close_refused small_int32) (simp_all only: set_upto atLeastAtMost_iff, simp_all)
  then show ?thesis unfolding eq by (rule passing_verdict [OF _ l]) (simp_all add: plain_key_def)
qed

lemma err_vidmap_passes:
  assumes S: "ok S" and l: "lit_ok (peek c S) buf' lit (''err_vidmap'' @ '': PASS'' @ [CHR 0x0A])"
  shows "\<exists>S'. err_vidmap c lit S = Some (0, S') \<and> ok S' \<and> screen S' = fold show_char (map of_char (''err_vidmap'' @ '': PASS'' @ [CHR 0x0A])) (screen S)"
proof -
  have eq: "err_vidmap c lit S = (Some (0, S) \<bind> attempt c lit ''Null pointer fail'' (ece391_vidmap c 0)
      \<bind> attempt c lit ''Kernel pointer fail fail'' (ece391_vidmap c 0x400000)
      \<bind> verdict c lit ''err_vidmap'')"
    by (simp only: err_vidmap_def Option.bind_assoc Option.bind.bind_lunit)
  have "passing c ok screen S (Some (0, S) \<bind> attempt c lit ''Null pointer fail'' (ece391_vidmap c 0)
      \<bind> attempt c lit ''Kernel pointer fail fail'' (ece391_vidmap c 0x400000))"
    by (intro passing_attempt passing_start S vidmap_refused) simp_all
  then show ?thesis unfolding eq by (rule passing_verdict [OF _ l]) (simp_all add: plain_key_def)
qed

lemma err_stdin_out_passes:
  assumes S: "ok S" and l: "lit_ok (peek c S) buf' lit (''err_stdin_out'' @ '': PASS'' @ [CHR 0x0A])"
  shows "\<exists>S'. err_stdin_out c lit buf S = Some (0, S') \<and> ok S' \<and> screen S' = fold show_char (map of_char (''err_stdin_out'' @ '': PASS'' @ [CHR 0x0A])) (screen S)"
proof -
  have eq: "err_stdin_out c lit buf S = (Some (0, S) \<bind> attempt c lit ''write to stdin fail'' (ece391_write c 0 buf 31)
      \<bind> attempt c lit ''read from stdout fail'' (ece391_read c 1 buf 31)
      \<bind> verdict c lit ''err_stdin_out'')"
    by (simp only: err_stdin_out_def Option.bind_assoc Option.bind.bind_lunit)
  have "passing c ok screen S (Some (0, S) \<bind> attempt c lit ''write to stdin fail'' (ece391_write c 0 buf 31)
      \<bind> attempt c lit ''read from stdout fail'' (ece391_read c 1 buf 31))"
    by (intro passing_attempt passing_start S read_refused write_refused small_int32) simp_all
  then show ?thesis unfolding eq by (rule passing_verdict [OF _ l]) (simp_all add: plain_key_def)
qed

lemma err_syscall_num_passes:
  assumes S: "ok S" and l: "lit_ok (peek c S) buf' lit (''err_syscall_num'' @ '': PASS'' @ [CHR 0x0A])"
  shows "\<exists>S'. err_syscall_num c lit S = Some (0, S') \<and> ok S' \<and> screen S' = fold show_char (map of_char (''err_syscall_num'' @ '': PASS'' @ [CHR 0x0A])) (screen S)"
proof -
  have eq: "err_syscall_num c lit S = (Some (0, S) \<bind> attempt c lit ''syscall 0 fail'' (call_sys c (of_int 1073741823))
      \<bind> attempt c lit ''big num syscall fail'' (call_sys c (of_int (-1073741823)))
      \<bind> attempt c lit ''neg num syscall fail'' (call_sys c 0)
      \<bind> verdict c lit ''err_syscall_num'')"
    by (simp only: err_syscall_num_def Option.bind_assoc Option.bind.bind_lunit)
  have "passing c ok screen S (Some (0, S) \<bind> attempt c lit ''syscall 0 fail'' (call_sys c (of_int 1073741823))
      \<bind> attempt c lit ''big num syscall fail'' (call_sys c (of_int (-1073741823)))
      \<bind> attempt c lit ''neg num syscall fail'' (call_sys c 0))"
    by (intro passing_attempt passing_start S number_refused) simp_all
  then show ?thesis unfolding eq by (rule passing_verdict [OF _ l]) (simp_all add: plain_key_def)
qed

end

section \<open>The kernel refuses bad calls\<close>

lemma sint_of_int32: "in_int32 i \<Longrightarrow> sint (of_int i :: u32) = i"
  by (simp add: in_int32_def signed_of_int signed_take_bit_int_eq_self)

lemma DO_CALL_refused:
  assumes "syscall_linkage env (w (fst S)) n a b d (snd S) = Some (Return (-1), snd S)"
    and "talking env p (snd S) \<and> Q (k_pcbs (snd S) (curr (snd S)))"
  shows "refused (kernel_calls env w run rest) (\<lambda>S. talking env p (snd S) \<and> Q (k_pcbs (snd S) (curr (snd S)))) (\<lambda>S. my_screen (snd S)) S
    (DO_CALL env w run n a b d S)"
  using assms by (simp add: refused_def DO_CALL_def stub(5))

lemma closed_fd: "open_fds p = {} \<Longrightarrow> 2 \<le> fd \<Longrightarrow> fd < FD_MAX \<Longrightarrow> flags (elements p fd) = 0"
  by (auto simp: open_fds_def)

lemma linkage_refuses:
  assumes "open_fds (k_pcbs M (curr M)) = {}"
  shows "in_int32 fd \<Longrightarrow> fd \<noteq> 0 \<Longrightarrow> syscall_linkage env w 3 (of_int fd) buf (of_int 31) M = Some (Return (-1), M)"
    and "in_int32 fd \<Longrightarrow> fd \<noteq> 1 \<Longrightarrow> syscall_linkage env w 4 (of_int fd) buf (of_int 31) M = Some (Return (-1), M)"
    and "in_int32 fd \<Longrightarrow> syscall_linkage env w 6 (of_int fd) x y M = Some (Return (-1), M)"
    and "a < KERNEL_MEM_END \<Longrightarrow> syscall_linkage env w 8 a x y M = Some (Return (-1), M)"
    and "sint n < 1 \<or> 11 < sint n \<Longrightarrow> syscall_linkage env w n x y z M = Some (Return (-1), M)"
proof -
  have bad: "fd < 2 \<or> FD_MAX \<le> fd \<or> flags (fd_of M fd) = 0" using closed_fd [OF assms, of fd] by linarith
  then have "fd \<noteq> 0 \<Longrightarrow> syscall_read env w fd buf 31 M = Some (-1, M)" "fd \<noteq> 1 \<Longrightarrow> syscall_write env fd buf 31 M = Some (-1, M)"
    "syscall_close env fd M = Some (-1, M)"
    by (auto simp only: syscall_read_def syscall_write_def syscall_close_def split: if_split)
  then show "in_int32 fd \<Longrightarrow> fd \<noteq> 0 \<Longrightarrow> syscall_linkage env w 3 (of_int fd) buf (of_int 31) M = Some (Return (-1), M)"
    "in_int32 fd \<Longrightarrow> fd \<noteq> 1 \<Longrightarrow> syscall_linkage env w 4 (of_int fd) buf (of_int 31) M = Some (Return (-1), M)"
    "in_int32 fd \<Longrightarrow> syscall_linkage env w 6 (of_int fd) x y M = Some (Return (-1), M)"
    by (simp_all add: syscall_linkage_def sint_of_int32)
  show "a < KERNEL_MEM_END \<Longrightarrow> syscall_linkage env w 8 a x y M = Some (Return (-1), M)"
    by (simp add: syscall_linkage_def syscall_vidmap_def)
  show "sint n < 1 \<or> 11 < sint n \<Longrightarrow> syscall_linkage env w n x y z M = Some (Return (-1), M)"
    by (simp add: syscall_linkage_def)
qed

interpretation kstrict: strict_terminal "kernel_calls env w run rest" "\<lambda>S. talking env p (snd S) \<and> open_fds (k_pcbs (snd S) (curr (snd S))) = {}"
    fst "typed_during w" "\<lambda>S. my_screen (snd S)" in_window
  for env w run rest p
proof (intro strict_terminal.intro strict_terminal_axioms.intro)
  show "line_terminal (kernel_calls env w run rest) (\<lambda>S. talking env p (snd S) \<and> open_fds (k_pcbs (snd S) (curr (snd S))) = {})
      fst (typed_during w) (\<lambda>S. my_screen (snd S)) in_window"
    by (rule ktalk.line_terminal_axioms)
next
  let ?c = "kernel_calls env w run rest" and ?Q = "\<lambda>p. open_fds p = {}"
  let ?ok = "\<lambda>S :: session. talking env p (snd S) \<and> open_fds (k_pcbs (snd S) (curr (snd S))) = {}"
  let ?r = "refused ?c ?ok (\<lambda>S. my_screen (snd S))"
  fix S :: session
  assume ok: "?ok S"
  note call = DO_CALL_refused [where p = p and Q = ?Q, OF _ ok] and no = linkage_refuses [OF conjunct2 [OF ok]]
  show "?r S (ece391_read ?c fd buf 31 S)" if "in_int32 fd" "fd \<noteq> 0" for fd buf
    using call [OF no(1) [OF that]] by (simp add: kernel_calls_def)
  show "?r S (ece391_write ?c fd buf 31 S)" if "in_int32 fd" "fd \<noteq> 1" for fd buf
    using call [OF no(2) [OF that]] by (simp add: kernel_calls_def)
  show "?r S (ece391_close ?c fd S)" if "in_int32 fd" for fd using call [OF no(3) [OF that]] by (simp add: kernel_calls_def)
  show "?r S (ece391_vidmap ?c a S)" if "a < 0x800000" for a using call [OF no(4) [OF that]] by (simp add: kernel_calls_def)
  show "?r S (call_sys ?c n S)" if "sint n < 1 \<or> 11 < sint n" for n using call [OF no(5) [OF that]] by (simp add: kernel_calls_def)
qed

section \<open>Properties\<close>

text \<open>A test returned 0 and printed its line.\<close>

definition passes :: "machine \<Rightarrow> string \<Rightarrow> (int \<times> session) option \<Rightarrow> bool" where
  "passes M test x \<longleftrightarrow> (\<exists>k' M'. x = Some (0, k', M') \<and> my_screen M' = fold show_char (map of_char (test @ '': PASS'' @ [CHR 0x0A])) (my_screen M))"

text \<open>C35: The kernel passes the error tests.  For a process that talks to its terminal and has opened no file, the tests of \<^verbatim>\<open>syserr\<close> for
  negative and large descriptors, descriptors that are not open, bad \<^verbatim>\<open>vidmap\<close> pointers, the wrong direction of the standard
  descriptors and unknown call numbers return 0 on the kernel's calls, and each prints that it has passed and nothing else.\<close>

theorem syserr_passes:
  assumes "talking env p M" "open_fds (k_pcbs M (curr M)) = {}" "c = kernel_calls env w run rest"
    and "lit_ok (view env M) buf' lit (''err_neg_fd'' @ '': PASS'' @ [CHR 0x0A])"
    and "lit_ok (view env M) buf' lit (''err_big_fd'' @ '': PASS'' @ [CHR 0x0A])"
    and "lit_ok (view env M) buf' lit (''err_unopened'' @ '': PASS'' @ [CHR 0x0A])"
    and "lit_ok (view env M) buf' lit (''err_vidmap'' @ '': PASS'' @ [CHR 0x0A])"
    and "lit_ok (view env M) buf' lit (''err_stdin_out'' @ '': PASS'' @ [CHR 0x0A])"
    and "lit_ok (view env M) buf' lit (''err_syscall_num'' @ '': PASS'' @ [CHR 0x0A])"
  shows "passes M ''err_neg_fd'' (err_neg_fd c lit buf (k, M))
    \<and> passes M ''err_big_fd'' (err_big_fd c lit buf (k, M))
    \<and> passes M ''err_unopened'' (err_unopened c lit buf (k, M))
    \<and> passes M ''err_vidmap'' (err_vidmap c lit (k, M))
    \<and> passes M ''err_stdin_out'' (err_stdin_out c lit buf (k, M))
    \<and> passes M ''err_syscall_num'' (err_syscall_num c lit (k, M))"
proof -
  have ok: "talking env p (snd (k, M)) \<and> open_fds (k_pcbs (snd (k, M)) (curr (snd (k, M)))) = {}" using assms(1,2) by simp
  have v: "peek c (k, M) = view env M" unfolding assms(3) stub(5) by simp
  have p: "passes M test (f (k, M))"
    if "\<exists>S'. f (k, M) = Some (0, S') \<and> (talking env p (snd S') \<and> open_fds (k_pcbs (snd S') (curr (snd S'))) = {})
      \<and> my_screen (snd S') = fold show_char (map of_char (test @ '': PASS'' @ [CHR 0x0A])) (my_screen (snd (k, M)))" for test f
    using that unfolding passes_def by fastforce
  note lits = assms(4-9) [folded v, unfolded assms(3)]
  show ?thesis
    unfolding assms(3)
    by (intro conjI p kstrict.err_neg_fd_passes [OF ok lits(1)] kstrict.err_big_fd_passes [OF ok lits(2)]
        kstrict.err_unopened_passes [OF ok lits(3)] kstrict.err_vidmap_passes [OF ok lits(4)]
        kstrict.err_stdin_out_passes [OF ok lits(5)] kstrict.err_syscall_num_passes [OF ok lits(6)])
qed

theorem syserr_passes_witness:
  "\<exists>k' M'. err_unopened (kernel_calls sample_env (\<lambda>_. \<lparr>w_rtc = [], w_term = []\<rparr>) (\<lambda>_ _. None) 0)
      (talk_lit (map (\<lambda>s. s @ '': PASS'' @ [CHR 0x0A]) [''err_neg_fd'', ''err_big_fd'', ''err_unopened'', ''err_vidmap'', ''err_stdin_out'', ''err_syscall_num''])) 0x8002000
      (0, talk_machine (map (\<lambda>s. s @ '': PASS'' @ [CHR 0x0A]) [''err_neg_fd'', ''err_big_fd'', ''err_unopened'', ''err_vidmap'', ''err_stdin_out'', ''err_syscall_num'']))
    = Some (0, k', M')"
proof -
  define tests where "tests = [''err_neg_fd'', ''err_big_fd'', ''err_unopened'', ''err_vidmap'', ''err_stdin_out'', ''err_syscall_num'']"
  define ss where "ss = map (\<lambda>s. s @ '': PASS'' @ [CHR 0x0A]) tests"
  have len: "length (lit_block ss) < 1000" by (simp add: lit_block_def ss_def tests_def)
  have zero: "0 \<notin> set (map of_char (s @ '': PASS'' @ [CHR 0x0A]) :: u8 list)" if "s \<in> set tests" for s
    using that by (auto simp: tests_def)
  have lit: "lit_ok (view sample_env (talk_machine ss)) 0x8002000 (talk_lit ss) (s @ '': PASS'' @ [CHR 0x0A])" if "s \<in> set tests" for s
    by (rule talk_ready(2) [OF len _ zero [OF that]]) (simp add: ss_def that)
  have "open_fds (k_pcbs (talk_machine ss) (curr (talk_machine ss))) = {}"
    unfolding talk_ready(3,4) [OF len] by (simp add: open_fds_def talk_base_def)
  from syserr_passes [OF talk_ready(1) [OF len] this refl lit lit lit lit lit lit, of "\<lambda>_. \<lparr>w_rtc = [], w_term = []\<rparr>" "\<lambda>_ _. None" 0 "0x8002000" 0]
  have "passes (talk_machine ss) ''err_unopened'' (err_unopened (kernel_calls sample_env (\<lambda>_. \<lparr>w_rtc = [], w_term = []\<rparr>) (\<lambda>_ _. None) 0)
      (talk_lit ss) 0x8002000 (0, talk_machine ss))"
    by (simp only: tests_def list.set insert_iff simp_thms)
  then show ?thesis unfolding passes_def ss_def tests_def by blast
qed

end
