(* ===== verification/Fish.thy ===== *)
theory Fish
  imports Programs
begin

text \<open>
  The blinking characters of \<^verbatim>\<open>fish\<close>: the pool of \<^verbatim>\<open>fish/fish.c\<close> and the operations of \<^verbatim>\<open>fish/blink.S\<close> on the list that
  is kept in it.  A pointer is \<open>None\<close> for NULL or the index of an element of the pool.  The specification is a plain list of
  characters: \<open>blink_list\<close> relates the two, and each operation does to the pool what a list function does to the list.
\<close>

section \<open>The pool\<close>

record mp1_blink_struct =
  location :: u16
  on_char :: u8
  off_char :: u8
  on_length :: u16
  off_length :: u16
  countdown :: u16
  status :: u16
  next_ptr :: "int option"

text \<open>\<open>vmem\<close> is the memory at and around \<open>vmem_base_addr\<close>.\<close>

record fish =
  blink_array :: "int \<Rightarrow> mp1_blink_struct"
  mp1_list_head :: "int option"
  vmem_base_addr :: u32
  vmem :: mem

abbreviation BLINK_MAX :: int where "BLINK_MAX \<equiv> 2000"

definition zero_blink :: mp1_blink_struct where
  "zero_blink = \<lparr>location = 0, on_char = 0, off_char = 0, on_length = 0, off_length = 0, countdown = 0, status = 0, next_ptr = None\<rparr>"

function mp1_malloc_loop :: "fish \<Rightarrow> int \<Rightarrow> int option" where
  "mp1_malloc_loop F i =
     (if i < BLINK_MAX then if location (blink_array F i) = 0 then Some i else mp1_malloc_loop F (i + 1) else None)"
  by pat_completeness auto
termination
  by (relation "measure (\<lambda>(_, i). nat (BLINK_MAX - i))") auto

declare mp1_malloc_loop.simps [simp del]

definition mp1_malloc :: "fish \<Rightarrow> int option" where
  "mp1_malloc F = mp1_malloc_loop F 0"

definition set_blink :: "int \<Rightarrow> mp1_blink_struct \<Rightarrow> fish \<Rightarrow> fish" where
  "set_blink i b F = F\<lparr>blink_array := (blink_array F)(i := b)\<rparr>"

definition mp1_free :: "int \<Rightarrow> fish \<Rightarrow> fish" where
  "mp1_free i = set_blink i zero_blink"

section \<open>The operations\<close>

definition mp1_poke :: "u32 \<Rightarrow> u8 \<Rightarrow> fish \<Rightarrow> fish" where
  "mp1_poke eax cl F = F\<lparr>vmem := (vmem F)(vmem_base_addr F + eax := cl)\<rparr>"

text \<open>The offset of a location: two bytes per character.\<close>

definition blink_offset :: "mp1_blink_struct \<Rightarrow> u32" where
  "blink_offset b = push_bit 1 (ucast (location b))"

text \<open>One element in \<open>mp1_rtc_tasklet\<close>: the count is decremented and compared as a signed number.\<close>

definition tasklet_step :: "int \<Rightarrow> fish \<Rightarrow> fish" where
  "tasklet_step ebx F =
     (let b = (blink_array F ebx)\<lparr>countdown := countdown (blink_array F ebx) - 1\<rparr>;
          F = set_blink ebx b F
      in if 0 < sint (countdown b) then F
         else
           let (cl, dx) = (if status b AND 1 \<noteq> 0 then (off_char b, off_length b) else (on_char b, on_length b));
               F = mp1_poke (blink_offset b) cl F
           in set_blink ebx (b\<lparr>countdown := dx, status := status b XOR 1\<rparr>) F)"

partial_function (option) tasklet_loop :: "int option \<Rightarrow> fish \<Rightarrow> fish option" where
  "tasklet_loop ebx F =
     (case ebx of None \<Rightarrow> Some F
      | Some i \<Rightarrow> let F = tasklet_step i F in tasklet_loop (next_ptr (blink_array F i)) F)"

definition mp1_rtc_tasklet :: "fish \<Rightarrow> fish option" where
  "mp1_rtc_tasklet F = tasklet_loop (mp1_list_head F) F"

text \<open>\<open>Some None\<close> is the result NULL.\<close>

partial_function (option) find_helper_loop :: "u16 \<Rightarrow> int option \<Rightarrow> fish \<Rightarrow> int option option" where
  "find_helper_loop ax ebx F =
     (case ebx of None \<Rightarrow> Some None
      | Some i \<Rightarrow> if location (blink_array F i) = ax then Some (Some i) else find_helper_loop ax (next_ptr (blink_array F i)) F)"

definition mp1_find_helper :: "u32 \<Rightarrow> fish \<Rightarrow> int option option" where
  "mp1_find_helper arg F = find_helper_loop (ucast arg) (mp1_list_head F) F"

definition mp1_ioctl_add :: "mp1_blink_struct \<Rightarrow> fish \<Rightarrow> int \<times> fish" where
  "mp1_ioctl_add user F =
     (if 2000 \<le> location user then (-1, F)
      else
        let b = user\<lparr>status := 1, countdown := on_length user\<rparr>
        in case mp1_malloc F of None \<Rightarrow> (-1, F)
           | Some edx \<Rightarrow>
             let F = set_blink edx b F;
                 F = set_blink edx ((blink_array F edx)\<lparr>next_ptr := mp1_list_head F\<rparr>) F;
                 F = F\<lparr>mp1_list_head := Some edx\<rparr>
             in (0, mp1_poke (blink_offset (blink_array F edx)) (on_char (blink_array F edx)) F))"

text \<open>A place that holds a pointer: the head of the list or the link of an element.\<close>

datatype ptr_cell = Head | Link int

definition get_cell :: "ptr_cell \<Rightarrow> fish \<Rightarrow> int option" where
  "get_cell edx F = (case edx of Head \<Rightarrow> mp1_list_head F | Link i \<Rightarrow> next_ptr (blink_array F i))"

definition set_cell :: "ptr_cell \<Rightarrow> int option \<Rightarrow> fish \<Rightarrow> fish" where
  "set_cell edx p F =
     (case edx of Head \<Rightarrow> F\<lparr>mp1_list_head := p\<rparr> | Link i \<Rightarrow> set_blink i ((blink_array F i)\<lparr>next_ptr := p\<rparr>) F)"

partial_function (option) remove_find_prev :: "int \<Rightarrow> ptr_cell \<Rightarrow> fish \<Rightarrow> ptr_cell option" where
  "remove_find_prev eax edx F =
     (case get_cell edx F of None \<Rightarrow> None
      | Some i \<Rightarrow> if i = eax then Some edx else remove_find_prev eax (Link i) F)"

definition mp1_ioctl_remove :: "u32 \<Rightarrow> fish \<Rightarrow> (int \<times> fish) option" where
  "mp1_ioctl_remove arg F =
     do { eax \<leftarrow> mp1_find_helper arg F;
          case eax of None \<Rightarrow> Some (-1, F)
          | Some i \<Rightarrow>
            do { edx \<leftarrow> remove_find_prev i Head F;
                 Some (0, mp1_free i (set_cell edx (next_ptr (blink_array F i)) F)) } }"

text \<open>The test of the status leaves the sign and overflow flags clear, so the conditional move on \<open>less\<close> is never
  taken.\<close>

definition mp1_ioctl_sync :: "u32 \<Rightarrow> fish \<Rightarrow> (int \<times> fish) option" where
  "mp1_ioctl_sync arg F =
     do { esi \<leftarrow> mp1_find_helper (drop_bit 16 arg) F;
          case esi of None \<Rightarrow> Some (-1, F)
          | Some i \<Rightarrow>
            do { edi \<leftarrow> mp1_find_helper (arg AND 0xFFFF) F;
                 case edi of None \<Rightarrow> Some (-1, F)
                 | Some j \<Rightarrow>
                   let a = blink_array F i;
                       b = (blink_array F j)\<lparr>on_length := on_length a, off_length := off_length a,
                             countdown := countdown a, status := status a\<rparr>;
                       F = set_blink j b F;
                       less = False;
                       ecx = (if less then on_char b else off_char b)
                   in Some (0, mp1_poke (blink_offset b) ecx F) } }"

text \<open>The structure at the address given is read for its location and overwritten with the element found.\<close>

definition mp1_ioctl_find :: "mp1_blink_struct \<Rightarrow> fish \<Rightarrow> (int \<times> mp1_blink_struct) option" where
  "mp1_ioctl_find user F =
     do { eax \<leftarrow> mp1_find_helper (ucast (location user)) F;
          case eax of None \<Rightarrow> Some (-1, user) | Some i \<Rightarrow> Some (0, blink_array F i) }"

text \<open>The dispatch; \<open>user\<close> is the structure at the address \<open>arg\<close>.  A command above 3 jumps to an address from
  behind the table.\<close>

definition mp1_ioctl :: "mp1_blink_struct \<Rightarrow> u32 \<Rightarrow> u32 \<Rightarrow> fish \<Rightarrow> (int \<times> mp1_blink_struct \<times> fish) option" where
  "mp1_ioctl user arg cmd F =
     (if cmd = 0 then let (r, F) = mp1_ioctl_add user F in Some (r, user, F)
      else if cmd = 1 then do { (r, F) \<leftarrow> mp1_ioctl_remove arg F; Some (r, user, F) }
      else if cmd = 2 then do { (r, user) \<leftarrow> mp1_ioctl_find user F; Some (r, user, F) }
      else if cmd = 3 then do { (r, F) \<leftarrow> mp1_ioctl_sync arg F; Some (r, user, F) }
      else None)"

section \<open>The program\<close>

definition ece391_memset :: "mem \<Rightarrow> u32 \<Rightarrow> u8 \<Rightarrow> int \<Rightarrow> mem" where
  "ece391_memset m memory ch n = for_range 0 n (\<lambda>i m. m(memory + of_int i := ch)) m"

definition ece391_memcpy :: "mem \<Rightarrow> u32 \<Rightarrow> u32 \<Rightarrow> int \<Rightarrow> mem \<times> int" where
  "ece391_memcpy m dest src n = (for_range 0 n (\<lambda>i m. m(dest + of_int i := m (src + of_int i))) m, 0)"

text \<open>The addresses of the variables of the program that system calls write.\<close>

record fish_vars =
  v_vmem_base_addr :: u32
  v_c0 :: u32
  v_c1 :: u32
  v_ret_val :: u32
  v_garbage :: u32
  v_file0 :: u32
  v_file1 :: u32

definition mp1_set_video_mode :: "'s calls \<Rightarrow> fish_vars \<Rightarrow> 's \<Rightarrow> fish \<Rightarrow> (u32 \<times> 's \<times> fish) option" where
  "mp1_set_video_mode c v S F =
     do { (r, S) \<leftarrow> ece391_vidmap c (v_vmem_base_addr v) S;
          let F = F\<lparr>vmem_base_addr := get32 (peek c S) (v_vmem_base_addr v)\<rparr>;
          Some (if r = -1 then 0 else vmem_base_addr F, S, F) }"

text \<open>The next character of a frame, unless its line is over; the end of the file ends the line.\<close>

definition frame_char :: "'s calls \<Rightarrow> int \<Rightarrow> u32 \<Rightarrow> bool \<Rightarrow> 's \<Rightarrow> (bool \<times> 's) option" where
  "frame_char c fd a eof S =
     (if peek c S a \<noteq> NEWLINE
      then do { (num_bytes, S) \<leftarrow> ece391_read c fd a 1 S;
                Some (if num_bytes = 0 then (True, set_byte c a NEWLINE S) else (eof, S)) }
      else Some (eof, S))"

partial_function (option) frame_row ::
    "'s calls \<Rightarrow> fish_vars \<Rightarrow> int \<Rightarrow> int \<Rightarrow> int \<Rightarrow> int \<Rightarrow> bool \<Rightarrow> bool \<Rightarrow> mp1_blink_struct \<Rightarrow> 's \<Rightarrow> fish
      \<Rightarrow> (bool \<times> bool \<times> mp1_blink_struct \<times> 's \<times> fish) option" where
  "frame_row c v fd0 fd1 row col eof0 eof1 b S F =
     do { (eof0, S) \<leftarrow> frame_char c fd0 (v_c0 v) eof0 S;
          (eof1, S) \<leftarrow> frame_char c fd1 (v_c1 v) eof1 S;
          let c0 = peek c S (v_c0 v);
          let c1 = peek c S (v_c1 v);
          if c0 = NEWLINE \<and> c1 = NEWLINE then Some (eof0, eof1, b, S, F)
          else if c0 \<noteq> SPACE \<and> c0 \<noteq> NEWLINE \<or> c1 \<noteq> SPACE \<and> c1 \<noteq> NEWLINE then
            do { let b = b\<lparr>on_char := (if c0 = NEWLINE then SPACE else c0), off_char := (if c1 = NEWLINE then SPACE else c1),
                          location := of_int (row * 80 + col + 40)\<rparr>;
                 (_, b, F) \<leftarrow> mp1_ioctl b 0 0 F;
                 frame_row c v fd0 fd1 row (col + 1) eof0 eof1 b S F }
          else frame_row c v fd0 fd1 row (col + 1) eof0 eof1 b S F }"

text \<open>The end of a row: a frame that is over stays at the end of its line, and its file is closed.\<close>

definition frame_done :: "'s calls \<Rightarrow> int \<Rightarrow> u32 \<Rightarrow> bool \<Rightarrow> 's \<Rightarrow> 's option" where
  "frame_done c fd a eof S =
     (if eof then do { (_, S) \<leftarrow> ece391_close c fd (set_byte c a NEWLINE S); Some S }
      else Some (set_byte c a 0x30 S))"

partial_function (option) frame_rows ::
    "'s calls \<Rightarrow> fish_vars \<Rightarrow> int \<Rightarrow> int \<Rightarrow> int \<Rightarrow> bool \<Rightarrow> bool \<Rightarrow> mp1_blink_struct \<Rightarrow> 's \<Rightarrow> fish \<Rightarrow> ('s \<times> fish) option" where
  "frame_rows c v fd0 fd1 row eof0 eof1 b S F =
     (if \<not> eof0 \<or> \<not> eof1 then
        do { (eof0, eof1, b, S, F) \<leftarrow> frame_row c v fd0 fd1 row 0 eof0 eof1 b S F;
             S \<leftarrow> frame_done c fd0 (v_c0 v) eof0 S;
             S \<leftarrow> frame_done c fd1 (v_c1 v) eof1 S;
             frame_rows c v fd0 fd1 (row + 1) eof0 eof1 b S F }
      else Some (S, F))"

text \<open>The result is \<open>Inl\<close> with the status when \<open>ece391_halt\<close> ends the program; \<open>junk\<close> is what the local structure
  holds before it is assigned.\<close>

definition add_frames :: "'s calls \<Rightarrow> fish_vars \<Rightarrow> mp1_blink_struct \<Rightarrow> 's \<Rightarrow> fish \<Rightarrow> (int + 's \<times> fish) option" where
  "add_frames c v junk S F =
     do { let S = set_byte c (v_c1 v) 0x30 (set_byte c (v_c0 v) 0x30 S);
          let b = junk\<lparr>on_length := 15, off_length := 15\<rparr>;
          (fd0, S) \<leftarrow> ece391_open c (v_file0 v) S;
          if fd0 < 0 then Some (Inl (-1))
          else do { (fd1, S) \<leftarrow> ece391_open c (v_file1 v) S;
                    if fd1 < 0 then Some (Inl (-1))
                    else do { r \<leftarrow> frame_rows c v fd0 fd1 0 False False b S F; Some (Inr r) } } }"

text \<open>The loops that wait for the clock.\<close>

primrec wait_ticks :: "nat \<Rightarrow> 's calls \<Rightarrow> fish_vars \<Rightarrow> int \<Rightarrow> 's \<Rightarrow> fish \<Rightarrow> ('s \<times> fish) option" where
  "wait_ticks 0 c v rtcfd S F = Some (S, F)"
| "wait_ticks (Suc n) c v rtcfd S F =
     do { (_, S) \<leftarrow> ece391_read c rtcfd (v_garbage v) 4 S;
          F \<leftarrow> mp1_rtc_tasklet F;
          wait_ticks n c v rtcfd S F }"

text \<open>What \<open>main\<close> does once the frames are there.\<close>

definition fish_show :: "'s calls \<Rightarrow> fish_vars \<Rightarrow> mp1_blink_struct \<Rightarrow> int \<Rightarrow> 's \<Rightarrow> fish \<Rightarrow> (int \<times> 's \<times> fish) option" where
  "fish_show c v junk rtcfd S F =
     do { let S = poke c (put32 (peek c S) (v_ret_val v) 32) S;
          (r, S) \<leftarrow> ece391_write c rtcfd (v_ret_val v) 4 S;
          let S = poke c (put32 (peek c S) (v_ret_val v) (of_int r)) S;
          (S, F) \<leftarrow> wait_ticks 200 c v rtcfd S F;
          let b = junk\<lparr>on_char := of_char CHR ''I'', off_char := of_char CHR ''M'', on_length := 7, off_length := 6, location := 6 * 80 + 60\<rparr>;
          (_, b, F) \<leftarrow> mp1_ioctl b 0 0 F;
          (S, F) \<leftarrow> wait_ticks 200 c v rtcfd S F;
          (_, b, F) \<leftarrow> mp1_ioctl b (push_bit 16 40 OR (6 * 80 + 60)) 3 F;
          (S, F) \<leftarrow> wait_ticks 200 c v rtcfd S F;
          (_, b, F) \<leftarrow> mp1_ioctl (b\<lparr>location := 60\<rparr>) 200 1 F;
          (S, F) \<leftarrow> wait_ticks 2000 c v rtcfd S F;
          (_, S) \<leftarrow> ece391_close c rtcfd S;
          Some (0, S, F) }"

definition fish_main :: "'s calls \<Rightarrow> (string \<Rightarrow> u32) \<Rightarrow> fish_vars \<Rightarrow> mp1_blink_struct \<Rightarrow> mp1_blink_struct \<Rightarrow> 's \<Rightarrow> fish
    \<Rightarrow> (int + int \<times> 's \<times> fish) option" where
  "fish_main c lit v junk junk' S F =
     do { let F = F\<lparr>blink_array := for_range 0 BLINK_MAX (\<lambda>i a. a(i := zero_blink)) (blink_array F)\<rparr>;
          (base, S, F) \<leftarrow> mp1_set_video_mode c v S F;
          if base = 0 then Some (Inr (-1, S, F))
          else do { (rtcfd, S) \<leftarrow> ece391_open c (lit ''rtc'') S;
                    r \<leftarrow> add_frames c v junk' S F;
                    case r of Inl st \<Rightarrow> Some (Inl st)
                    | Inr (S, F) \<Rightarrow> do { r \<leftarrow> fish_show c v junk rtcfd S F; Some (Inr r) } } }"

text \<open>The fill of the program's library.\<close>

lemma ece391_memset_fill: "n < 2 ^ 32 \<Longrightarrow> ece391_memset m memory ch (int n) = store m memory (replicate n ch)"
proof (induction n)
  case 0
  then show ?case by (simp add: ece391_memset_def store_def)
next
  case (Suc n)
  have "ece391_memset m memory ch (int (Suc n)) = (ece391_memset m memory ch (int n))(memory + of_nat n := ch)"
    using for_range_last [of 0 "int n" "\<lambda>i m. m(memory + of_int i := ch)" m] by (simp add: ece391_memset_def add.commute)
  then show ?case using Suc store_snoc [of "replicate n ch" m memory ch] by (simp add: replicate_append_same)
qed

section \<open>The list in the pool\<close>

text \<open>The elements on the path from a pointer.\<close>

primrec links :: "(int \<Rightarrow> mp1_blink_struct) \<Rightarrow> int option \<Rightarrow> int list \<Rightarrow> bool" where
  "links a p [] \<longleftrightarrow> p = None"
| "links a p (i # is) \<longleftrightarrow> p = Some i \<and> links a (next_ptr (a i)) is"

text \<open>The list runs through exactly the used elements of the pool, each once.\<close>

definition blink_list :: "fish \<Rightarrow> int list \<Rightarrow> bool" where
  "blink_list F is \<longleftrightarrow> links (blink_array F) (mp1_list_head F) is \<and> distinct is
     \<and> set is = {i. 0 \<le> i \<and> i < BLINK_MAX \<and> location (blink_array F i) \<noteq> 0}"

text \<open>The characters of the list, without their links.\<close>

definition unlinked :: "mp1_blink_struct \<Rightarrow> mp1_blink_struct" where
  "unlinked b = b\<lparr>next_ptr := None\<rparr>"

definition blinks :: "fish \<Rightarrow> int list \<Rightarrow> mp1_blink_struct list" where
  "blinks F is = map (\<lambda>i. unlinked (blink_array F i)) is"

lemma unlinked_simps [simp]:
  "location (unlinked b) = location b" "on_char (unlinked b) = on_char b" "off_char (unlinked b) = off_char b"
  "on_length (unlinked b) = on_length b" "off_length (unlinked b) = off_length b" "countdown (unlinked b) = countdown b"
  "status (unlinked b) = status b" "unlinked (unlinked b) = unlinked b" "unlinked (b\<lparr>next_ptr := q\<rparr>) = unlinked b"
  by (simp_all add: unlinked_def)

lemma set_blink_simps [simp]:
  "blink_array (set_blink i b F) = (blink_array F)(i := b)" "mp1_list_head (set_blink i b F) = mp1_list_head F"
  "vmem (set_blink i b F) = vmem F" "vmem_base_addr (set_blink i b F) = vmem_base_addr F"
  by (simp_all add: set_blink_def)

lemma mp1_poke_simps [simp]:
  "blink_array (mp1_poke e c F) = blink_array F" "mp1_list_head (mp1_poke e c F) = mp1_list_head F"
  "vmem_base_addr (mp1_poke e c F) = vmem_base_addr F" "vmem (mp1_poke e c F) = (vmem F)(vmem_base_addr F + e := c)"
  by (simp_all add: mp1_poke_def)

lemma links_cong:
  "(\<And>i. i \<in> set is \<Longrightarrow> next_ptr (a i) = next_ptr (b i)) \<Longrightarrow> links a p is = links b p is"
  by (induction "is" arbitrary: p) auto

lemma blinks_cong: "(\<And>i. i \<in> set is \<Longrightarrow> unlinked (blink_array F i) = unlinked (blink_array G i)) \<Longrightarrow> blinks F is = blinks G is"
  by (simp add: blinks_def)

subsection \<open>Searching\<close>

lemma find_helper_loop_links:
  "links (blink_array F) p is \<Longrightarrow> find_helper_loop ax p F = Some (find (\<lambda>i. location (blink_array F i) = ax) is)"
  by (induction "is" arbitrary: p) (subst find_helper_loop.simps; simp)+

lemma mp1_find_helper_list:
  "blink_list F is \<Longrightarrow> mp1_find_helper arg F = Some (find (\<lambda>i. location (blink_array F i) = ucast arg) is)"
  by (simp add: blink_list_def mp1_find_helper_def find_helper_loop_links)

lemma find_blinks: "find (\<lambda>b. location b = l) (blinks F is) = map_option (\<lambda>i. unlinked (blink_array F i)) (find (\<lambda>i. location (blink_array F i) = l) is)"
  by (induction "is") (auto simp: blinks_def)

subsection \<open>Allocation\<close>

lemma mp1_malloc_loop_spec:
  "case mp1_malloc_loop F i of
     None \<Rightarrow> \<forall>j. i \<le> j \<and> j < BLINK_MAX \<longrightarrow> location (blink_array F j) \<noteq> 0
   | Some j \<Rightarrow> i \<le> j \<and> j < BLINK_MAX \<and> location (blink_array F j) = 0"
proof (induction F i rule: mp1_malloc_loop.induct)
  case (1 F i)
  show ?case
  proof (cases "i < BLINK_MAX \<and> location (blink_array F i) \<noteq> 0")
    case True
    then have eq: "mp1_malloc_loop F i = mp1_malloc_loop F (i + 1)" by (subst mp1_malloc_loop.simps) simp
    have "i = j \<or> i + 1 \<le> j" if "i \<le> j" for j using that by auto
    then show ?thesis using 1 True unfolding eq by (auto split: option.splits)
  next
    case False
    then show ?thesis by (subst mp1_malloc_loop.simps) auto
  qed
qed

lemma mp1_malloc_list:
  assumes "blink_list F is"
  shows "case mp1_malloc F of None \<Rightarrow> length is = 2000
    | Some i \<Rightarrow> length is < 2000 \<and> 0 \<le> i \<and> i < BLINK_MAX \<and> i \<notin> set is"
proof -
  define U where "U = {0..<BLINK_MAX}"
  have U: "i \<in> U \<longleftrightarrow> 0 \<le> i \<and> i < BLINK_MAX" for i by (simp add: U_def)
  have card: "finite U" "card U = 2000" unfolding U_def card_atLeastLessThan_int by simp_all
  have s: "i \<in> set is \<longleftrightarrow> i \<in> U \<and> location (blink_array F i) \<noteq> 0" for i using assms unfolding blink_list_def U by blast
  have len: "length is = card (set is)" using assms distinct_card [of "is"] unfolding blink_list_def by metis
  show ?thesis
  proof (cases "mp1_malloc F")
    case None
    then have "location (blink_array F j) \<noteq> 0" if "j \<in> U" for j
      using mp1_malloc_loop_spec [of 0 F] that unfolding mp1_malloc_def U by simp
    then have "set is = U" using s by blast
    then show ?thesis using None len card(2) by simp
  next
    case (Some i)
    then have i: "i \<in> U" "location (blink_array F i) = 0"
      using mp1_malloc_loop_spec [of 0 F] unfolding mp1_malloc_def U by simp_all
    then have "i \<notin> set is" "set is \<subset> U" using s by blast+
    then show ?thesis using Some i(1) len psubset_card_mono [OF card(1)] card(2) unfolding U by simp
  qed
qed

subsection \<open>Adding\<close>

lemma add_list:
  assumes bl: "blink_list F is" and loc: "location u \<noteq> 0" "location u < 2000" and room: "length is < 2000"
  obtains i F' where "mp1_ioctl_add u F = (0, F')" "blink_list F' (i # is)"
    "blinks F' (i # is) = unlinked (u\<lparr>status := 1, countdown := on_length u\<rparr>) # blinks F is"
    "vmem F' = (vmem F)(vmem_base_addr F + blink_offset u := on_char u)"
proof -
  from mp1_malloc_list [OF bl] room obtain i where i: "mp1_malloc F = Some i" "0 \<le> i" "i < BLINK_MAX" "i \<notin> set is"
    by (cases "mp1_malloc F") simp_all
  define b where "b = u\<lparr>status := 1, countdown := on_length u, next_ptr := mp1_list_head F\<rparr>"
  define F1 where "F1 = (set_blink i b F)\<lparr>mp1_list_head := Some i\<rparr>"
  define F' where "F' = mp1_poke (blink_offset u) (on_char u) F1"
  have a: "blink_array F' = (blink_array F)(i := b)" "mp1_list_head F' = Some i" by (simp_all add: F'_def F1_def)
  have "links (blink_array F') (mp1_list_head F) is = links (blink_array F) (mp1_list_head F) is"
    using i(4) by (intro links_cong) (auto simp: a)
  then have "blink_list F' (i # is)"
    using bl i(2-4) loc(1) by (auto simp: blink_list_def a b_def)
  moreover have "blinks F' (i # is) = unlinked b # blinks F is"
    using i(4) by (auto simp: blinks_def a)
  moreover have "unlinked b = unlinked (u\<lparr>status := 1, countdown := on_length u\<rparr>)" by (simp add: b_def unlinked_def)
  moreover have "mp1_ioctl_add u F = (0, F')"
  proof -
    have "\<not> 2000 \<le> location u" using loc(2) by simp
    then show ?thesis
      by (simp add: mp1_ioctl_add_def i(1) Let_def F'_def F1_def b_def set_blink_def blink_offset_def mp1_poke_def)
  qed
  ultimately show thesis by (intro that [of F' i]) (simp_all add: F'_def F1_def)
qed

subsection \<open>Removing\<close>

lemma remove_find_prev_links:
  assumes "links (blink_array F) (get_cell edx F) (pre @ i # post)" "i \<notin> set pre"
  shows "remove_find_prev i edx F = Some (if pre = [] then edx else Link (last pre))"
  using assms
proof (induction pre arbitrary: edx)
  case Nil
  then show ?case by (subst remove_find_prev.simps) simp
next
  case (Cons j pre)
  then have "remove_find_prev i (Link j) F = Some (if pre = [] then Link j else Link (last pre))"
    by (intro Cons.IH) (simp_all add: get_cell_def)
  then show ?case using Cons.prems by (subst remove_find_prev.simps) simp
qed

lemma links_cut:
  assumes "links a p (pre @ i # post)" "distinct (pre @ i # post)" "pre \<noteq> []"
  shows "links (a(last pre := (a (last pre))\<lparr>next_ptr := next_ptr (a i)\<rparr>)) p (pre @ post)"
  using assms
proof (induction pre arbitrary: p)
  case (Cons j pre)
  show ?case
  proof (cases "pre = []")
    case True
    have "links (a(j := (a j)\<lparr>next_ptr := next_ptr (a i)\<rparr>)) (next_ptr (a i)) post = links a (next_ptr (a i)) post"
      using Cons.prems(2) by (intro links_cong) auto
    then show ?thesis using Cons.prems(1) True by (simp add: fun_upd_def)
  next
    case False
    then have "j \<noteq> last pre" using Cons.prems(2) by auto
    then show ?thesis using Cons.IH [of "next_ptr (a j)"] Cons.prems False by simp
  qed
qed simp

text \<open>The list without its first character at a location.\<close>

definition without_first :: "u16 \<Rightarrow> mp1_blink_struct list \<Rightarrow> mp1_blink_struct list" where
  "without_first l bs = takeWhile (\<lambda>b. location b \<noteq> l) bs @ tl (dropWhile (\<lambda>b. location b \<noteq> l) bs)"

lemma without_first_eq:
  "location b = l \<Longrightarrow> \<forall>x\<in>set xs. location x \<noteq> l \<Longrightarrow> without_first l (xs @ b # ys) = xs @ ys"
  by (induction xs) (simp_all add: without_first_def)

lemma find_split:
  assumes "find P xs = Some x"
  obtains ys zs where "xs = ys @ x # zs" "P x" "\<forall>y\<in>set ys. \<not> P y"
  using assms
proof (induction xs arbitrary: thesis)
  case (Cons a xs)
  show ?case
  proof (cases "P a")
    case True
    then show ?thesis using Cons.prems(1) [of "[]" xs] Cons.prems(2) by simp
  next
    case False
    then obtain ys zs where "xs = ys @ x # zs" "P x" "\<forall>y\<in>set ys. \<not> P y" using Cons.IH Cons.prems(2) by auto
    then show ?thesis using Cons.prems(1) [of "a # ys" zs] False by simp
  qed
qed simp

lemma remove_list:
  assumes bl: "blink_list F is" and f: "find (\<lambda>i. location (blink_array F i) = ucast arg) is = Some i"
  obtains F' is' where "mp1_ioctl_remove arg F = Some (0, F')" "blink_list F' is'"
    "blinks F' is' = without_first (ucast arg) (blinks F is)" "vmem F' = vmem F"
proof -
  let ?a = "blink_array F"
  obtain pre post where s: "is = pre @ i # post" "location (?a i) = ucast arg" "\<forall>j\<in>set pre. location (?a j) \<noteq> ucast arg"
    by (rule find_split [OF f])
  have L: "links ?a (mp1_list_head F) (pre @ i # post)" "distinct (pre @ i # post)" using bl s(1) by (simp_all add: blink_list_def)
  then have i: "i \<notin> set pre" "i \<notin> set post" by auto
  define edx where "edx = (if pre = [] then Head else Link (last pre))"
  have prev: "remove_find_prev i Head F = Some edx"
    using remove_find_prev_links [of F Head pre i post] L i(1) by (simp add: get_cell_def edx_def)
  define F1 where "F1 = set_cell edx (next_ptr (?a i)) F"
  define F' where "F' = mp1_free i F1"
  have call: "mp1_ioctl_remove arg F = Some (0, F')"
    by (simp add: mp1_ioctl_remove_def mp1_find_helper_list [OF bl] f prev F'_def F1_def)
  have L1: "links (blink_array F1) (mp1_list_head F1) (pre @ post)"
  proof (cases "pre = []")
    case True
    then show ?thesis using L(1) by (simp add: F1_def edx_def set_cell_def)
  next
    case False
    then show ?thesis using links_cut [OF L False] by (simp add: F1_def edx_def set_cell_def)
  qed
  have fl: "unlinked (blink_array F1 j) = unlinked (?a j)" "location (blink_array F1 j) = location (?a j)" for j
    by (simp_all add: F1_def set_cell_def edx_def)
  have a': "blink_array F' = (blink_array F1)(i := zero_blink)" "mp1_list_head F' = mp1_list_head F1"
    by (simp_all add: F'_def mp1_free_def)
  have "links (blink_array F') (mp1_list_head F1) (pre @ post) = links (blink_array F1) (mp1_list_head F1) (pre @ post)"
    using i by (intro links_cong) (auto simp: a')
  moreover have "set (pre @ post) = {j. 0 \<le> j \<and> j < BLINK_MAX \<and> location (blink_array F' j) \<noteq> 0}"
  proof -
    have "set (pre @ post) = set is - {i}" using s(1) i by auto
    also have "\<dots> = {j. 0 \<le> j \<and> j < BLINK_MAX \<and> location (?a j) \<noteq> 0} - {i}" using bl unfolding blink_list_def by metis
    finally show ?thesis by (auto simp: a' fl zero_blink_def)
  qed
  ultimately have "blink_list F' (pre @ post)"
    using L1 L(2) unfolding blink_list_def a'(2) by simp
  moreover have "blinks F' (pre @ post) = blinks F (pre @ post)" using i by (intro blinks_cong) (auto simp: a' fl)
  moreover have "blinks F (pre @ post) = without_first (ucast arg) (blinks F is)"
    using s(2,3) unfolding s(1) blinks_def map_append list.map by (intro without_first_eq [symmetric]) auto
  moreover have "vmem F' = vmem F" by (simp add: F'_def mp1_free_def F1_def set_cell_def edx_def)
  ultimately show thesis using call by (intro that [of F' "pre @ post"]) simp_all
qed

subsection \<open>A tick of the clock\<close>

text \<open>What a tick does to one character, and the bytes it writes to the screen, by their offsets.\<close>

definition blink_tick :: "mp1_blink_struct \<Rightarrow> mp1_blink_struct" where
  "blink_tick b =
     (if 0 < sint (countdown b - 1) then b\<lparr>countdown := countdown b - 1\<rparr>
      else b\<lparr>countdown := (if status b AND 1 \<noteq> 0 then off_length b else on_length b), status := status b XOR 1\<rparr>)"

definition blink_draw :: "mp1_blink_struct \<Rightarrow> (u32 \<times> u8) list" where
  "blink_draw b =
     (if 0 < sint (countdown b - 1) then []
      else [(blink_offset b, if status b AND 1 \<noteq> 0 then off_char b else on_char b)])"

definition draw :: "u32 \<Rightarrow> (u32 \<times> u8) list \<Rightarrow> mem \<Rightarrow> mem" where
  "draw base ds = fold (\<lambda>(e, ch) v. v(base + e := ch)) ds"

lemma tasklet_step_eq:
  "blink_array (tasklet_step i F) = (blink_array F)(i := blink_tick (blink_array F i))"
  "mp1_list_head (tasklet_step i F) = mp1_list_head F" "vmem_base_addr (tasklet_step i F) = vmem_base_addr F"
  "vmem (tasklet_step i F) = draw (vmem_base_addr F) (blink_draw (blink_array F i)) (vmem F)"
  by (simp_all add: tasklet_step_def Let_def blink_tick_def blink_draw_def draw_def blink_offset_def)

lemma blink_tick_simps [simp]:
  "next_ptr (blink_tick b) = next_ptr b" "location (blink_tick b) = location b" "blink_tick (unlinked b) = unlinked (blink_tick b)"
  "blink_draw (unlinked b) = blink_draw b"
  by (simp_all add: blink_tick_def unlinked_def blink_draw_def blink_offset_def)

lemma tasklet_loop_links:
  assumes "links (blink_array F) p is" "distinct is"
  shows "\<exists>F'. tasklet_loop p F = Some F' \<and> blink_array F' = (\<lambda>i. if i \<in> set is then blink_tick (blink_array F i) else blink_array F i)
    \<and> mp1_list_head F' = mp1_list_head F \<and> vmem_base_addr F' = vmem_base_addr F
    \<and> vmem F' = draw (vmem_base_addr F) (concat (map (\<lambda>i. blink_draw (blink_array F i)) is)) (vmem F)"
  using assms
proof (induction "is" arbitrary: p F)
  case Nil
  then show ?case by (subst tasklet_loop.simps) (simp add: draw_def)
next
  case (Cons i "is")
  let ?F1 = "tasklet_step i F"
  have "links (blink_array ?F1) (next_ptr (blink_array F i)) is = links (blink_array F) (next_ptr (blink_array F i)) is"
    by (intro links_cong) (simp add: tasklet_step_eq)
  then obtain F' where F': "tasklet_loop (next_ptr (blink_array F i)) ?F1 = Some F'"
    "blink_array F' = (\<lambda>j. if j \<in> set is then blink_tick (blink_array ?F1 j) else blink_array ?F1 j)"
    "mp1_list_head F' = mp1_list_head F" "vmem_base_addr F' = vmem_base_addr F"
    "vmem F' = draw (vmem_base_addr F) (concat (map (\<lambda>j. blink_draw (blink_array ?F1 j)) is)) (vmem ?F1)"
    using Cons.IH [of ?F1 "next_ptr (blink_array F i)"] Cons.prems by (auto simp: tasklet_step_eq(2,3))
  have i: "i \<notin> set is" using Cons.prems(2) by simp
  have dm: "map (\<lambda>j. blink_draw (blink_array ?F1 j)) is = map (\<lambda>j. blink_draw (blink_array F j)) is"
    using i by (auto simp: tasklet_step_eq)
  have "vmem F' = draw (vmem_base_addr F) (concat (map (\<lambda>j. blink_draw (blink_array F j)) (i # is))) (vmem F)"
    unfolding F'(5) dm tasklet_step_eq(4) by (simp add: draw_def)
  moreover have "blink_array F' = (\<lambda>j. if j \<in> set (i # is) then blink_tick (blink_array F j) else blink_array F j)"
    unfolding F'(2) using i by (auto simp: tasklet_step_eq)
  moreover have "tasklet_loop p F = Some F'"
    using Cons.prems(1) F'(1) by (subst tasklet_loop.simps) (simp add: Let_def tasklet_step_eq)
  ultimately show ?case using F'(3,4) by blast
qed

lemma tasklet_list:
  assumes bl: "blink_list F is"
  obtains F' where "mp1_rtc_tasklet F = Some F'" "blink_list F' is" "blinks F' is = map blink_tick (blinks F is)"
    "vmem F' = draw (vmem_base_addr F) (concat (map blink_draw (blinks F is))) (vmem F)"
proof -
  have l: "links (blink_array F) (mp1_list_head F) is" "distinct is" using bl unfolding blink_list_def by blast+
  obtain F' where F': "mp1_rtc_tasklet F = Some F'"
    "blink_array F' = (\<lambda>i. if i \<in> set is then blink_tick (blink_array F i) else blink_array F i)"
    "mp1_list_head F' = mp1_list_head F"
    "vmem F' = draw (vmem_base_addr F) (concat (map (\<lambda>i. blink_draw (blink_array F i)) is)) (vmem F)"
    using tasklet_loop_links [OF l] unfolding mp1_rtc_tasklet_def by blast
  have "links (blink_array F') (mp1_list_head F) is = links (blink_array F) (mp1_list_head F) is"
    by (intro links_cong) (simp add: F'(2))
  moreover have "location (blink_array F' i) = location (blink_array F i)" for i by (simp add: F'(2))
  ultimately have "blink_list F' is" using bl unfolding blink_list_def F'(3) by simp
  moreover have "blinks F' is = map blink_tick (blinks F is)" by (simp add: blinks_def F'(2))
  moreover have "map (\<lambda>i. blink_draw (blink_array F i)) is = map blink_draw (blinks F is)" by (simp add: blinks_def)
  ultimately show thesis using F'(1,4) that by simp
qed

subsection \<open>A list that has become a circle\<close>

lemma tasklet_circle:
  assumes "next_ptr (blink_array F i) = Some i"
  shows "tasklet_loop (Some i) F = None"
proof (rule ccontr)
  assume "tasklet_loop (Some i) F \<noteq> None"
  then obtain r where "tasklet_loop (Some i) F = Some r" by blast
  then have "\<not> (Some i = Some i \<and> next_ptr (blink_array F i) = Some i)"
  proof (rule tasklet_loop.raw_induct [rotated, where P = "\<lambda>p F r. \<not> (p = Some i \<and> next_ptr (blink_array F i) = Some i)"])
    fix f p F r
    assume IH: "\<And>p F r. f p F = Some r \<Longrightarrow> \<not> (p = Some i \<and> next_ptr (blink_array F i) = Some i)"
      and eq: "(case p of None \<Rightarrow> Some F | Some i \<Rightarrow> let F = tasklet_step i F in f (next_ptr (blink_array F i)) F) = Some r"
    show "\<not> (p = Some i \<and> next_ptr (blink_array F i) = Some i)"
    proof
      assume p: "p = Some i \<and> next_ptr (blink_array F i) = Some i"
      then have "f (Some i) (tasklet_step i F) = Some r" using eq by (simp add: Let_def tasklet_step_eq)
      from IH [OF this] show False using p by (simp add: tasklet_step_eq)
    qed
  qed
  then show False using assms by simp
qed

lemma mp1_malloc_again:
  assumes "mp1_malloc F = Some i" "location b = 0" "blink_array G = (blink_array F)(i := b)"
  shows "mp1_malloc G = Some i"
proof -
  have "mp1_malloc_loop G j = Some i" if "mp1_malloc_loop F j = Some i" for j
    using that assms(3)
  proof (induction F j rule: mp1_malloc_loop.induct)
    case (1 F j)
    have j: "j < BLINK_MAX" using 1(2) by (subst (asm) mp1_malloc_loop.simps) (simp split: if_splits)
    show ?case
    proof (cases "location (blink_array F j) = 0")
      case True
      then have "j = i" using 1(2) j by (subst (asm) mp1_malloc_loop.simps) simp
      then show ?thesis using j assms(2) 1(3) by (subst mp1_malloc_loop.simps) simp
    next
      case False
      then have "mp1_malloc_loop F (j + 1) = Some i" using 1(2) j by (subst (asm) mp1_malloc_loop.simps) simp
      moreover from this have "j + 1 \<le> i" using mp1_malloc_loop_spec [of "j + 1" F] by simp
      ultimately show ?thesis using 1(1) [OF j False] 1(3) j False by (subst mp1_malloc_loop.simps) simp
    qed
  qed
  then show ?thesis using assms(1) by (simp add: mp1_malloc_def)
qed

subsection \<open>Synchronising\<close>

lemma ucast_low_half: "ucast (arg AND 0xFFFF :: u32) = (ucast arg :: u16)"
proof -
  have "arg AND 0xFFFF = take_bit 16 arg" by (simp add: take_bit_eq_mask mask_eq_exp_minus_1)
  then show ?thesis by (simp only:) (rule bit_eqI, auto simp: bit_simps)
qed

lemma sync_list:
  assumes bl: "blink_list F is" and i: "find (\<lambda>i. location (blink_array F i) = ucast (drop_bit 16 arg)) is = Some i"
    and j: "find (\<lambda>i. location (blink_array F i) = ucast arg) is = Some j"
  obtains F' where "mp1_ioctl_sync arg F = Some (0, F')" "blink_list F' is"
    "blink_array F' = (blink_array F)(j := (blink_array F j)\<lparr>on_length := on_length (blink_array F i), off_length := off_length (blink_array F i),
       countdown := countdown (blink_array F i), status := status (blink_array F i)\<rparr>)"
    "vmem F' = (vmem F)(vmem_base_addr F + blink_offset (blink_array F j) := off_char (blink_array F j))"
proof -
  let ?a = "blink_array F i" and ?b = "blink_array F j"
  have h: "mp1_find_helper (drop_bit 16 arg) F = Some (Some i)" "mp1_find_helper (arg AND 0xFFFF) F = Some (Some j)"
    using i j ucast_low_half [of arg] by (simp_all add: mp1_find_helper_list [OF bl])
  define F' where "F' = mp1_poke (blink_offset ?b) (off_char ?b) (set_blink j (?b\<lparr>on_length := on_length ?a, off_length := off_length ?a,
       countdown := countdown ?a, status := status ?a\<rparr>) F)"
  have call: "mp1_ioctl_sync arg F = Some (0, F')"
    by (simp add: mp1_ioctl_sync_def h Let_def F'_def blink_offset_def)
  have a': "next_ptr (blink_array F' k) = next_ptr (blink_array F k)" "location (blink_array F' k) = location (blink_array F k)" for k
    by (simp_all add: F'_def)
  have "links (blink_array F') (mp1_list_head F) is = links (blink_array F) (mp1_list_head F) is" by (intro links_cong) (rule a')
  moreover have "mp1_list_head F' = mp1_list_head F" by (simp add: F'_def)
  ultimately have "blink_list F' is" using bl unfolding blink_list_def by (simp add: a'(2))
  from that [OF call this] show thesis by (simp add: F'_def)
qed

subsection \<open>Every branch of the searches\<close>

lemma add_refused:
  assumes "blink_list F is" "2000 \<le> location u \<or> length is = 2000"
  shows "mp1_ioctl_add u F = (-1, F)"
proof (cases "2000 \<le> location u")
  case True
  then show ?thesis by (simp add: mp1_ioctl_add_def)
next
  case False
  then have "\<not> length is < 2000" using assms(2) by simp
  then have "mp1_malloc F = None" using mp1_malloc_list [OF assms(1)] by (cases "mp1_malloc F") simp_all
  then show ?thesis by (simp add: mp1_ioctl_add_def Let_def)
qed

lemma remove_cases:
  assumes "blink_list F is"
  shows "if \<exists>b\<in>set (blinks F is). location b = ucast arg
     then \<exists>is' F'. mp1_ioctl_remove arg F = Some (0, F') \<and> blink_list F' is'
       \<and> blinks F' is' = without_first (ucast arg) (blinks F is) \<and> vmem F' = vmem F
     else mp1_ioctl_remove arg F = Some (-1, F)"
proof (cases "find (\<lambda>i. location (blink_array F i) = ucast arg) is")
  case None
  then have "\<not> (\<exists>b\<in>set (blinks F is). location b = ucast arg)" by (auto simp: find_None_iff blinks_def)
  then show ?thesis using None by (simp add: mp1_ioctl_remove_def mp1_find_helper_list [OF assms])
next
  case (Some i)
  then have "\<exists>b\<in>set (blinks F is). location b = ucast arg" by (auto simp: find_Some_iff blinks_def)
  then show ?thesis using remove_list [OF assms Some] by metis
qed

lemma find_list:
  assumes "blink_list F is"
  shows "map_option (\<lambda>(r, b). (r, unlinked b)) (mp1_ioctl_find u F)
    = Some (case find (\<lambda>b. location b = location u) (blinks F is) of None \<Rightarrow> (-1, unlinked u) | Some b \<Rightarrow> (0, b))"
proof -
  have "ucast (ucast (location u) :: u32) = location u" by (rule bit_eqI) (auto simp: bit_simps)
  then have "mp1_ioctl_find u F = (case find (\<lambda>i. location (blink_array F i) = location u) is of
      None \<Rightarrow> Some (-1, u) | Some i \<Rightarrow> Some (0, blink_array F i))"
    by (simp add: mp1_ioctl_find_def mp1_find_helper_list [OF assms])
  then show ?thesis
    unfolding find_blinks by (cases "find (\<lambda>i. location (blink_array F i) = location u) is") simp_all
qed

subsection \<open>The show comes to its end\<close>

definition well_linked :: "fish \<Rightarrow> bool" where
  "well_linked F \<longleftrightarrow> (\<exists>is. blink_list F is)"

lemma well_linked_ticks:
  assumes "well_linked F" "\<And>S. \<exists>r S'. ece391_read c rtcfd (v_garbage v) 4 S = Some (r, S')"
  obtains S' F' where "wait_ticks n c v rtcfd S F = Some (S', F')" "well_linked F'"
  using assms(1)
proof (induction n arbitrary: S F thesis)
  case (Suc n)
  obtain r S1 where 1: "ece391_read c rtcfd (v_garbage v) 4 S = Some (r, S1)" using assms(2) by blast
  obtain "is" where "blink_list F is" using Suc.prems(2) unfolding well_linked_def by blast
  then obtain F1 where 2: "mp1_rtc_tasklet F = Some F1" "blink_list F1 is" by (rule tasklet_list)
  then have "well_linked F1" unfolding well_linked_def by blast
  then obtain S' F' where "wait_ticks n c v rtcfd S1 F1 = Some (S', F')" "well_linked F'" using Suc.IH by blast
  then show ?case using Suc.prems(1) 1 2(1) by simp
qed simp

lemma well_linked_ioctl:
  assumes "well_linked F" "cmd = 0 \<Longrightarrow> location b \<noteq> 0" "cmd \<in> {0, 1, 3}"
  obtains r b' F' where "mp1_ioctl b arg cmd F = Some (r, b', F')" "well_linked F'"
proof -
  obtain "is" where bl: "blink_list F is" using assms(1) unfolding well_linked_def by blast
  let ?at = "\<lambda>l. find (\<lambda>i. location (blink_array F i) = l) is"
  consider "cmd = 0" | "cmd = 1" | "cmd = 3" using assms(3) by blast
  then show thesis
  proof cases
    case 1
    have "well_linked (snd (mp1_ioctl_add b F))"
    proof (cases "location b < 2000 \<and> length is < 2000")
      case True
      then show ?thesis using add_list [OF bl assms(2) [OF 1]] unfolding well_linked_def by (metis snd_conv)
    next
      case False
      have "length is \<le> 2000" using mp1_malloc_list [OF bl] by (cases "mp1_malloc F") simp_all
      then show ?thesis using False add_refused [OF bl, of b] assms(1) by force
    qed
    then show ?thesis using 1 that by (auto simp: mp1_ioctl_def split_beta Let_def)
  next
    case 2
    have "\<exists>r F'. mp1_ioctl_remove arg F = Some (r, F') \<and> well_linked F'"
      using remove_cases [OF bl, of arg] assms(1) unfolding well_linked_def by (auto split: if_splits)
    then show ?thesis using 2 that by (auto simp: mp1_ioctl_def)
  next
    case 3
    have "\<exists>r F'. mp1_ioctl_sync arg F = Some (r, F') \<and> well_linked F'"
    proof (cases "?at (ucast (drop_bit 16 arg)) = None \<or> ?at (ucast arg) = None")
      case True
      have "ucast (arg AND 0xFFFF) = (ucast arg :: u16)" by (rule ucast_low_half)
      then show ?thesis using True assms(1)
        by (auto simp: mp1_ioctl_sync_def mp1_find_helper_list [OF bl] split: option.splits)
    next
      case False
      then obtain i j where "?at (ucast (drop_bit 16 arg)) = Some i" "?at (ucast arg) = Some j" by auto
      then show ?thesis by (rule sync_list [OF bl]) (auto simp: well_linked_def)
    qed
    then show ?thesis using 3 that by (auto simp: mp1_ioctl_def)
  qed
qed

lemma fish_show_returns:
  assumes F: "well_linked F" and rd: "\<And>S. \<exists>r S'. ece391_read c rtcfd (v_garbage v) 4 S = Some (r, S')"
    and wr: "\<And>S. \<exists>r S'. ece391_write c rtcfd (v_ret_val v) 4 S = Some (r, S')" and cl: "\<And>S. \<exists>r S'. ece391_close c rtcfd S = Some (r, S')"
  shows "\<exists>S' F'. fish_show c v junk rtcfd S F = Some (0, S', F') \<and> well_linked F'"
proof -
  let ?b = "junk\<lparr>on_char := of_char CHR ''I'', off_char := of_char CHR ''M'', on_length := 7, off_length := 6, location := 6 * 80 + 60\<rparr>"
  obtain r S1 where 1: "ece391_write c rtcfd (v_ret_val v) 4 (poke c (put32 (peek c S) (v_ret_val v) 32) S) = Some (r, S1)" using wr by blast
  obtain S2 F2 where 2: "wait_ticks 200 c v rtcfd (poke c (put32 (peek c S1) (v_ret_val v) (of_int r)) S1) F = Some (S2, F2)" "well_linked F2"
    by (rule well_linked_ticks [OF F rd])
  obtain r3 b3 F3 where 3: "mp1_ioctl ?b 0 0 F2 = Some (r3, b3, F3)" "well_linked F3"
    by (rule well_linked_ioctl [OF 2(2), of 0 ?b]) simp_all
  obtain S4 F4 where 4: "wait_ticks 200 c v rtcfd S2 F3 = Some (S4, F4)" "well_linked F4" by (rule well_linked_ticks [OF 3(2) rd])
  obtain r5 b5 F5 where 5: "mp1_ioctl b3 (push_bit 16 40 OR (6 * 80 + 60)) 3 F4 = Some (r5, b5, F5)" "well_linked F5"
    by (rule well_linked_ioctl [OF 4(2), of 3 b3]) simp_all
  obtain S6 F6 where 6: "wait_ticks 200 c v rtcfd S4 F5 = Some (S6, F6)" "well_linked F6" by (rule well_linked_ticks [OF 5(2) rd])
  obtain r7 b7 F7 where 7: "mp1_ioctl (b5\<lparr>location := 60\<rparr>) 200 1 F6 = Some (r7, b7, F7)" "well_linked F7"
    by (rule well_linked_ioctl [OF 6(2), of 1 "b5\<lparr>location := 60\<rparr>"]) simp_all
  obtain S8 F8 where 8: "wait_ticks 2000 c v rtcfd S6 F7 = Some (S8, F8)" "well_linked F8" by (rule well_linked_ticks [OF 7(2) rd])
  obtain r9 S9 where 9: "ece391_close c rtcfd S8 = Some (r9, S9)" using cl by blast
  have "fish_show c v junk rtcfd S F = Some (0, S9, F8)"
    unfolding fish_show_def Let_def 1 2(1) 3(1) 4(1) 5(1) 6(1) 7(1) 8(1) 9 Option.bind.bind_lunit prod.case ..
  then show ?thesis using 8(2) by blast
qed

section \<open>Properties\<close>

text \<open>C34: The blinking characters are a list.  When the links run through exactly the used elements of the pool, the
  operations on the pool are operations on a plain list of characters.  \<open>mp1_ioctl_add\<close> puts a character in front, showing it, if its
  location is neither 0 nor outside the screen and the pool has room, and is refused outside the screen or without room.
  \<open>mp1_ioctl_remove\<close> takes away the first character of its location or is refused; \<open>mp1_ioctl_find\<close> delivers the first one; \<open>mp1_rtc_tasklet\<close>
  returns, having counted down every character, and drawn those whose time was over, in the order of the list.\<close>

theorem fish_refines_list:
  assumes "blink_list F is"
  shows "(location u \<noteq> 0 \<and> location u < 2000 \<and> length is < 2000 \<longrightarrow>
      (\<exists>i F'. mp1_ioctl_add u F = (0, F') \<and> blink_list F' (i # is)
        \<and> blinks F' (i # is) = unlinked (u\<lparr>status := 1, countdown := on_length u\<rparr>) # blinks F is
        \<and> vmem F' = (vmem F)(vmem_base_addr F + blink_offset u := on_char u)))
    \<and> (2000 \<le> location u \<or> length is = 2000 \<longrightarrow> mp1_ioctl_add u F = (-1, F))
    \<and> (if \<exists>b\<in>set (blinks F is). location b = ucast arg
       then \<exists>is' F'. mp1_ioctl_remove arg F = Some (0, F') \<and> blink_list F' is'
         \<and> blinks F' is' = without_first (ucast arg) (blinks F is) \<and> vmem F' = vmem F
       else mp1_ioctl_remove arg F = Some (-1, F))
    \<and> map_option (\<lambda>(r, b). (r, unlinked b)) (mp1_ioctl_find u F)
        = Some (case find (\<lambda>b. location b = location u) (blinks F is) of None \<Rightarrow> (-1, unlinked u) | Some b \<Rightarrow> (0, b))
    \<and> (\<exists>F'. mp1_rtc_tasklet F = Some F' \<and> blink_list F' is \<and> blinks F' is = map blink_tick (blinks F is)
        \<and> vmem F' = draw (vmem_base_addr F) (concat (map blink_draw (blinks F is))) (vmem F))"
proof (intro conjI impI add_refused [OF assms] remove_cases [OF assms] find_list [OF assms])
  assume "location u \<noteq> 0 \<and> location u < 2000 \<and> length is < 2000"
  then show "\<exists>i F'. mp1_ioctl_add u F = (0, F') \<and> blink_list F' (i # is)
      \<and> blinks F' (i # is) = unlinked (u\<lparr>status := 1, countdown := on_length u\<rparr>) # blinks F is
      \<and> vmem F' = (vmem F)(vmem_base_addr F + blink_offset u := on_char u)"
    using add_list [OF assms, of u] by metis
next
  show "\<exists>F'. mp1_rtc_tasklet F = Some F' \<and> blink_list F' is \<and> blinks F' is = map blink_tick (blinks F is)
      \<and> vmem F' = draw (vmem_base_addr F) (concat (map blink_draw (blinks F is))) (vmem F)"
    using tasklet_list [OF assms] by metis
qed

text \<open>The empty pool of \<open>main\<close>.\<close>

definition fish_start :: fish where
  "fish_start = \<lparr>blink_array = (\<lambda>_. zero_blink), mp1_list_head = None, vmem_base_addr = 0x7CB8000, vmem = (\<lambda>_. 0)\<rparr>"

lemma fish_start_list: "blink_list fish_start []"
  by (simp add: blink_list_def fish_start_def zero_blink_def)

theorem fish_refines_list_witness:
  "\<exists>i F'. mp1_ioctl_add \<lparr>location = 40, on_char = 0x49, off_char = 0x4D, on_length = 7, off_length = 6, countdown = 0, status = 0, next_ptr = None\<rparr> fish_start
      = (0, F') \<and> blink_list F' [i]"
  using fish_refines_list [OF fish_start_list, of "\<lparr>location = 40, on_char = 0x49, off_char = 0x4D, on_length = 7, off_length = 6, countdown = 0, status = 0, next_ptr = None\<rparr>" 0,
      THEN conjunct1] by auto

text \<open>C39: A character at location 0 breaks the list.  \<open>mp1_ioctl_add\<close> accepts location 0, but \<open>mp1_malloc\<close> takes an element with location 0
  for a free one, so the next character that is added gets the same element and is linked to itself: from then on the interrupt
  routine never comes to the end of the list.\<close>

theorem fish_location_zero:
  assumes "mp1_malloc F \<noteq> None" "location u = 0" "location v < 2000"
  shows "fst (mp1_ioctl_add u F) = 0 \<and> fst (mp1_ioctl_add v (snd (mp1_ioctl_add u F))) = 0
    \<and> mp1_rtc_tasklet (snd (mp1_ioctl_add v (snd (mp1_ioctl_add u F)))) = None"
proof -
  obtain i where i: "mp1_malloc F = Some i" using assms(1) by blast
  have add: "fst (mp1_ioctl_add w G) = 0 \<and> mp1_list_head (snd (mp1_ioctl_add w G)) = Some i
      \<and> blink_array (snd (mp1_ioctl_add w G)) = (blink_array G)(i := w\<lparr>status := 1, countdown := on_length w, next_ptr := mp1_list_head G\<rparr>)"
    if "mp1_malloc G = Some i" "\<not> 2000 \<le> location w" for w G
    using that by (simp add: mp1_ioctl_add_def Let_def)
  define F1 where "F1 = snd (mp1_ioctl_add u F)"
  have 1: "fst (mp1_ioctl_add u F) = 0" "mp1_list_head F1 = Some i"
    "blink_array F1 = (blink_array F)(i := u\<lparr>status := 1, countdown := on_length u, next_ptr := mp1_list_head F\<rparr>)"
    using add [OF i, of u] assms(2) by (simp_all add: F1_def)
  have "mp1_malloc F1 = Some i" by (rule mp1_malloc_again [OF i _ 1(3)]) (simp add: assms(2))
  from add [OF this, of v] assms(3) 1(2)
  have 2: "fst (mp1_ioctl_add v F1) = 0" "mp1_list_head (snd (mp1_ioctl_add v F1)) = Some i"
    "next_ptr (blink_array (snd (mp1_ioctl_add v F1)) i) = Some i" by simp_all
  show ?thesis unfolding F1_def [symmetric] mp1_rtc_tasklet_def 2(2) using 1(1) 2(1) tasklet_circle [OF 2(3)] by simp
qed

theorem fish_location_zero_witness:
  "mp1_rtc_tasklet (snd (mp1_ioctl_add zero_blink (snd (mp1_ioctl_add zero_blink fish_start)))) = None"
proof -
  have "mp1_malloc fish_start = Some 0" unfolding mp1_malloc_def by (subst mp1_malloc_loop.simps) (simp add: fish_start_def zero_blink_def)
  then show ?thesis using fish_location_zero [of fish_start zero_blink zero_blink] by (simp add: zero_blink_def)
qed


text \<open>A clock that always answers, for examples.\<close>

definition quick_calls :: "mem calls" where
  "quick_calls = \<lparr>ece391_execute = (\<lambda>_ m. Some (-1, m)), ece391_read = (\<lambda>_ _ _ m. Some (0, m)), ece391_write = (\<lambda>_ _ _ m. Some (0, m)),
     ece391_open = (\<lambda>_ m. Some (2, m)), ece391_close = (\<lambda>_ m. Some (0, m)), ece391_getargs = (\<lambda>_ _ m. Some (-1, m)),
     ece391_vidmap = (\<lambda>_ m. Some (0, m)), ece391_set_handler = (\<lambda>_ _ m. Some (-1, m)), ece391_sigreturn = (\<lambda>m. Some (-1, m)),
     call_sys = (\<lambda>_ m. Some (-1, m)), peek = (\<lambda>m. m), poke = (\<lambda>m _. m)\<rparr>"


end
