(* ===== verification/Listing.thy ===== *)
theory Listing
  imports User
begin

text \<open>
  The program \<^verbatim>\<open>ls\<close> on the kernel: opening and reading a directory through the system calls.  What \<^verbatim>\<open>ls\<close> relies on is the locale
  \<open>dir_to_terminal\<close>; the kernel's calls satisfy it for a process with the directory open.
\<close>

section \<open>Listing names\<close>

locale dir_to_terminal =
  fixes c :: "'s calls"
    and ok :: "'s \<Rightarrow> bool"
    and fd :: int
    and entries :: "'s \<Rightarrow> u8 list list"
    and screen :: "'s \<Rightarrow> ascreen"
    and area :: "u32 \<Rightarrow> nat \<Rightarrow> bool"
  assumes entry_ok: "ok S \<Longrightarrow> name \<in> set (entries S) \<Longrightarrow> name \<noteq> [] \<and> length name \<le> 32 \<and> (\<forall>b\<in>set name. plain_key b)"
    and read_entry: "ok S \<Longrightarrow> area buf 33 \<Longrightarrow> entries S = name # rest \<Longrightarrow>
      \<exists>S'. ece391_read c fd buf 32 S = Some (int (length name), S') \<and> ok S' \<and> load (peek c S') buf (length name) = name
        \<and> entries S' = rest \<and> screen S' = screen S"
    and read_end: "ok S \<Longrightarrow> area buf 33 \<Longrightarrow> entries S = [] \<Longrightarrow>
      \<exists>S'. ece391_read c fd buf 32 S = Some (0, S') \<and> ok S' \<and> entries S' = [] \<and> screen S' = screen S"
    and write_bytes: "ok S \<Longrightarrow> area buf 33 \<Longrightarrow> 0 < n \<Longrightarrow> n \<le> 33 \<Longrightarrow> \<forall>b\<in>set (load (peek c S) buf n). plain_key b \<Longrightarrow>
      \<exists>S'. ece391_write c 1 buf (int n) S = Some (int n, S') \<and> ok S' \<and> entries S' = entries S
        \<and> screen S' = fold show_char (load (peek c S) buf n) (screen S)"
    and poke_byte: "ok S \<Longrightarrow> area buf 33 \<Longrightarrow> k < 33 \<Longrightarrow>
      ok (set_byte c (buf + of_nat k) b S) \<and> peek c (set_byte c (buf + of_nat k) b S) = (peek c S)(buf + of_nat k := b)
        \<and> entries (set_byte c (buf + of_nat k) b S) = entries S \<and> screen (set_byte c (buf + of_nat k) b S) = screen S"
begin

lemma ls_loop_lists:
  assumes "ok S" "area buf 33"
  shows "\<exists>S'. ls_loop c lit fd buf S = Some (0, S') \<and> ok S' \<and> entries S' = []
    \<and> screen S' = fold show_char (concat (map (\<lambda>n. n @ [NEWLINE]) (entries S))) (screen S)"
  using assms(1)
proof (induction "entries S" arbitrary: S)
  case Nil
  then obtain S' where "ece391_read c fd buf 32 S = Some (0, S')" "ok S'" "entries S' = []" "screen S' = screen S"
    using read_end [OF Nil.prems assms(2)] by auto
  then show ?case using Nil.hyps by (subst ls_loop.simps) (simp flip: Nil.hyps)
next
  case (Cons n rest)
  note n = entry_ok [OF Cons.prems, of n, unfolded Cons.hyps(2) [symmetric], simplified]
  obtain S1 where 1: "ece391_read c fd buf 32 S = Some (int (length n), S1)" "ok S1" "load (peek c S1) buf (length n) = n"
    "entries S1 = rest" "screen S1 = screen S"
    using read_entry [OF Cons.prems assms(2) Cons.hyps(2) [symmetric]] by blast
  define S2 where "S2 = set_byte c (buf + of_nat (length n)) NEWLINE S1"
  have 2: "ok S2" "peek c S2 = (peek c S1)(buf + of_nat (length n) := NEWLINE)" "entries S2 = rest" "screen S2 = screen S"
    using poke_byte [OF 1(2) assms(2), of "length n" NEWLINE] n 1(4,5) by (simp_all add: S2_def)
  have "length n < 2 ^ 32" using n by simp
  then have "peek c S2 = store (peek c S1) buf (n @ [NEWLINE])"
    unfolding 2(2) using store_load_snoc [of "length n" "peek c S1" buf NEWLINE] 1(3) by simp
  then have bytes: "load (peek c S2) buf (length (n @ [NEWLINE])) = n @ [NEWLINE]" using n load_store [of "n @ [NEWLINE]"] by simp
  have plain: "\<forall>b\<in>set (n @ [NEWLINE]). plain_key b" using n by (auto simp: plain_key_def)
  obtain S3 where 3: "ece391_write c 1 buf (int (length (n @ [NEWLINE]))) S2 = Some (int (length (n @ [NEWLINE])), S3)" "ok S3" "entries S3 = rest"
    "screen S3 = fold show_char (n @ [NEWLINE]) (screen S)"
    using write_bytes [OF 2(1) assms(2), of "length (n @ [NEWLINE])"] n plain unfolding bytes 2(3,4) by auto
  obtain S4 where 4: "ls_loop c lit fd buf S3 = Some (0, S4)" "ok S4" "entries S4 = []"
    "screen S4 = fold show_char (concat (map (\<lambda>n. n @ [NEWLINE]) rest)) (screen S3)"
    using Cons.hyps(1) [of S3] 3(2,3) by auto
  have "ls_loop c lit fd buf S = Some (0, S4)"
    using 1(1) 3(1) 4(1) n by (subst ls_loop.simps) (simp add: S2_def add.commute)
  then show ?case using 4(2-4) 3(4) by (auto simp flip: Cons.hyps(2))
qed

end

section \<open>Directories of the kernel\<close>

text \<open>The names are those of the directory in the kernel memory \<open>P\<close>, apart from the frame of \<open>dir_read\<close>.\<close>

definition dir_mem :: "env \<Rightarrow> u32 set \<Rightarrow> u8 list list \<Rightarrow> machine \<Rightarrow> bool" where
  "dir_mem env P names M \<longleftrightarrow> (\<forall>x\<in>P. x < KERNEL_MEM_END) \<and> in_kernel (e_dir_dentry env) 64 \<and> e_dir_dentry env \<noteq> 0
     \<and> clear_of P (e_dir_dentry env) 64 \<and> directory (k_fs M) (view env M) names
     \<and> (\<forall>j<length names. \<forall>k<64. dentry_directory (boot_block (k_fs M)) (of_nat j) + of_nat k \<in> P)
     \<and> (\<forall>n\<in>set names. n \<noteq> [] \<and> length n \<le> 32 \<and> (\<forall>b\<in>set n. plain_key b))"

lemma dir_memD:
  assumes "dir_mem env P names M"
  shows "\<forall>x\<in>P. x < KERNEL_MEM_END" "in_kernel (e_dir_dentry env) 64" "e_dir_dentry env \<noteq> 0" "clear_of P (e_dir_dentry env) 64"
    and "directory (k_fs M) (view env M) names" "\<And>j k. j < length names \<Longrightarrow> k < 64 \<Longrightarrow> dentry_directory (boot_block (k_fs M)) (of_nat j) + of_nat k \<in> P"
    and "\<And>n. n \<in> set names \<Longrightarrow> n \<noteq> [] \<and> length n \<le> 32 \<and> (\<forall>b\<in>set n. plain_key b)"
    and "\<And>j. j < length names \<Longrightarrow> length (names ! j) < 64"
proof -
  show n: "n \<noteq> [] \<and> length n \<le> 32 \<and> (\<forall>b\<in>set n. plain_key b)" if "n \<in> set names" for n using assms that unfolding dir_mem_def by blast
  show "length (names ! j) < 64" if "j < length names" for j using n [OF nth_mem [OF that]] by simp
qed (use assms in \<open>unfold dir_mem_def, blast+\<close>)

lemma dir_mem_agree:
  assumes "dir_mem env P names M" "\<And>a. a \<in> P \<Longrightarrow> view env M' a = view env M a" "k_fs M' = k_fs M"
  shows "dir_mem env P names M'"
proof -
  note d = dir_memD [OF assms(1)]
  have "directory (k_fs M) (view env M') names" by (rule directory_agree [OF d(5,8,6) assms(2)])
  then show ?thesis using assms(1) unfolding dir_mem_def assms(3) by blast
qed

text \<open>Process \<open>p\<close> has the directory open as \<open>fd\<close>.\<close>

definition dir_ready :: "env \<Rightarrow> int \<Rightarrow> int \<Rightarrow> u32 set \<Rightarrow> u8 list list \<Rightarrow> machine \<Rightarrow> bool" where
  "dir_ready env p fd P names M \<longleftrightarrow> maps_image env p M \<and> 2 \<le> fd \<and> fd < FD_MAX \<and> output_ready M \<and> dir_mem env P names M
     \<and> file_operation_jmp_tbl (fd_of M fd) = Dir_driver \<and> flags (fd_of M fd) \<noteq> 0
     \<and> unat (file_position (fd_of M fd)) \<le> length names"

definition left_names :: "int \<Rightarrow> u8 list list \<Rightarrow> machine \<Rightarrow> u8 list list" where
  "left_names fd names M = drop (unat (file_position (fd_of M fd))) names"

lemma dir_read_result:
  assumes d: "dir_mem env P names M" and pos: "unat pos < length names" "elements (pcbs cur) fd = file" "file_position file = pos"
    and win: "in_window buf 33"
  defines "m1 \<equiv> store (view env M) (e_dir_dentry env) (load (view env M) (dentry_directory (boot_block (k_fs M)) pos) 64)"
  shows "dir_read (k_fs M) fd (e_dir_dentry env) buf (view env M) cur pcbs
    = Some (of_nat (length (names ! unat pos)), store m1 buf (names ! unat pos @ [0]),
        pcbs(cur := (pcbs cur)\<lparr>elements := (elements (pcbs cur))(fd := file\<lparr>file_position := pos + 1\<rparr>)\<rparr>))"
proof -
  let ?e = "dentry_directory (boot_block (k_fs M)) pos" and ?f = "e_dir_dentry env" and ?n = "names ! unat pos"
  note d = dir_memD [OF d]
  have of_pos: "of_nat (unat pos) = pos" by simp
  have names: "length names = unat (num_directories (k_fs M))" "cstr (view env M) ?e ?n"
    using d(5) pos(1) of_pos unfolding directory_def by (blast, metis)
  have "64 \<le> unat (?f - ?e)"
    by (rule clear_entry [OF _ d(4)]) (use d(6) [OF pos(1)] of_pos in simp_all)
  then have idx: "read_dentry_by_index (k_fs M) (view env M) pos ?f = (0, m1)"
    using memcpy_copied [of ?f ?e 64 "view env M"] d(3) pos(1) names(1)
    by (simp add: read_dentry_by_index_def copied_eq_store word_less_nat_alt m1_def)
  have len: "length ?n < 64" using d(8) [OF pos(1)] .
  have "cstr m1 ?f ?n"
  proof -
    have at: "m1 (?f + of_nat k) = view env M (?e + of_nat k)" if "k < 64" for k
      using store_at [of k "load (view env M) ?e 64" "view env M" ?f] that by (simp add: m1_def)
    then have "load m1 ?f (length ?n) = load (view env M) ?e (length ?n)" using len by (simp add: load_def)
    then show ?thesis using names(2) len at [OF len] unfolding cstr_def by simp
  qed
  moreover have "unat (buf - ?f) = unat buf - unat ?f" "0x8000000 \<le> unat buf" "unat ?f \<le> 0x800000"
    using win d(2) by (auto simp: in_window_def in_kernel_def unat_sub_if')
  ultimately have "strcpy m1 buf ?f = Some (store m1 buf (?n @ [0]))"
    using len by (intro strcpy_cstr) auto
  moreover have "0 \<notin> set ?n" using d(7) [OF nth_mem [OF pos(1)]] by (auto simp: plain_key_def)
  then have "strlen (store m1 buf (?n @ [0])) buf = Some (of_nat (length ?n))" using len by (intro strlen_cstr cstr_store) simp_all
  moreover have "\<not> num_directories (k_fs M) \<le> pos" using pos(1) names(1) by (simp add: word_le_nat_alt)
  ultimately show ?thesis by (simp add: dir_read_def Let_def pos(2,3) idx filename_at_def)
qed

text \<open>The effect of a read: the next name in the buffer, and the directory as it was.\<close>

lemma dir_ready_read:
  assumes r: "dir_ready env p fd P names M" and win: "in_window buf 33" and pos: "left_names fd names M = name # rest"
  shows "\<exists>M'. ece391_read (kernel_calls env w run rest') fd buf 32 (k, M) = Some (int (length name), Suc k, M') \<and> dir_ready env p fd P names M'
    \<and> load (view env M') buf (length name) = name \<and> left_names fd names M' = rest \<and> my_screen M' = my_screen M"
proof -
  note r = r [unfolded dir_ready_def]
  have dm: "dir_mem env P names M" and img: "maps_image env p M" and fd: "2 \<le> fd" "fd < FD_MAX" using r by blast+
  note d = dir_memD [OF dm]
  define pos where "pos = file_position (fd_of M fd)"
  have lt: "unat pos < length names" using assms(3) unfolding left_names_def pos_def by (metis drop_all list.distinct(1) not_le)
  have nm: "name = names ! unat pos" "rest = drop (Suc (unat pos)) names"
    using assms(3) Cons_nth_drop_Suc [OF lt] unfolding left_names_def pos_def by (metis list.inject)+
  have len: "length name \<le> 32" using d(7) [OF nth_mem [OF lt]] nm(1) by simp
  define m1 where "m1 = store (view env M) (e_dir_dentry env) (load (view env M) (dentry_directory (boot_block (k_fs M)) pos) 64)"
  define m2 where "m2 = store m1 buf (name @ [0])"
  define M1 where "M1 = M\<lparr>k_pcbs := (k_pcbs M)(curr M := (k_pcbs M (curr M))\<lparr>elements :=
    (elements (k_pcbs M (curr M)))(fd := (fd_of M fd)\<lparr>file_position := pos + 1\<rparr>)\<rparr>)\<rparr>"
  have rd: "dir_read (k_fs M) fd (e_dir_dentry env) buf (view env M) (curr M) (k_pcbs M) = Some (of_nat (length name), m2, k_pcbs M1)"
    using dir_read_result [OF dm lt refl _ win, of "k_pcbs M" "curr M" fd] by (simp add: pos_def m1_def m2_def nm(1) M1_def)
  define M2 where "M2 = put_view env m2 M1"
  have win': "in_window buf (length (name @ [0]))" using win len by (simp add: in_window_def)
  have v: "view env M2 = m2"
  proof -
    have "image_apart env M1" using maps_image_apart [OF img] image_apart_cong [of M1 M] by (simp add: M1_def)
    moreover have "m2 a = 0" if "\<not> mapped a" for a
      unfolding m2_def m1_def using that d(2) win' store_unmapped view_unmapped by simp
    ultimately show ?thesis unfolding M2_def by (rule view_put_view)
  qed
  have low: "view env M2 a = view env M a" if "a \<in> P" for a
    using clear_of_window [OF d(1) win'] d(4) that unfolding v m2_def m1_def by (simp add: clear_of_def store_other)
  have f: "k_fs M2 = k_fs M" "k_terms M2 = k_terms M" "curr M2 = curr M" "k_pcbs M2 = k_pcbs M1" "k_paging M2 = k_paging M"
    by (simp_all add: M2_def M1_def)
  have up: "unat (pos + 1) = Suc (unat pos)"
    using lt d(5) unsigned_less [of "num_directories (k_fs M)", where ?'a = nat] unfolding directory_def by (simp add: unat_word_ariths)
  have "dir_mem env P names M2" by (rule dir_mem_agree [OF dm low f(1)])
  moreover have "maps_image env p M2" using maps_image_cong [OF f(5)] img by simp
  ultimately have ready: "dir_ready env p fd P names M2"
    using r lt up unfolding dir_ready_def output_ready_def f by (simp add: M1_def)
  have "left_names fd names M2 = rest" unfolding left_names_def f nm(2) using up by (simp add: M1_def)
  moreover have "load (view env M2) buf (length name) = name"
    unfolding v m2_def using load_store_prefix [of "length name" "name @ [0]"] len by simp
  moreover have "my_screen M2 = my_screen M" by (simp add: my_screen_def f) (simp add: M1_def)
  moreover have "syscall_read env (w k) fd buf (int 32) M = Some (int (length name), M2)"
  proof -
    have "buf \<noteq> 0" using win by (auto simp: in_window_def)
    moreover have "M\<lparr>k_pcbs := k_pcbs M1\<rparr> = M1" by (simp add: M1_def)
    ultimately show ?thesis
      using r rd sint_small [of "length name"] len by (simp add: syscall_read_def driver_read_def M2_def)
  qed
  then have "ece391_read (kernel_calls env w run rest') fd buf 32 (k, M) = Some (int (length name), Suc k, M2)"
    using stub(1) [of fd 32 env w k buf M _ M2 run rest'] fd by simp
  ultimately show ?thesis using ready by blast
qed

lemma dir_ready_end:
  assumes r: "dir_ready env p fd P names M" and win: "in_window buf 33" and nil: "left_names fd names M = []"
  shows "\<exists>M'. ece391_read (kernel_calls env w run rest) fd buf 32 (k, M) = Some (0, Suc k, M') \<and> dir_ready env p fd P names M'
    \<and> left_names fd names M' = [] \<and> my_screen M' = my_screen M"
proof -
  note r = r [unfolded dir_ready_def]
  have dm: "dir_mem env P names M" and img: "maps_image env p M" and fd: "2 \<le> fd" "fd < FD_MAX" using r by blast+
  note d = dir_memD [OF dm]
  have "length names \<le> unat (file_position (fd_of M fd))" using nil by (simp add: left_names_def)
  then have over: "num_directories (k_fs M) \<le> file_position (fd_of M fd)"
    using d(5) by (simp add: directory_def word_le_nat_alt)
  define M2 where "M2 = put_view env (view env M) M"
  have v: "view env M2 = view env M" using put_view_kernel(1) [OF maps_image_apart [OF img], of 0 "[]"] by (simp add: M2_def in_kernel_def)
  have f: "k_fs M2 = k_fs M" "k_terms M2 = k_terms M" "curr M2 = curr M" "k_pcbs M2 = k_pcbs M" "k_paging M2 = k_paging M"
    by (simp_all add: M2_def)
  have "dir_mem env P names M2" by (rule dir_mem_agree [OF dm _ f(1)]) (simp add: v)
  moreover have "maps_image env p M2" using maps_image_cong [OF f(5)] img by simp
  ultimately have ready: "dir_ready env p fd P names M2" using r unfolding dir_ready_def output_ready_def f by blast
  have "buf \<noteq> 0" using win by (auto simp: in_window_def)
  then have "syscall_read env (w k) fd buf (int 32) M = Some (0, M2)"
    using r over by (simp add: syscall_read_def driver_read_def dir_read_def Let_def M2_def)
  then have "ece391_read (kernel_calls env w run rest) fd buf 32 (k, M) = Some (0, Suc k, M2)"
    using stub(1) [of fd 32 env w k buf M 0 M2 run rest] fd by simp
  then show ?thesis using ready nil by (intro exI [of _ M2] conjI) (simp_all add: left_names_def my_screen_def f)
qed

lemma dir_ready_write:
  assumes "dir_ready env p fd P names M" "in_window buf n" "0 < n" "\<forall>b\<in>set (load (view env M) buf n). plain_key b"
  shows "\<exists>M'. ece391_write (kernel_calls env w run rest) 1 buf (int n) (k, M) = Some (int n, Suc k, M') \<and> dir_ready env p fd P names M'
    \<and> left_names fd names M' = left_names fd names M \<and> my_screen M' = fold show_char (load (view env M) buf n) (my_screen M)"
proof -
  note r = assms(1) [unfolded dir_ready_def]
  have n: "n \<le> 0x400000" "buf \<noteq> 0" using assms(2) by (auto simp: in_window_def)
  have out: "output_ready M" and dm: "dir_mem env P names M" using r by blast+
  obtain T where T: "ece391_write (kernel_calls env w run rest) 1 buf (int n) (k, M) = Some (int n, Suc k, M\<lparr>k_terms := T\<rparr>)"
    "output_ready (M\<lparr>k_terms := T\<rparr>)" "view env (M\<lparr>k_terms := T\<rparr>) = view env M"
    "my_screen (M\<lparr>k_terms := T\<rparr>) = fold show_char (load (view env M) buf n) (my_screen M)"
    by (rule write_out [OF out n(2) assms(3) n(1) assms(4)])
  have "maps_image env p (M\<lparr>k_terms := T\<rparr>)" using maps_image_cong [of "M\<lparr>k_terms := T\<rparr>" M env p] r by simp
  moreover have "dir_mem env P names (M\<lparr>k_terms := T\<rparr>)" by (rule dir_mem_agree [OF dm]) (simp_all add: T(3))
  ultimately have "dir_ready env p fd P names (M\<lparr>k_terms := T\<rparr>)" using r T(2) unfolding dir_ready_def by simp
  then show ?thesis using T(1,4) by (intro exI [of _ "M\<lparr>k_terms := T\<rparr>"] conjI) (simp_all add: left_names_def)
qed

lemma dir_ready_poke:
  fixes b :: u8
  assumes "dir_ready env p fd P names M" "in_window a 1"
  defines "M' \<equiv> put_view env ((view env M)(a := b)) M"
  shows "dir_ready env p fd P names M'" "view env M' = (view env M)(a := b)" "left_names fd names M' = left_names fd names M" "my_screen M' = my_screen M"
proof -
  note r = assms(1) [unfolded dir_ready_def]
  have dm: "dir_mem env P names M" and img: "maps_image env p M" using r by blast+
  have one: "store (view env M) a [b] = (view env M)(a := b)" using store_snoc [of "[]" "view env M" a b] by simp
  show v: "view env M' = (view env M)(a := b)"
    using put_view_window(1) [OF img, of a "[b]"] assms(2) unfolding M'_def one by simp
  have f: "k_fs M' = k_fs M" "k_terms M' = k_terms M" "curr M' = curr M" "k_pcbs M' = k_pcbs M" "k_paging M' = k_paging M"
    by (simp_all add: M'_def)
  have "view env M' x = view env M x" if "x \<in> P" for x
    using clear_of_window [OF dir_memD(1) [OF dm] assms(2)] that unfolding v by (auto simp: clear_of_def)
  then have "dir_mem env P names M'" by (rule dir_mem_agree [OF dm _ f(1)])
  moreover have "maps_image env p M'" using maps_image_cong [OF f(5)] img by simp
  ultimately show "dir_ready env p fd P names M'" using r unfolding dir_ready_def output_ready_def f by blast
  show "left_names fd names M' = left_names fd names M" "my_screen M' = my_screen M" by (simp_all add: left_names_def my_screen_def f)
qed

interpretation kdir: dir_to_terminal "kernel_calls env w run rest" "\<lambda>S. dir_ready env p fd P names (snd S)" fd
    "\<lambda>S. left_names fd names (snd S)" "\<lambda>S. my_screen (snd S)" in_window
  for env w run rest p fd P names
proof
  let ?c = "kernel_calls env w run rest"
  fix S :: session and buf n name rest' k b
  assume r: "dir_ready env p fd P names (snd S)"
  show "name \<noteq> [] \<and> length name \<le> 32 \<and> (\<forall>b\<in>set name. plain_key b)" if "name \<in> set (left_names fd names (snd S))"
  proof (rule dir_memD(7))
    show "dir_mem env P names (snd S)" using r by (simp add: dir_ready_def)
    show "name \<in> set names" using that in_set_dropD unfolding left_names_def by fast
  qed
  assume win: "in_window buf 33"
  show "\<exists>S'. ece391_read ?c fd buf 32 S = Some (int (length name), S') \<and> dir_ready env p fd P names (snd S')
      \<and> load (peek ?c S') buf (length name) = name \<and> left_names fd names (snd S') = rest' \<and> my_screen (snd S') = my_screen (snd S)"
    if "left_names fd names (snd S) = name # rest'"
    using dir_ready_read [OF r win that, of w run rest "fst S"] unfolding stub(5) prod.collapse by (metis snd_conv)
  show "\<exists>S'. ece391_read ?c fd buf 32 S = Some (0, S') \<and> dir_ready env p fd P names (snd S')
      \<and> left_names fd names (snd S') = [] \<and> my_screen (snd S') = my_screen (snd S)"
    if "left_names fd names (snd S) = []"
    using dir_ready_end [OF r win that, of w run rest "fst S"] unfolding prod.collapse by (metis snd_conv)
  show "\<exists>S'. ece391_write ?c 1 buf (int n) S = Some (int n, S') \<and> dir_ready env p fd P names (snd S')
      \<and> left_names fd names (snd S') = left_names fd names (snd S)
      \<and> my_screen (snd S') = fold show_char (load (peek ?c S) buf n) (my_screen (snd S))"
    if "0 < n" "n \<le> 33" "\<forall>b\<in>set (load (peek ?c S) buf n). plain_key b"
  proof -
    have "in_window buf n" using win that(2) by (simp add: in_window_def)
    from dir_ready_write [OF r this that(1) that(3) [unfolded stub(5)], of w run rest "fst S"]
    show ?thesis unfolding stub(5) prod.collapse by (metis snd_conv)
  qed
  show "dir_ready env p fd P names (snd (set_byte ?c (buf + of_nat k) b S))
      \<and> peek ?c (set_byte ?c (buf + of_nat k) b S) = (peek ?c S)(buf + of_nat k := b)
      \<and> left_names fd names (snd (set_byte ?c (buf + of_nat k) b S)) = left_names fd names (snd S)
      \<and> my_screen (snd (set_byte ?c (buf + of_nat k) b S)) = my_screen (snd S)" if "k < 33"
  proof -
    have "in_window (buf + of_nat k) 1" using win that by (simp add: in_window_def unat_word_ariths unat_of_nat_u32)
    then show ?thesis using dir_ready_poke [OF r] unfolding set_byte_def stub(5,6) by simp
  qed
qed

section \<open>Opening the directory\<close>

text \<open>The entry \<open>i\<close> with the name \<^verbatim>\<open>.\<close> is a directory, and \<open>fd\<close> is the first free descriptor.\<close>

definition can_list :: "env \<Rightarrow> machine \<Rightarrow> u32 set \<Rightarrow> u8 list list \<Rightarrow> nat \<Rightarrow> u8 list \<Rightarrow> int \<Rightarrow> bool" where
  "can_list env M P names i name fd \<longleftrightarrow> dir_mem env P names M \<and> in_kernel (e_dentry env) 64 \<and> e_dentry env \<noteq> 0 \<and> clear_of P (e_dentry env) 64
     \<and> find (\<lambda>i. names ! i = name) [0..<length names] = Some i
     \<and> filetype_of (view env M) (dentry_directory (boot_block (k_fs M)) (of_nat i)) = DIRECTORY_TYPE
     \<and> fd \<in> {2..<FD_MAX} \<and> fd \<notin> open_fds (k_pcbs M (curr M)) \<and> {2..<fd} \<subseteq> open_fds (k_pcbs M (curr M))"

lemma kernel_open_dir:
  assumes img: "maps_image env p M" and cl: "can_list env M P names i name fd" and out: "output_ready M"
    and nm: "cstr (view env M) buf name" "buf \<noteq> 0"
  shows "\<exists>M'. ece391_open (kernel_calls env w run rest) buf (k, M) = Some (fd, Suc k, M') \<and> dir_ready env p fd P names M'
    \<and> left_names fd names M' = names \<and> my_screen M' = my_screen M"
proof -
  let ?e = "\<lambda>j. dentry_directory (boot_block (k_fs M)) (of_nat j)" and ?p = "k_pcbs M (curr M)"
  note c = cl [unfolded can_list_def] and o = out [unfolded output_ready_def]
  have dm: "dir_mem env P names M" and fd: "fd \<in> {2..<FD_MAX}" "fd \<notin> open_fds ?p" "{2..<fd} \<subseteq> open_fds ?p"
    and clr: "clear_of P (e_dentry env) 64" using c by blast+
  note d = dir_memD [OF dm]
  define m1 where "m1 = store (view env M) (e_dentry env) (load (view env M) (?e i) 64)"
  let ?p1 = "?p\<lparr>elements := (elements ?p)(fd := \<lparr>file_operation_jmp_tbl = Dir_driver, inode_ptr = 0, file_position = 0, flags = 1\<rparr>)\<rparr>"
  have "64 \<le> unat (e_dentry env - ?e j)" if "j < length names" for j
    by (rule clear_entry [OF d(6) [OF that] clr]) simp_all
  then have "read_dentry_by_name (k_fs M) (view env M) buf (e_dentry env) = Some (0, m1)"
    using read_dentry_by_name_names [OF d(5) nm(1), of "e_dentry env"] c by (simp add: m1_def)
  moreover have "filetype_of m1 (e_dentry env) = DIRECTORY_TYPE" unfolding m1_def filetype_store using c by simp
  ultimately have fo: "file_open (k_fs M) (e_tbl env) (e_dentry env) buf (view env M) (curr M) (k_pcbs M) = Some (fd, m1, (k_pcbs M)(curr M := ?p1))"
    using pcb_open_first [OF fd, of "Wild_driver (e_tbl env)"] fd(1) by (simp add: file_open_def Let_def)
  define M1 where "M1 = put_view env m1 (M\<lparr>k_pcbs := (k_pcbs M)(curr M := ?p1)\<rparr>)"
  define M2 where "M2 = (if strncmp (view env M1) (e_rtc_name env) buf 3 \<noteq> -1 then upd_pcb (curr M1) (\<lambda>p. p\<lparr>rtc_fd := of_int fd\<rparr>) M1 else M1)"
  define q where "q = k_pcbs M2 (curr M)"
  have f: "k_pcbs M2 = (k_pcbs M)(curr M := q)" "curr M2 = curr M" "k_fs M2 = k_fs M" "k_terms M2 = k_terms M" "k_paging M2 = k_paging M"
    and q: "elements q = elements ?p1" "pcb_term q = pcb_term ?p" "rtc_fd q \<in> {rtc_fd ?p, of_int fd}"
    by (auto simp: q_def M2_def M1_def upd_pcb_def)
  have "file_operation_jmp_tbl (fd_of M2 fd) = Dir_driver" by (simp add: f q)
  moreover have "driver_open env Dir_driver M2 = Some (0, M2)" by (simp add: driver_open_def dir_open_def)
  ultimately have "syscall_open env buf M = Some (fd, M2)"
    using fo nm(2) fd(1)
    by (cases "strncmp (view env M1) (e_rtc_name env) buf 3 = -1") (simp_all add: syscall_open_def Let_def M1_def [symmetric] M2_def)
  then have call: "ece391_open (kernel_calls env w run rest) buf (k, M) = Some (fd, Suc k, M2)" by (rule stub(4))
  have "image_apart env (M\<lparr>k_pcbs := x\<rparr>)" "view env (M\<lparr>k_pcbs := x\<rparr>) = view env M" for x
    using maps_image_apart [OF img] image_apart_cong [of "M\<lparr>k_pcbs := x\<rparr>" M] view_cong [of "M\<lparr>k_pcbs := x\<rparr>" M] by simp_all
  then have "view env M1 = m1"
    using put_view_kernel(1) [of env "M\<lparr>k_pcbs := (k_pcbs M)(curr M := ?p1)\<rparr>" "e_dentry env"] c by (simp add: M1_def m1_def)
  moreover have "view env M2 = view env M1" by (rule view_cong) (simp_all add: M2_def upd_pcb_def)
  ultimately have "view env M2 a = view env M a" if "a \<in> P" for a
    using c that by (simp add: m1_def clear_of_def store_other)
  then have "dir_mem env P names M2" by (rule dir_mem_agree [OF dm _ f(3)])
  moreover have "maps_image env p M2" using maps_image_cong [OF f(5)] img by simp
  moreover have "rtc_fd q \<noteq> 1" using q(3) o fd_not_stdout [of fd] fd(1) by auto
  ultimately have "dir_ready env p fd P names M2"
    unfolding dir_ready_def using fd(1) o by (simp add: output_ready_def f q)
  then show ?thesis using call by (intro exI [of _ M2] conjI) (simp_all add: left_names_def my_screen_def f q)
qed

section \<open>A sample directory\<close>

text \<open>The directory holds itself and the file \<^verbatim>\<open>sh\<close>; the running process has its terminal as standard output and
  the string literal at 0x8004000.\<close>

definition list_image :: mem where
  "list_image = store (store (store (store (\<lambda>_. 0) 0x500040 [0x2E]) 0x500060 [1]) 0x500080 [0x73, 0x68]) 0x5000A0 [2]"

definition list_base :: machine where
  "list_base = text_machine\<lparr>k_fs := sample_fs\<lparr>num_directories := 2\<rparr>, k_phys := list_image\<rparr>"

definition list_machine :: machine where
  "list_machine = put_view sample_env (store (view sample_env list_base) 0x8004000 [0x2E, 0]) list_base"

definition list_region :: "u32 set" where
  "list_region = {0x500000..<0x503000}"

lemma list_ready:
  "maps_image sample_env 1 list_machine" "output_ready list_machine" "can_list sample_env list_machine list_region [[0x2E], [0x73, 0x68]] 0 [0x2E] 2"
  "cstr (view sample_env list_machine) 0x8004000 [0x2E]"
proof -
  let ?M = list_machine and ?m = "view sample_env list_machine" and ?names = "[[0x2E], [0x73, 0x68]] :: u8 list list"
  have img: "maps_image sample_env 1 list_base"
    using sample_maps_image maps_image_cong [of list_base sample_machine] by (simp add: list_base_def text_machine_def)
  then show "maps_image sample_env 1 ?M" using maps_image_cong [of ?M list_base] by (simp add: list_machine_def)
  have "term_ok 0 sample_terms" using sample_inv by (simp add: term_ok_def terminals_inv_def)
  then show "output_ready ?M"
    by (simp add: output_ready_def list_machine_def list_base_def text_machine_def sample_pcb_def) (simp add: sample_machine_def)
  have v: "?m = store (view sample_env list_base) 0x8004000 [0x2E, 0]"
    unfolding list_machine_def by (rule put_view_window(1) [OF img]) (simp add: in_window_def)
  show "cstr ?m 0x8004000 [0x2E]" unfolding v using cstr_store [of "[0x2E]"] by simp
  have P: "x < KERNEL_MEM_END" if "x \<in> list_region" for x using that by (auto simp: list_region_def word_less_nat_alt)
  have at: "?m a = list_image a" if "a \<in> list_region" for a
  proof -
    have "clear_of list_region 0x8004000 2" by (rule clear_of_window) (use P in \<open>auto simp: in_window_def\<close>)
    then have "?m a = view sample_env list_base a" unfolding v using that by (intro store_other) (simp add: clear_of_def numeral_2_eq_2)
    then show ?thesis using P [OF that] by (simp add: view_def list_base_def)
  qed
  have fs: "k_fs ?M = sample_fs\<lparr>num_directories := 2\<rparr>" by (simp add: list_machine_def list_base_def)
  have entries: "dentry_directory 0x500000 0 = 0x500040" "dentry_directory 0x500000 1 = 0x500080" by (simp_all add: dentry_directory_def)
  have in_P: "0x500040 + of_nat k \<in> list_region" "0x500080 + of_nat k \<in> list_region" if "k < 64" for k
    using that by (simp_all add: list_region_def word_le_nat_alt word_less_nat_alt unat_word_ariths unat_of_nat_u32)
  have bytes: "?m 0x500040 = 0x2E" "?m 0x500041 = 0" "?m 0x500080 = 0x73" "?m 0x500081 = 0x68" "?m 0x500082 = 0" "get32 ?m 0x500060 = 1"
    using in_P [THEN at, of 0] in_P [THEN at, of 1] in_P [THEN at, of 2] in_P [THEN at, of 32] in_P [THEN at, of 33] in_P [THEN at, of 34] in_P [THEN at, of 35]
    by (simp_all add: get32_def) (simp_all add: list_image_def store_def)
  have clear: "clear_of list_region (e_dentry sample_env) 64" "clear_of list_region (e_dir_dentry sample_env) 64"
    unfolding list_region_def by (rule sample_region_clear; simp add: sample_env_def)+
  have "dir_mem sample_env list_region ?names ?M"
    unfolding dir_mem_def fs using P clear in_P bytes entries
    by (auto simp: directory_def cstr_def load_def upt_rec less_Suc_eq in_kernel_def sample_env_def sample_fs_def plain_key_def)
  moreover have "in_kernel (e_dentry sample_env) 64" "e_dentry sample_env \<noteq> 0" by (simp_all add: in_kernel_def sample_env_def)
  moreover have "open_fds (k_pcbs ?M (curr ?M)) \<inter> {2..<FD_MAX} = {}"
    by (auto simp: open_fds_def list_machine_def list_base_def text_machine_def sample_pcb_def)
  moreover have "filetype_of ?m (dentry_directory (boot_block (k_fs ?M)) (of_nat 0)) = DIRECTORY_TYPE"
    using bytes(6) entries by (simp add: fs sample_fs_def filetype_of_def)
  ultimately show "can_list sample_env ?M list_region ?names 0 [0x2E] 2"
    unfolding can_list_def using clear(1) by (auto simp: upt_rec)
qed

section \<open>Properties\<close>

text \<open>C17: \<open>ls\<close> lists the directory.  A process whose standard output is its terminal, which has a descriptor left and whose
  file system holds a directory entry with the name \<^verbatim>\<open>.\<close> runs \<open>ls\<close> to its end: the program returns 0, having
  written the name of every directory entry, in the order of the directory, each on a line of its own, to the terminal of the
  process.  The names are those of at most 32 bytes that the entry terminates.\<close>

theorem ls_lists_directory:
  assumes "maps_image env p M" "output_ready M" "can_list env M P names i [0x2E] fd"
    and "cstr (view env M) (lit ''.'') [0x2E]" "lit ''.'' \<noteq> 0" "in_window buf 33"
  shows "\<exists>k' M'. ls_main (kernel_calls env w run rest) lit buf (k, M) = Some (0, k', M')
    \<and> my_screen M' = fold show_char (concat (map (\<lambda>n. n @ [NEWLINE]) names)) (my_screen M)"
proof -
  let ?c = "kernel_calls env w run rest"
  obtain M1 where 1: "ece391_open ?c (lit ''.'') (k, M) = Some (fd, Suc k, M1)" "dir_ready env p fd P names M1"
    "left_names fd names M1 = names" "my_screen M1 = my_screen M"
    using kernel_open_dir [OF assms(1,3,2,4,5), of w run rest k] by blast
  obtain k2 M2 where 2: "ls_loop ?c lit fd buf (Suc k, M1) = Some (0, k2, M2)"
    "my_screen M2 = fold show_char (concat (map (\<lambda>n. n @ [NEWLINE]) names)) (my_screen M)"
    using kdir.ls_loop_lists [of env p fd P names "(Suc k, M1)" buf w run rest lit] 1(2-4) assms(6) by auto
  have "fd \<noteq> -1" using assms(3) by (simp add: can_list_def)
  then have "ls_main ?c lit buf (k, M) = Some (0, k2, M2)" using 1(1) 2(1) by (simp add: ls_main_def)
  then show ?thesis using 2(2) by blast
qed

theorem ls_lists_directory_witness:
  "\<exists>k' M'. ls_main (kernel_calls sample_env (\<lambda>_. \<lparr>w_rtc = [], w_term = []\<rparr>) (\<lambda>_ _. None) 0) (\<lambda>_. 0x8004000) 0x8002000 (0, list_machine) = Some (0, k', M')
    \<and> my_screen M' = fold show_char [0x2E, NEWLINE, 0x73, 0x68, NEWLINE] (my_screen list_machine)"
  using ls_lists_directory [OF list_ready(1-3), of "\<lambda>_. 0x8004000" "0x8002000" "\<lambda>_. \<lparr>w_rtc = [], w_term = []\<rparr>" "\<lambda>_ _. None" 0 0] list_ready(4)
  by (simp add: in_window_def)

end
