(* ===== verification/Spec2Isabelle.thy ===== *)
theory Spec2Isabelle
  imports Boot Exercises Fish Listing
begin

text \<open>
  A verification of the teaching kernel under \<^verbatim>\<open>src/student-distrib\<close> and of programs that run on it: a 32-bit x86 kernel with paging,
  a read-only file system, four virtual terminals, a keyboard, a clock, a timer-driven
  scheduler for up to fifteen processes and ten system calls.

  \<^bold>\<open>How the parts interact.\<close>  The boot loader calls \<open>entry\<close>, which fills the descriptor tables,
  initialises every driver and starts a shell.  A program enters the kernel through vector 0x80
  (\<open>syscall_linkage\<close>), the devices through the vectors 0x20, 0x21 and 0x28.  \<open>syscall_execute\<close> parses
  a command line, finds the file, checks it, takes a process identifier, builds a page directory,
  loads the file and enters it; \<open>syscall_halt\<close> undoes this and continues in the parent.  The timer
  (\<open>pit_handler\<close>) moves to the next process of the run queue.  The keyboard handler feeds the input
  buffer of the terminal on the screen, from which \<open>terminal_read\<close> takes lines.

  \<^bold>\<open>Common conventions.\<close>  A machine integer is a word of its width, a C \<^verbatim>\<open>int\<close> that cannot overflow an
  \<open>int\<close>.  Memory is a function from 32-bit addresses to bytes; arrays of the kernel that the
  code only indexes are functions on \<open>int\<close>, so that an index out of bounds is a
  defined read or write of a neighbouring cell and theorems can speak of it.  A structure is a record,
  except where the code casts memory to a structure (directory entries, inodes, boot
  information), where the fields are read by their offsets.  A counting loop is \<open>for_range\<close>;
  a loop that need not end is a \<open>partial_function\<close> with \<open>None\<close> for not returning.  There is no
  fuel anywhere.  A loop that waits for an interrupt takes what arrives meanwhile as a list.
  Port accesses append to a log; what a read returns is a parameter \<open>dev\<close>, a function of the log,
  with the documented behaviour of the chip as a hypothesis where a theorem needs it
  (\<open>pic_device\<close>).  The interrupts that arrive during the system calls of a program are a function of the number of
  the call.  The values of uninitialised variables and the addresses the linker and the
  stack pointer fix are parameters too (\<open>env\<close>, \<open>boot_env\<close>).

  \<^bold>\<open>The theories.\<close>

  \<^item> \<open>Prelude\<close>: machine words, loops and their closed forms, bounded arrays, little-endian words, and
    the contract of a first-fit allocator as a locale with its consequences.  \<open>Tasks\<close> and \<open>Pcb\<close>
    interpret it for process identifiers and file descriptors.

  \<^item> \<open>Screen\<close>: the abstract text screen of 25 rows and 80 columns, and the contract of a device that
    shows characters on it.  \<open>Console\<close> and \<open>Termios\<close> interpret the contract.

  \<^item> \<open>Lib_Mem\<close>, \<open>Lib_Str\<close>, \<open>Console\<close> (\<^verbatim>\<open>lib/lib.c\<close>, \<^verbatim>\<open>lib/lib.h\<close>): \<open>memset\<close>, \<open>memcpy\<close> and \<open>memmove\<close>
    as their assembly does it, in three phases and by words, equal plain fills and copies; the string functions
    agree with list functions on terminated strings; \<open>itoa\<close> writes the digits; \<open>printf\<close> terminates
    and prints a reference rendering; \<open>putc\<close> refines the abstract screen.

  \<^item> \<open>Tasks\<close> (\<^verbatim>\<open>kernel/tasks.c\<close>), \<open>Pcb\<close> (\<^verbatim>\<open>kernel/pcb.c\<close>), \<open>Scheduling\<close> (\<^verbatim>\<open>kernel/scheduling.c\<close>: the run
    queue): allocation of identifiers and descriptors; the placement of control blocks at the
    bottom of 8 kB stacks; the scheduler's search ends and is fair.

  \<^item> \<open>I8259\<close>, \<open>Rtc\<close> (\<^verbatim>\<open>drivers/i8259.c\<close>, \<^verbatim>\<open>drivers/rtc.c\<close>, \<open>pit_init\<close> of \<^verbatim>\<open>drivers/pit.c\<close>): which lines are
    masked and which vectors they have; which rates are accepted and what is programmed;
    when \<open>rtc_read\<close> returns.

  \<^item> \<open>Paging\<close> (\<^verbatim>\<open>kernel/paging.c\<close>): the tables as records of bit fields, the page walk of the processor as
    the specification \<open>translate\<close>, the invariant \<open>paging_ok\<close> and that a process reaches neither
    the kernel nor another process.

  \<^item> \<open>Fs\<close> (\<^verbatim>\<open>drivers/fs.c\<close>): a file is the list \<open>file_bytes\<close> of its bytes in the image; reading delivers
    these in order, lookup finds the first entry of a name, the loader places a program.

  \<^item> \<open>Termios\<close> (\<^verbatim>\<open>drivers/termios.c\<close>): four terminals, of which one is in video memory; writing refines the
    abstract screen, keys edit a line, a line typed is the line read, switching keeps every screen.

  \<^item> \<open>Idt\<close> (\<^verbatim>\<open>kernel/irq.c\<close>, \<^verbatim>\<open>kernel/exception.c\<close>): where each vector leads and what each exception shows.

  \<^item> \<open>Kernel\<close> (\<open>scheduler_tick\<close> of \<^verbatim>\<open>kernel/scheduling.c\<close>, \<open>pit_handler\<close> of \<^verbatim>\<open>drivers/pit.c\<close>): the record
    \<open>machine\<close> puts the components together; the context switch and that it is undone by the
    switch back.

  \<^item> \<open>Syscall\<close>, \<open>Process\<close>, \<open>Shell\<close> (\<^verbatim>\<open>kernel/syscall.c\<close>, \<^verbatim>\<open>kernel/asm_linkage.S\<close>): every call and
    the dispatch, on memory as the page directory in force maps it (\<open>view\<close>); which arguments are
    rejected; what \<open>read\<close>, \<open>getargs\<close> and \<open>vidmap\<close> do to the caller's memory; \<open>execute\<close> followed through
    all components; \<open>halt\<close>; starting a shell.

  \<^item> \<open>Keyboard\<close> (\<^verbatim>\<open>drivers/keyboard.c\<close>): the handler with its font tables; the strokes of a text type it.

  \<^item> \<open>Boot\<close> (\<^verbatim>\<open>kernel.c\<close>, \<^verbatim>\<open>multiboot.h\<close>, \<^verbatim>\<open>x86_desc.h\<close>): \<open>entry\<close>; from the hand-over of the boot loader to
    the shell with all invariants established.

  \<^item> \<open>Programs\<close> (\<^verbatim>\<open>src/syscalls\<close>: the support library, \<^verbatim>\<open>cat\<close>, \<^verbatim>\<open>ls\<close>, \<^verbatim>\<open>grep\<close>, \<^verbatim>\<open>hello\<close>, \<^verbatim>\<open>testprint\<close>, \<^verbatim>\<open>counter\<close>,
    \<^verbatim>\<open>shell\<close>): programs as functions of the system calls, the contracts they rely on as locales, and what the
    programs do under them; the support library agrees with the kernel's.

  \<^item> \<open>User\<close> (\<^verbatim>\<open>src/syscalls/ece391syscall.S\<close>): the stubs; the kernel's calls keep the contracts, so the programs do on the
    kernel what they do under the contracts: \<^verbatim>\<open>cat\<close> shows the file, the shell hands the typed line to \<open>execute\<close>.

  \<^item> \<open>Listing\<close>: the same for directories: opened and read through the system calls, \<^verbatim>\<open>ls\<close> writes every name of the directory.

  \<^item> \<open>Exercises\<close> (\<^verbatim>\<open>ece391syserr.c\<close>, \<^verbatim>\<open>ece391pingpong.c\<close>): the error tests as programs, the contract they expect of the
    system, and that the kernel keeps it.

  \<^item> \<open>Fish\<close> (\<^verbatim>\<open>src/fish\<close>): the pool of blinking characters with the linked list in it, which refines a plain list; the
    program comes to its end; a character at location 0 breaks the list.

  \<^bold>\<open>Not modelled.\<close>  The instructions of user programs and of \<^verbatim>\<open>boot.S\<close>, and the static tables of
  \<^verbatim>\<open>x86_desc.S\<close>, which are data; the pushes and pops of the assembly linkage around a handler; the interrupt flag,
  so that handlers interleave with kernel code only at the waits of \<open>rtc_read\<close> and
  \<open>terminal_read\<close> and between the calls of a theorem; the translation look-aside buffer.  The test code
  under \<^verbatim>\<open>tests\<close> is not called by the kernel.  \<^verbatim>\<open>ece391emulate.c\<close> runs the
  programs on the developer's own system, and \<^verbatim>\<open>ece391sigtest.c\<close> is about signals, which the kernel does not
  deliver.  \<open>err_open\<close> and \<open>err_open_lots\<close> of \<^verbatim>\<open>ece391syserr.c\<close> and \<^verbatim>\<open>grep\<close> are modelled, but the theorems do not follow them on the
  kernel's calls.
\<close>

end
